(* ===== verification/Vemu_Prelude.thy ===== *)
theory Vemu_Prelude
  imports Main "HOL-Library.Word"
begin

text \<open>
  Prelude of the development: the machine integers of the C sources, the ways in which
  a C function can fail to return (\<open>fault\<close>), a result type with its sequencing
  combinator, checked access to C arrays and the counted \<^verbatim>\<open>for\<close> loop.
  The lemmas here are what every component shares: the algebra of \<open>rbind\<close>, the
  pointwise behaviour of array loops, and splitting 64-bit words into halves.
\<close>

unbundle bit_operations_syntax

section \<open>Machine integers\<close>

type_synonym u8 = "8 word"
type_synonym u16 = "16 word"
type_synonym u32 = "32 word"
type_synonym u64 = "64 word"

text \<open>Signed types are words of their width, read with \<open>sint\<close>.\<close>

type_synonym i32 = "32 word"
type_synonym i64 = "64 word"

text \<open>The unit of the clocks, shared by the devices that count seconds.\<close>

definition get_ticks_per_sec :: i64 where
  "get_ticks_per_sec = 1000000000"

named_theorems result_simps \<open>sequencing of fallible computations\<close>
named_theorems array_simps \<open>checked array access\<close>

section \<open>Faults and results\<close>

text \<open>
  The ways a C function of the emulator does not return normally: a null pointer is
  dereferenced, an array is accessed outside its bounds, an \<^verbatim>\<open>assert\<close> fails,
  \<^verbatim>\<open>hw_error\<close> or \<^verbatim>\<open>abort\<close> stops the emulator, \<^verbatim>\<open>exit\<close> is called, a loop
  never ends, or the behaviour is undefined in another way (an out-of-range shift, the
  difference of unrelated pointers).
\<close>

datatype fault =
    Null_Deref
  | Out_Of_Bounds
  | Assert_Failed
  | Hw_Error
  | Abort
  | Exit int
  | Diverges
  | Undefined

type_synonym 'a result = "fault + 'a"

definition rbind :: "'a result \<Rightarrow> ('a \<Rightarrow> 'b result) \<Rightarrow> 'b result" where
  "rbind m f = (case m of Inl e \<Rightarrow> Inl e | Inr x \<Rightarrow> f x)"

definition c_assert :: "bool \<Rightarrow> 'a result \<Rightarrow> 'a result" where
  "c_assert b m = (if b then m else Inl Assert_Failed)"

lemma rbind_Inl [simp, result_simps]: "rbind (Inl e) f = Inl e"
  by (simp add: rbind_def)

lemma rbind_Inr [simp, result_simps]: "rbind (Inr x) f = f x"
  by (simp add: rbind_def)

lemma rbind_assoc [result_simps]: "rbind (rbind m f) g = rbind m (\<lambda>x. rbind (f x) g)"
  by (simp add: rbind_def split: sum.split)

lemma rbind_eq_Inr_iff: "rbind m f = Inr y \<longleftrightarrow> (\<exists>x. m = Inr x \<and> f x = Inr y)"
  by (simp add: rbind_def split: sum.split)

lemma rbind_eq_Inl_iff: "rbind m f = Inl e \<longleftrightarrow> m = Inl e \<or> (\<exists>x. m = Inr x \<and> f x = Inl e)"
  by (auto simp: rbind_def split: sum.split)

lemma rbind_if: "rbind (if b then m else n) f = (if b then rbind m f else rbind n f)"
  by simp

lemma rbind_cong [fundef_cong]:
  "m = n \<Longrightarrow> (\<And>x. n = Inr x \<Longrightarrow> f x = g x) \<Longrightarrow> rbind m f = rbind n g"
  by (simp add: rbind_def split: sum.split)

lemma c_assert_simps [simp, result_simps]:
  "c_assert True m = m" "c_assert False m = Inl Assert_Failed"
  by (simp_all add: c_assert_def)

lemma c_assert_eq_Inr_iff: "c_assert b m = Inr y \<longleftrightarrow> b \<and> m = Inr y"
  by (simp add: c_assert_def)

text \<open>Reading through a pointer that may be null.\<close>

definition deref :: "'a option \<Rightarrow> 'a result" where
  "deref p = (case p of None \<Rightarrow> Inl Null_Deref | Some x \<Rightarrow> Inr x)"

lemma deref_simps [simp, result_simps]: "deref None = Inl Null_Deref" "deref (Some x) = Inr x"
  by (simp_all add: deref_def)

lemma deref_eq_Inr_iff: "deref p = Inr x \<longleftrightarrow> p = Some x"
  by (cases p) simp_all

text \<open>
  \<open>ensures P m\<close>: if the computation returns, its value satisfies \<open>P\<close>. The rules push it
  through the control flow, so that a handler is proved branch by branch.
\<close>

definition ensures :: "('a \<Rightarrow> bool) \<Rightarrow> 'a result \<Rightarrow> bool" where
  "ensures P m \<longleftrightarrow> (\<forall>x. m = Inr x \<longrightarrow> P x)"

named_theorems ensures_rules \<open>postconditions of fallible computations\<close>

lemma ensures_Inl [simp]: "ensures P (Inl e)"
  by (simp add: ensures_def)

lemma ensures_Inr [simp]: "ensures P (Inr x) = P x"
  by (simp add: ensures_def)

lemma ensures_True [simp]: "ensures (\<lambda>x. True) m"
  by (simp add: ensures_def split: sum.split)

lemma ensures_rbind [ensures_rules]: "ensures P (rbind m f) = ensures (\<lambda>x. ensures P (f x)) m"
  by (auto simp: ensures_def rbind_eq_Inr_iff)

lemma ensures_if [ensures_rules]:
  "ensures P (if b then m else n) = ((b \<longrightarrow> ensures P m) \<and> (\<not> b \<longrightarrow> ensures P n))"
  by simp

lemma ensures_assert [ensures_rules]: "ensures P (c_assert b m) = (b \<longrightarrow> ensures P m)"
  by (cases b) simp_all

lemma ensures_mono: "ensures P m \<Longrightarrow> (\<And>x. P x \<Longrightarrow> Q x) \<Longrightarrow> ensures Q m"
  by (simp add: ensures_def)

lemma ensures_rbindI:
  "ensures Q m \<Longrightarrow> (\<And>x. Q x \<Longrightarrow> ensures P (f x)) \<Longrightarrow> ensures P (rbind m f)"
  by (auto simp: ensures_def rbind_eq_Inr_iff)

lemma ensuresD: "ensures P m \<Longrightarrow> m = Inr x \<Longrightarrow> P x"
  by (simp add: ensures_def)

lemma ensuresI: "(\<And>x. m = Inr x \<Longrightarrow> P x) \<Longrightarrow> ensures P m"
  by (simp add: ensures_def)

lemma option_eqI: "(\<And>v. a = Some v \<longleftrightarrow> b = Some v) \<Longrightarrow> a = b"
  by (cases a; cases b) auto

section \<open>C arrays\<close>

text \<open>
  An array is a list of its declared length; reading or writing outside it is the
  fault \<open>Out_Of_Bounds\<close>.
\<close>

definition aget :: "'a list \<Rightarrow> nat \<Rightarrow> 'a result" where
  "aget xs i = (if i < length xs then Inr (xs ! i) else Inl Out_Of_Bounds)"

definition aset :: "'a list \<Rightarrow> nat \<Rightarrow> 'a \<Rightarrow> 'a list result" where
  "aset xs i v = (if i < length xs then Inr (xs[i := v]) else Inl Out_Of_Bounds)"

lemma aget_Inr [simp, array_simps]: "i < length xs \<Longrightarrow> aget xs i = Inr (xs ! i)"
  by (simp add: aget_def)

lemma aget_Inl [simp, array_simps]: "length xs \<le> i \<Longrightarrow> aget xs i = Inl Out_Of_Bounds"
  by (simp add: aget_def)

lemma aset_Inr [simp, array_simps]: "i < length xs \<Longrightarrow> aset xs i v = Inr (xs[i := v])"
  by (simp add: aset_def)

lemma aset_Inl [simp, array_simps]: "length xs \<le> i \<Longrightarrow> aset xs i v = Inl Out_Of_Bounds"
  by (simp add: aset_def)

lemma aget_eq_Inr_iff: "aget xs i = Inr v \<longleftrightarrow> i < length xs \<and> xs ! i = v"
  by (auto simp: aget_def)

lemma aset_eq_Inr_iff: "aset xs i v = Inr ys \<longleftrightarrow> i < length xs \<and> ys = xs[i := v]"
  by (auto simp: aset_def)

lemma ensures_aset [ensures_rules]: "ensures P (aset xs i v) = (i < length xs \<longrightarrow> P (xs[i := v]))"
  by (auto simp: ensures_def aset_eq_Inr_iff)

lemma ensures_aget [ensures_rules]: "ensures P (aget xs i) = (i < length xs \<longrightarrow> P (xs ! i))"
  by (auto simp: ensures_def aget_eq_Inr_iff)

text \<open>Slots of a ring buffer that are less than a round apart are different.\<close>

lemma mod_add_neq:
  fixes k c m t :: nat
  assumes "k < c" "c < m + k"
  shows "(t + k) mod m \<noteq> (t + c) mod m"
proof
  assume "(t + k) mod m = (t + c) mod m"
  then have "m dvd (t + c) - (t + k)"
    using mod_eq_dvd_iff_nat[of "t + k" "t + c" m] assms(1) by simp
  moreover have "(t + c) - (t + k) = c - k" "0 < c - k" "c - k < m" using assms by auto
  ultimately show False using nat_dvd_not_less by metis
qed

section \<open>Counted loops\<close>

text \<open>\<open>for_from i n body s\<close> is \<^verbatim>\<open>for (j = i; j < i + n; ++j) s = body(j, s)\<close>.\<close>

primrec for_from :: "nat \<Rightarrow> nat \<Rightarrow> (nat \<Rightarrow> 's \<Rightarrow> 's result) \<Rightarrow> 's \<Rightarrow> 's result" where
  "for_from i 0 body s = Inr s"
| "for_from i (Suc n) body s = rbind (body i s) (for_from (Suc i) n body)"

definition for_upto :: "nat \<Rightarrow> (nat \<Rightarrow> 's \<Rightarrow> 's result) \<Rightarrow> 's \<Rightarrow> 's result" where
  "for_upto n body s = for_from 0 n body s"

text \<open>A loop that updates one array cell per iteration updates the array pointwise.\<close>

lemma for_from_pointwise:
  assumes "\<And>j d. i \<le> j \<Longrightarrow> j < i + n \<Longrightarrow> length d = length xs \<Longrightarrow> (\<forall>k\<ge>j. k < length xs \<longrightarrow> d ! k = xs ! k) \<Longrightarrow>
             body j d = Inr (d[j := g j (xs ! j)])"
    and "i + n \<le> length xs"
  shows "for_from i n body xs =
           Inr (map (\<lambda>j. if i \<le> j \<and> j < i + n then g j (xs ! j) else xs ! j) [0..<length xs])"
  using assms
proof (induction n arbitrary: i xs)
  case 0
  show ?case by simp (rule nth_equalityI, auto)
next
  case (Suc n)
  let ?ys = "xs[i := g i (xs ! i)]"
  have b: "body i xs = Inr ?ys"
    using Suc.prems(1)[of i xs] Suc.prems(2) by simp
  have step: "body j d = Inr (d[j := g j (?ys ! j)])"
    if j: "Suc i \<le> j" "j < Suc i + n" "length d = length ?ys"
      and ag: "\<forall>k\<ge>j. k < length ?ys \<longrightarrow> d ! k = ?ys ! k" for j d
  proof -
    have "\<forall>k\<ge>j. k < length xs \<longrightarrow> d ! k = xs ! k"
      using ag j(1) by (auto simp: nth_list_update)
    then show ?thesis
      using Suc.prems(1)[of j d] j by simp
  qed
  have "for_from (Suc i) n body ?ys =
      Inr (map (\<lambda>j. if Suc i \<le> j \<and> j < Suc i + n then g j (?ys ! j) else ?ys ! j) [0..<length ?ys])"
    using Suc.IH[of "Suc i" ?ys] step Suc.prems(2) by simp
  also have "map (\<lambda>j. if Suc i \<le> j \<and> j < Suc i + n then g j (?ys ! j) else ?ys ! j) [0..<length ?ys]
      = map (\<lambda>j. if i \<le> j \<and> j < i + Suc n then g j (xs ! j) else xs ! j) [0..<length xs]"
    using Suc.prems(2) by (auto simp: nth_list_update)
  finally show ?case by (simp add: b)
qed

lemma for_upto_pointwise:
  assumes "\<And>j d. j < n \<Longrightarrow> length d = length xs \<Longrightarrow> d ! j = xs ! j \<Longrightarrow>
             body j d = Inr (d[j := g j (xs ! j)])"
    and "n \<le> length xs"
  shows "for_upto n body xs = Inr (map (\<lambda>j. if j < n then g j (xs ! j) else xs ! j) [0..<length xs])"
  unfolding for_upto_def
  using for_from_pointwise[of 0 n xs body g] assms by simp

text \<open>The first faulting iteration is the fault of the loop.\<close>

lemma for_from_fault:
  assumes "\<And>j d. i \<le> j \<Longrightarrow> j < m \<Longrightarrow> P d \<Longrightarrow> \<exists>d'. body j d = Inr d' \<and> P d'"
    and "\<And>d. P d \<Longrightarrow> body m d = Inl e"
    and "i \<le> m" "m < i + n" "P s"
  shows "for_from i n body s = Inl e"
  using assms
proof (induction n arbitrary: i s)
  case 0
  then show ?case by simp
next
  case (Suc n)
  show ?case
  proof (cases "i = m")
    case True
    then show ?thesis using Suc.prems by simp
  next
    case False
    then obtain s' where s': "body i s = Inr s'" "P s'"
      using Suc.prems(1)[of i s] Suc.prems(3,5) by auto
    have "for_from (Suc i) n body s' = Inl e"
      using Suc.IH[of "Suc i" s'] Suc.prems False s'(2) by auto
    then show ?thesis using s'(1) by simp
  qed
qed

lemma for_upto_0 [simp]: "for_upto 0 body s = Inr s"
  by (simp add: for_upto_def)

lemma for_upto_fault:
  assumes "\<And>j d. j < m \<Longrightarrow> P d \<Longrightarrow> \<exists>d'. body j d = Inr d' \<and> P d'"
    and "\<And>d. P d \<Longrightarrow> body m d = Inl e" and "m < n" "P s"
  shows "for_upto n body s = Inl e"
  unfolding for_upto_def using for_from_fault[of 0 m P body e n s] assms by simp

text \<open>A property that every iteration keeps is kept by the loop.\<close>

lemma ensures_for_upto:
  assumes "\<And>j s. P s \<Longrightarrow> ensures P (body j s)" "P s"
  shows "ensures P (for_upto n body s)"
proof -
  have "ensures P (for_from i n body s)" for i
    using assms(2) by (induction n arbitrary: i s) (auto intro: ensures_rbindI[OF assms(1)])
  then show ?thesis by (simp add: for_upto_def)
qed

section \<open>Masks\<close>

lemma byte_mask: "ucast (v AND 0xff) = (ucast (v :: u32) :: u8)"
proof -
  have "ucast (v AND mask 8) = (ucast v :: u8)" by (rule bit_word_eqI) (simp add: bit_simps)
  then show ?thesis by (simp add: mask_eq_exp_minus_1)
qed

lemma and_flag: "(w :: 'a :: len word) AND push_bit n 1 \<noteq> 0 \<longleftrightarrow> bit w n"
  by (metis and_exp_eq_0_iff_not_bit push_bit_of_1)

section \<open>Halves of a 64-bit word\<close>

definition lo32 :: "u64 \<Rightarrow> u32" where
  "lo32 x = ucast x"

definition hi32 :: "u64 \<Rightarrow> u32" where
  "hi32 x = ucast (drop_bit 32 x)"

definition join64 :: "u32 \<Rightarrow> u32 \<Rightarrow> u64" where
  "join64 hi lo = push_bit 32 (ucast hi) OR ucast lo"

lemma join64_halves [simp]: "join64 (hi32 x) (lo32 x) = x"
  by (rule bit_word_eqI) (auto simp: join64_def hi32_def lo32_def bit_simps)

lemma lo32_join64 [simp]: "lo32 (join64 h l) = l"
  by (rule bit_word_eqI) (auto simp: join64_def lo32_def bit_simps)

lemma hi32_join64 [simp]: "hi32 (join64 h l) = h"
  by (rule bit_word_eqI) (auto simp: join64_def hi32_def bit_simps dest: bit_imp_le_length)

lemma hi32_mono: "x \<le> y \<Longrightarrow> hi32 x \<le> hi32 y"
proof -
  assume "x \<le> y"
  then have "unat x div 2 ^ 32 \<le> unat y div 2 ^ 32" by (simp add: word_le_nat_alt div_le_mono)
  moreover have "unat (hi32 z) = unat z div 2 ^ 32" for z
  proof -
    have "unat (drop_bit 32 z) = unat z div 2 ^ 32" by (simp add: drop_bit_eq_div unat_div)
    moreover have "unat z < 2 ^ 64" using unsigned_less[of z, where ?'a = nat] by simp
    ultimately show ?thesis by (simp add: hi32_def unsigned_ucast_eq take_bit_nat_eq_self)
  qed
  ultimately show ?thesis by (simp add: word_le_nat_alt)
qed

end
