(* ===== verification/Vemu_Interfaces.thy ===== *)
theory Vemu_Interfaces
  imports Vemu_Prelude
begin

text \<open>
  The interfaces between the components, as locales. Each names the operations a client
  calls and the laws it relies on, and proves once what follows from them. The providers
  are interpreted in their own theories: the hash table of \<^verbatim>\<open>qdict.c\<close> is a
  \<open>dictionary\<close>; the list of \<^verbatim>\<open>qlist.c\<close> and the receive FIFO of \<^verbatim>\<open>hw/pl011.c\<close>
  are a \<open>fifo\<close>.
\<close>

section \<open>Dictionaries\<close>

locale dictionary =
  fixes empty :: 'd
    and put :: "'d \<Rightarrow> 'k \<Rightarrow> 'v \<Rightarrow> 'd"
    and del :: "'d \<Rightarrow> 'k \<Rightarrow> 'd"
    and get :: "'d \<Rightarrow> 'k \<Rightarrow> 'v option"
    and size_of :: "'d \<Rightarrow> nat"
    and entries :: "'d \<Rightarrow> ('k \<times> 'v) list"
    and invar :: "'d \<Rightarrow> bool"
  assumes invar_empty: "invar empty"
    and invar_put: "invar d \<Longrightarrow> invar (put d k v)"
    and invar_del: "invar d \<Longrightarrow> invar (del d k)"
    and get_empty: "get empty = Map.empty"
    and get_put: "invar d \<Longrightarrow> get (put d k v) = (get d)(k \<mapsto> v)"
    and get_del: "invar d \<Longrightarrow> get (del d k) = (get d)(k := None)"
    and entries_distinct: "invar d \<Longrightarrow> distinct (map fst (entries d))"
    and entries_get: "invar d \<Longrightarrow> map_of (entries d) = get d"
    and size_entries: "invar d \<Longrightarrow> size_of d = length (entries d)"
begin

lemma finite_dom_get: "invar d \<Longrightarrow> finite (dom (get d))"
  by (metis entries_get finite_dom_map_of)

lemma size_card: "invar d \<Longrightarrow> size_of d = card (dom (get d))"
  using entries_distinct[of d] entries_get[of d] size_entries[of d]
  by (metis distinct_card dom_map_of_conv_image_fst length_map list.set_map)

lemma size_put:
  assumes "invar d"
  shows "size_of (put d k v) = (if get d k = None then Suc (size_of d) else size_of d)"
proof -
  have "size_of (put d k v) = card (insert k (dom (get d)))"
    using assms by (simp add: size_card invar_put get_put)
  moreover have "k \<in> dom (get d) \<longleftrightarrow> get d k \<noteq> None" by auto
  ultimately show ?thesis
    using assms by (simp add: size_card finite_dom_get card_insert_if)
qed

lemma size_del:
  assumes "invar d"
  shows "size_of (del d k) = (if get d k = None then size_of d else size_of d - 1)"
  using assms
  by (auto simp: size_card invar_del get_del finite_dom_get card_Diff_singleton domIff)

text \<open>Building a dictionary by inserting a list of pairs: later pairs win.\<close>

definition put_all :: "'d \<Rightarrow> ('k \<times> 'v) list \<Rightarrow> 'd" where
  "put_all d ps = foldl (\<lambda>d p. put d (fst p) (snd p)) d ps"

lemma invar_put_all: "invar d \<Longrightarrow> invar (put_all d ps)"
  by (induction ps arbitrary: d) (simp_all add: put_all_def invar_put)

lemma get_put_all: "invar d \<Longrightarrow> get (put_all d ps) = get d ++ map_of (rev ps)"
  by (induction ps arbitrary: d) (auto simp: put_all_def invar_put get_put)

end

section \<open>First-in first-out queues\<close>

text \<open>
  \<open>full\<close> says when an element can not be added any more; an unbounded queue is never full.
\<close>

locale fifo =
  fixes contents :: "'q \<Rightarrow> 'a list"
    and enq :: "'q \<Rightarrow> 'a \<Rightarrow> 'q"
    and deq :: "'q \<Rightarrow> 'q"
    and front :: "'q \<Rightarrow> 'a"
    and full :: "'q \<Rightarrow> bool"
    and invar :: "'q \<Rightarrow> bool"
  assumes contents_enq: "invar q \<Longrightarrow> \<not> full q \<Longrightarrow> contents (enq q x) = contents q @ [x]"
    and contents_deq: "invar q \<Longrightarrow> contents q \<noteq> [] \<Longrightarrow> contents (deq q) = tl (contents q)"
    and front_hd: "invar q \<Longrightarrow> contents q \<noteq> [] \<Longrightarrow> front q = hd (contents q)"
    and invar_enq: "invar q \<Longrightarrow> \<not> full q \<Longrightarrow> invar (enq q x)"
    and invar_deq: "invar q \<Longrightarrow> contents q \<noteq> [] \<Longrightarrow> invar (deq q)"
begin

text \<open>Elements leave in the order in which they entered.\<close>

primrec drain :: "nat \<Rightarrow> 'q \<Rightarrow> 'a list \<times> 'q" where
  "drain 0 q = ([], q)"
| "drain (Suc n) q = (let (xs, q') = drain n (deq q) in (front q # xs, q'))"

lemma drain_contents:
  assumes "invar q" "n \<le> length (contents q)"
  shows "fst (drain n q) = take n (contents q) \<and>
         contents (snd (drain n q)) = drop n (contents q) \<and> invar (snd (drain n q))"
  using assms
proof (induction n arbitrary: q)
  case 0
  then show ?case by simp
next
  case (Suc n)
  then have ne: "contents q \<noteq> []" by auto
  then obtain x xs where c: "contents q = x # xs" by (cases "contents q") auto
  have d: "contents (deq q) = xs" "invar (deq q)" "front q = x"
    using Suc.prems(1) ne c by (simp_all add: contents_deq invar_deq front_hd)
  have "n \<le> length (contents (deq q))" using Suc.prems(2) c d by simp
  from Suc.IH[OF d(2) this] show ?case
    by (simp add: split_beta c d)
qed

lemma enq_then_drain:
  assumes "invar q" "\<not> full q"
  shows "fst (drain (Suc (length (contents q))) (enq q x)) = contents q @ [x]"
  using drain_contents[of "enq q x" "Suc (length (contents q))"] assms
  by (simp add: contents_enq invar_enq del: drain.simps)

end

end
