(* ===== verification/QObjects.thy ===== *)
theory QObjects
  imports Vemu_Interfaces
begin

text \<open>
  The dynamically typed objects of QEMU (\<^verbatim>\<open>qobject.h\<close>, \<^verbatim>\<open>qint.c\<close>,
  \<^verbatim>\<open>qstring.c\<close>, \<^verbatim>\<open>qlist.c\<close>, \<^verbatim>\<open>qdict.c\<close>), which carry the variability
  configuration. An object is a value: reference counts and deallocation are not
  modelled. A dictionary is the chained hash table of \<^verbatim>\<open>qdict.c\<close> with its
  512 buckets, its hash function and its size counter. A pointer to a dictionary or
  list entry is the chain that starts at that entry (what \<^verbatim>\<open>next\<close> leads to);
  the null pointer is the empty chain.
\<close>

section \<open>Dictionaries: the hash table\<close>

type_synonym 'v chain = "(string \<times> 'v) list"

datatype 'v qdict = Qdict (dsize: nat) (dtable: "'v chain list")

definition QDICT_BUCKET_MAX :: nat where
  "QDICT_BUCKET_MAX = 512"

definition qdict_new :: "'v qdict" where
  "qdict_new = Qdict 0 (replicate QDICT_BUCKET_MAX [])"

text \<open>The loop of \<^verbatim>\<open>tdb_hash\<close> over the characters, then the final mixing.\<close>

fun tdb_hash_loop :: "u32 \<Rightarrow> nat \<Rightarrow> string \<Rightarrow> u32" where
  "tdb_hash_loop value i [] = value"
| "tdb_hash_loop value i (c # cs) =
     tdb_hash_loop (value + push_bit (i * 5 mod 24) (of_nat (of_char c))) (Suc i) cs"

definition tdb_hash :: "string \<Rightarrow> u32" where
  "tdb_hash name = 1103515243 * tdb_hash_loop (0x238F13AF * of_nat (length name)) 0 name + 12345"

definition bucket_of :: "string \<Rightarrow> nat" where
  "bucket_of key = unat (tdb_hash key) mod QDICT_BUCKET_MAX"

primrec chain_find :: "string \<Rightarrow> 'v chain \<Rightarrow> 'v chain" where
  "chain_find key [] = []"
| "chain_find key (e # es) = (if fst e = key then e # es else chain_find key es)"

definition qdict_find :: "'v qdict \<Rightarrow> string \<Rightarrow> nat \<Rightarrow> 'v chain" where
  "qdict_find d key bucket = chain_find key (dtable d ! bucket)"

text \<open>Storing a value in the entry that was found, and unlinking that entry.\<close>

primrec chain_set :: "string \<Rightarrow> 'v \<Rightarrow> 'v chain \<Rightarrow> 'v chain" where
  "chain_set key v [] = []"
| "chain_set key v (e # es) = (if fst e = key then (fst e, v) # es else e # chain_set key v es)"

primrec chain_remove :: "string \<Rightarrow> 'v chain \<Rightarrow> 'v chain" where
  "chain_remove key [] = []"
| "chain_remove key (e # es) = (if fst e = key then es else e # chain_remove key es)"

definition qdict_put_obj :: "'v qdict \<Rightarrow> string \<Rightarrow> 'v \<Rightarrow> 'v qdict" where
  "qdict_put_obj d key v =
     (let bucket = bucket_of key;
          chain = dtable d ! bucket
      in case qdict_find d key bucket of
           _ # _ \<Rightarrow> Qdict (dsize d) ((dtable d)[bucket := chain_set key v chain])
         | [] \<Rightarrow> Qdict (Suc (dsize d)) ((dtable d)[bucket := (key, v) # chain]))"

definition qdict_get :: "'v qdict \<Rightarrow> string \<Rightarrow> 'v option" where
  "qdict_get d key =
     (case qdict_find d key (bucket_of key) of [] \<Rightarrow> None | e # _ \<Rightarrow> Some (snd e))"

definition qdict_haskey :: "'v qdict \<Rightarrow> string \<Rightarrow> bool" where
  "qdict_haskey d key \<longleftrightarrow> qdict_find d key (bucket_of key) \<noteq> []"

definition qdict_size :: "'v qdict \<Rightarrow> nat" where
  "qdict_size d = dsize d"

definition qdict_del :: "'v qdict \<Rightarrow> string \<Rightarrow> 'v qdict" where
  "qdict_del d key =
     (let bucket = bucket_of key
      in case qdict_find d key bucket of
           [] \<Rightarrow> d
         | _ # _ \<Rightarrow> Qdict (dsize d - 1)
                        ((dtable d)[bucket := chain_remove key (dtable d ! bucket)]))"

text \<open>\<^verbatim>\<open>qdict_next_entry\<close>: the first chain that is not empty, from a bucket on.\<close>

primrec first_chain :: "'v chain list \<Rightarrow> 'v chain" where
  "first_chain [] = []"
| "first_chain (c # cs) = (if c \<noteq> [] then c else first_chain cs)"

definition qdict_next_entry :: "'v qdict \<Rightarrow> nat \<Rightarrow> 'v chain" where
  "qdict_next_entry d first_bucket = first_chain (drop first_bucket (dtable d))"

definition qdict_first :: "'v qdict \<Rightarrow> 'v chain" where
  "qdict_first d = qdict_next_entry d 0"

text \<open>\<open>qdict_next\<close> is only called with an entry, never with the null pointer.\<close>

fun qdict_next :: "'v qdict \<Rightarrow> 'v chain \<Rightarrow> 'v chain" where
  "qdict_next d [] = []"
| "qdict_next d (e # ret) =
     (if ret = [] then qdict_next_entry d (bucket_of (fst e) + 1) else ret)"

text \<open>
  The iteration idiom \<^verbatim>\<open>for (e = qdict_first(d); e; e = qdict_next(d, e))\<close>:
  the entries it visits. Nothing bounds the loop on an ill-formed table.
\<close>

partial_function (option) qdict_walk :: "'v qdict \<Rightarrow> 'v chain \<Rightarrow> 'v chain option" where
  "qdict_walk d e =
     (case e of
        [] \<Rightarrow> Some []
      | x # _ \<Rightarrow> Option.bind (qdict_walk d (qdict_next d e)) (\<lambda>xs. Some (x # xs)))"

definition qdict_entries :: "'v qdict \<Rightarrow> 'v chain result" where
  "qdict_entries d =
     (case qdict_walk d (qdict_first d) of None \<Rightarrow> Inl Diverges | Some es \<Rightarrow> Inr es)"

text \<open>\<^verbatim>\<open>qdict_iter\<close> calls the iterator on every bucket's chain in turn.\<close>

definition qdict_iter :: "'v qdict \<Rightarrow> (string \<Rightarrow> 'v \<Rightarrow> 's \<Rightarrow> 's) \<Rightarrow> 's \<Rightarrow> 's" where
  "qdict_iter d iter opaque =
     foldl (\<lambda>s chain. foldl (\<lambda>s e. iter (fst e) (snd e) s) s chain) opaque (dtable d)"

section \<open>Objects\<close>

datatype qtype_code =
    QTYPE_NONE | QTYPE_QINT | QTYPE_QSTRING | QTYPE_QDICT | QTYPE_QLIST | QTYPE_QFLOAT
  | QTYPE_QBOOL | QTYPE_QERROR

text \<open>A double is kept as its 64-bit pattern.\<close>

datatype qobject =
    QInt i64
  | QString string
  | QDict "qobject qdict"
  | QList "qobject list"
  | QFloat u64
  | QBool i32

definition qobject_type :: "qobject \<Rightarrow> qtype_code" where
  "qobject_type obj =
     (case obj of
        QInt _ \<Rightarrow> QTYPE_QINT
      | QString _ \<Rightarrow> QTYPE_QSTRING
      | QDict _ \<Rightarrow> QTYPE_QDICT
      | QList _ \<Rightarrow> QTYPE_QLIST
      | QFloat _ \<Rightarrow> QTYPE_QFLOAT
      | QBool _ \<Rightarrow> QTYPE_QBOOL)"

text \<open>The downcasts answer the null pointer for an object of another type.\<close>

definition qobject_to_qint :: "qobject \<Rightarrow> i64 option" where
  "qobject_to_qint obj = (case obj of QInt v \<Rightarrow> Some v | _ \<Rightarrow> None)"

definition qobject_to_qbool :: "qobject \<Rightarrow> i32 option" where
  "qobject_to_qbool obj = (case obj of QBool v \<Rightarrow> Some v | _ \<Rightarrow> None)"

definition qobject_to_qstring :: "qobject \<Rightarrow> string option" where
  "qobject_to_qstring obj = (case obj of QString s \<Rightarrow> Some s | _ \<Rightarrow> None)"

definition qobject_to_qlist :: "qobject \<Rightarrow> qobject list option" where
  "qobject_to_qlist obj = (case obj of QList xs \<Rightarrow> Some xs | _ \<Rightarrow> None)"

definition qobject_to_qdict :: "qobject \<Rightarrow> qobject qdict option" where
  "qobject_to_qdict obj = (case obj of QDict d \<Rightarrow> Some d | _ \<Rightarrow> None)"

section \<open>Typed access to dictionaries\<close>

definition qdict_get_obj :: "qobject qdict \<Rightarrow> string \<Rightarrow> qtype_code \<Rightarrow> qobject result" where
  "qdict_get_obj d key type =
     (case qdict_get d key of
        None \<Rightarrow> Inl Assert_Failed
      | Some obj \<Rightarrow> c_assert (qobject_type obj = type) (Inr obj))"

definition qdict_get_int :: "qobject qdict \<Rightarrow> string \<Rightarrow> i64 result" where
  "qdict_get_int d key =
     rbind (qdict_get_obj d key QTYPE_QINT) (\<lambda>obj. deref (qobject_to_qint obj))"

definition qdict_get_bool :: "qobject qdict \<Rightarrow> string \<Rightarrow> i32 result" where
  "qdict_get_bool d key =
     rbind (qdict_get_obj d key QTYPE_QBOOL) (\<lambda>obj. deref (qobject_to_qbool obj))"

definition qdict_get_qlist :: "qobject qdict \<Rightarrow> string \<Rightarrow> qobject list option result" where
  "qdict_get_qlist d key =
     rbind (qdict_get_obj d key QTYPE_QLIST) (\<lambda>obj. Inr (qobject_to_qlist obj))"

definition qdict_get_qdict :: "qobject qdict \<Rightarrow> string \<Rightarrow> qobject qdict option result" where
  "qdict_get_qdict d key =
     rbind (qdict_get_obj d key QTYPE_QDICT) (\<lambda>obj. Inr (qobject_to_qdict obj))"

definition qdict_get_str :: "qobject qdict \<Rightarrow> string \<Rightarrow> string result" where
  "qdict_get_str d key =
     rbind (qdict_get_obj d key QTYPE_QSTRING) (\<lambda>obj. deref (qobject_to_qstring obj))"

definition qdict_get_try_int :: "qobject qdict \<Rightarrow> string \<Rightarrow> i64 \<Rightarrow> i64 result" where
  "qdict_get_try_int d key def_value =
     (case qdict_get d key of
        None \<Rightarrow> Inr def_value
      | Some obj \<Rightarrow> if qobject_type obj \<noteq> QTYPE_QINT then Inr def_value
                     else deref (qobject_to_qint obj))"

definition qdict_get_try_bool :: "qobject qdict \<Rightarrow> string \<Rightarrow> i32 \<Rightarrow> i32 result" where
  "qdict_get_try_bool d key def_value =
     (case qdict_get d key of
        None \<Rightarrow> Inr def_value
      | Some obj \<Rightarrow> if qobject_type obj \<noteq> QTYPE_QBOOL then Inr def_value
                     else deref (qobject_to_qbool obj))"

definition qdict_get_try_str :: "qobject qdict \<Rightarrow> string \<Rightarrow> string option result" where
  "qdict_get_try_str d key =
     (case qdict_get d key of
        None \<Rightarrow> Inr None
      | Some obj \<Rightarrow> if qobject_type obj \<noteq> QTYPE_QSTRING then Inr None
                     else rbind (deref (qobject_to_qstring obj)) (\<lambda>s. Inr (Some s)))"

section \<open>Lists\<close>

definition qlist_new :: "'a list" where
  "qlist_new = []"

definition qlist_append_obj :: "'a list \<Rightarrow> 'a \<Rightarrow> 'a list" where
  "qlist_append_obj qlist value = qlist @ [value]"

definition qlist_iter :: "'a list \<Rightarrow> ('a \<Rightarrow> 's \<Rightarrow> 's) \<Rightarrow> 's \<Rightarrow> 's" where
  "qlist_iter qlist iter opaque = foldl (\<lambda>s obj. iter obj s) opaque qlist"

definition qlist_copy_elem :: "'a \<Rightarrow> 'a list \<Rightarrow> 'a list" where
  "qlist_copy_elem obj dst = qlist_append_obj dst obj"

definition qlist_copy :: "'a list \<Rightarrow> 'a list" where
  "qlist_copy src = qlist_iter src qlist_copy_elem qlist_new"

text \<open>Popping answers the object and the remaining list; the argument may be null.\<close>

definition qlist_pop :: "'a list option \<Rightarrow> 'a option \<times> 'a list option" where
  "qlist_pop qlist =
     (case qlist of
        None \<Rightarrow> (None, None)
      | Some [] \<Rightarrow> (None, Some [])
      | Some (x # xs) \<Rightarrow> (Some x, Some xs))"

definition qlist_peek :: "'a list option \<Rightarrow> 'a option" where
  "qlist_peek qlist =
     (case qlist of None \<Rightarrow> None | Some [] \<Rightarrow> None | Some (x # _) \<Rightarrow> Some x)"

definition qlist_empty :: "'a list \<Rightarrow> bool" where
  "qlist_empty qlist \<longleftrightarrow> qlist = []"

definition qlist_first :: "'a list \<Rightarrow> 'a list" where
  "qlist_first qlist = qlist"

definition qlist_next :: "'a list \<Rightarrow> 'a list result" where
  "qlist_next entry = (case entry of [] \<Rightarrow> Inl Null_Deref | _ # es \<Rightarrow> Inr es)"

section \<open>The hash table is a dictionary\<close>

text \<open>
  Well-formed tables: 512 chains, every key in the chain of its own bucket, no key
  twice in a chain, and a size that counts the entries.
\<close>

definition wf_qdict :: "'v qdict \<Rightarrow> bool" where
  "wf_qdict d \<longleftrightarrow>
     length (dtable d) = QDICT_BUCKET_MAX \<and>
     (\<forall>b < QDICT_BUCKET_MAX. \<forall>e \<in> set (dtable d ! b). bucket_of (fst e) = b) \<and>
     (\<forall>b < QDICT_BUCKET_MAX. distinct (map fst (dtable d ! b))) \<and>
     dsize d = length (concat (dtable d))"

definition entries_list :: "'v qdict \<Rightarrow> (string \<times> 'v) list" where
  "entries_list d = concat (dtable d)"

text \<open>The entries of a table whose values are mapped.\<close>

lemma dtable_map: "dtable (map_qdict f d) = map (map (map_prod id f)) (dtable d)"
  by (cases d) simp

lemma entries_map: "entries_list (map_qdict f d) = map (map_prod id f) (entries_list d)"
  by (simp add: entries_list_def dtable_map map_concat)

lemma set_qdict_entries: "set_qdict d = snd ` set (entries_list d)"
  by (cases d) (force simp: entries_list_def snds.simps image_iff)

lemma bucket_of_less [simp]: "bucket_of key < QDICT_BUCKET_MAX"
  by (simp add: bucket_of_def QDICT_BUCKET_MAX_def)

lemma chain_find_eq_Nil_iff: "chain_find key c = [] \<longleftrightarrow> key \<notin> fst ` set c"
  by (induction c) auto

lemma chain_find_map_of:
  "(case chain_find key c of [] \<Rightarrow> None | e # _ \<Rightarrow> Some (snd e)) = map_of c key"
  by (induction c) auto

lemma chain_set_map_of:
  "key \<in> fst ` set c \<Longrightarrow> map_of (chain_set key v c) = (map_of c)(key \<mapsto> v)"
proof (induction c)
  case (Cons e es)
  show ?case
  proof (cases "fst e = key")
    case False
    then have "key \<in> fst ` set es" using Cons.prems by auto
    then have "map_of (chain_set key v es) = (map_of es)(key \<mapsto> v)" by (rule Cons.IH)
    with False show ?thesis by (auto simp: fun_eq_iff)
  qed (auto simp: fun_eq_iff)
qed simp

lemma chain_set_keys [simp]: "map fst (chain_set key v c) = map fst c"
  by (induction c) auto

lemma chain_set_length [simp]: "length (chain_set key v c) = length c"
  by (metis chain_set_keys length_map)

lemma chain_set_fst_set [simp]: "fst ` set (chain_set key v c) = fst ` set c"
  by (metis chain_set_keys list.set_map)

lemma chain_remove_map_of:
  "distinct (map fst c) \<Longrightarrow> map_of (chain_remove key c) = (map_of c)(key := None)"
  by (induction c) (auto simp: fun_eq_iff map_of_eq_None_iff)

lemma chain_remove_subset: "set (chain_remove key c) \<subseteq> set c"
  by (induction c) auto

lemma chain_remove_distinct: "distinct (map fst c) \<Longrightarrow> distinct (map fst (chain_remove key c))"
  by (induction c) (use chain_remove_subset in force)+

lemma chain_remove_length:
  "key \<in> fst ` set c \<Longrightarrow> Suc (length (chain_remove key c)) = length c"
  by (induction c) (simp_all, blast)

lemma qdict_get_map_of: "qdict_get d key = map_of (dtable d ! bucket_of key) key"
  by (simp add: qdict_get_def qdict_find_def chain_find_map_of)

lemma qdict_haskey_iff: "qdict_haskey d key \<longleftrightarrow> qdict_get d key \<noteq> None"
  by (auto simp: qdict_haskey_def qdict_get_def split: list.split)

text \<open>The parts of the invariant.\<close>

lemma wf_qdict_length [simp]: "wf_qdict d \<Longrightarrow> length (dtable d) = QDICT_BUCKET_MAX"
  by (simp add: wf_qdict_def)

lemma wf_qdict_bucket:
  "wf_qdict d \<Longrightarrow> b < QDICT_BUCKET_MAX \<Longrightarrow> e \<in> set (dtable d ! b) \<Longrightarrow> bucket_of (fst e) = b"
  by (simp add: wf_qdict_def)

lemma wf_qdict_distinct: "wf_qdict d \<Longrightarrow> b < QDICT_BUCKET_MAX \<Longrightarrow> distinct (map fst (dtable d ! b))"
  by (simp add: wf_qdict_def)

lemma wf_qdict_size: "wf_qdict d \<Longrightarrow> dsize d = length (concat (dtable d))"
  by (simp add: wf_qdict_def)

lemma wf_qdict_chain_le: 
  assumes "wf_qdict d" "b < QDICT_BUCKET_MAX"
  shows "length (dtable d ! b) \<le> dsize d"
  using assms elem_le_sum_list[of b "map length (dtable d)"]
  by (simp add: wf_qdict_size length_concat)

text \<open>Replacing one chain of the table.\<close>

lemma wf_qdict_update:
  assumes "wf_qdict d" "b < QDICT_BUCKET_MAX"
    and "\<And>e. e \<in> set c \<Longrightarrow> bucket_of (fst e) = b" "distinct (map fst c)"
    and "n + length (dtable d ! b) = dsize d + length c"
  shows "wf_qdict (Qdict n ((dtable d)[b := c]))"
proof -
  have "sum_list (map length ((dtable d)[b := c])) + length (dtable d ! b)
        = sum_list (map length (dtable d)) + length c"
    using assms(1,2) elem_le_sum_list[of b "map length (dtable d)"]
    by (simp add: map_update sum_list_update)
  then have "n = length (concat ((dtable d)[b := c]))"
    using assms(1,5) by (simp add: wf_qdict_size length_concat)
  then show ?thesis
    using assms(1-4) wf_qdict_bucket[OF assms(1)] wf_qdict_distinct[OF assms(1)]
    unfolding wf_qdict_def[of "Qdict _ _"] by (simp add: nth_list_update)
qed

lemma wf_qdict_new: "wf_qdict qdict_new"
  by (simp add: wf_qdict_def qdict_new_def)

lemma wf_qdict_put:
  assumes "wf_qdict d"
  shows "wf_qdict (qdict_put_obj d key v)"
proof (cases "qdict_find d key (bucket_of key)")
  case Nil
  then have "key \<notin> fst ` set (dtable d ! bucket_of key)"
    by (simp add: qdict_find_def chain_find_eq_Nil_iff)
  then have "wf_qdict (Qdict (Suc (dsize d))
      ((dtable d)[bucket_of key := (key, v) # dtable d ! bucket_of key]))"
    using assms wf_qdict_bucket[OF assms] wf_qdict_distinct[OF assms]
    by (intro wf_qdict_update) auto
  with Nil show ?thesis by (simp add: qdict_put_obj_def Let_def)
next
  case (Cons e es)
  let ?c = "chain_set key v (dtable d ! bucket_of key)"
  have "bucket_of (fst x) = bucket_of key" if "x \<in> set ?c" for x
  proof -
    have "fst x \<in> fst ` set (dtable d ! bucket_of key)"
      using imageI[OF that, of fst] by simp
    then obtain y where "y \<in> set (dtable d ! bucket_of key)" "fst x = fst y" by (rule imageE)
    then show ?thesis using wf_qdict_bucket[OF assms bucket_of_less[of key]] by simp
  qed
  then have "wf_qdict (Qdict (dsize d) ((dtable d)[bucket_of key := ?c]))"
    using wf_qdict_distinct[OF assms bucket_of_less[of key]]
    by (intro wf_qdict_update[OF assms]) simp_all
  with Cons show ?thesis by (simp add: qdict_put_obj_def Let_def)
qed

lemma wf_qdict_del:
  assumes "wf_qdict d"
  shows "wf_qdict (qdict_del d key)"
proof (cases "qdict_find d key (bucket_of key)")
  case Nil
  with assms show ?thesis by (simp add: qdict_del_def)
next
  case (Cons e es)
  let ?c = "dtable d ! bucket_of key"
  have k: "key \<in> fst ` set ?c"
    using Cons chain_find_eq_Nil_iff[of key ?c] by (simp add: qdict_find_def)
  have "dsize d - 1 + length ?c = dsize d + length (chain_remove key ?c)"
    using wf_qdict_chain_le[OF assms, of "bucket_of key"] chain_remove_length[OF k] by simp
  then have "wf_qdict (Qdict (dsize d - 1) ((dtable d)[bucket_of key := chain_remove key ?c]))"
    using assms chain_remove_subset[of key ?c] wf_qdict_bucket[OF assms] wf_qdict_distinct[OF assms]
    by (intro wf_qdict_update) (auto intro: chain_remove_distinct)
  with Cons show ?thesis by (simp add: qdict_del_def Let_def)
qed

lemma qdict_size_new: "qdict_size qdict_new = 0"
  by (simp add: qdict_size_def qdict_new_def)

lemma map_of_table_update:
  "wf_qdict d \<Longrightarrow> b < QDICT_BUCKET_MAX \<Longrightarrow>
   map_of ((dtable d)[b := c] ! bucket_of x) x =
     (if bucket_of x = b then map_of c x else map_of (dtable d ! bucket_of x) x)"
  by (simp add: nth_list_update)

lemma qdict_get_new: "qdict_get qdict_new = Map.empty"
  by (simp add: fun_eq_iff qdict_get_map_of qdict_new_def)

lemma qdict_get_put:
  assumes "wf_qdict d"
  shows "qdict_get (qdict_put_obj d key v) = (qdict_get d)(key \<mapsto> v)"
proof (cases "qdict_find d key (bucket_of key)")
  case Nil
  then show ?thesis
    using assms
    by (auto simp: fun_eq_iff qdict_get_map_of qdict_put_obj_def Let_def map_of_table_update)
next
  case (Cons e es)
  then have "key \<in> fst ` set (dtable d ! bucket_of key)"
    using chain_find_eq_Nil_iff[of key "dtable d ! bucket_of key"] by (simp add: qdict_find_def)
  from fun_cong[OF chain_set_map_of[OF this, of v]] Cons show ?thesis
    using assms
    by (auto simp: fun_eq_iff qdict_get_map_of qdict_put_obj_def Let_def map_of_table_update)
qed

lemma qdict_get_del:
  assumes "wf_qdict d"
  shows "qdict_get (qdict_del d key) = (qdict_get d)(key := None)"
proof (cases "qdict_find d key (bucket_of key)")
  case Nil
  then have "qdict_get d key = None" by (simp add: qdict_get_def)
  with Nil show ?thesis by (simp add: fun_eq_iff qdict_del_def)
next
  case (Cons e es)
  with assms show ?thesis
    using fun_cong[OF chain_remove_map_of[OF wf_qdict_distinct[OF assms bucket_of_less], of key key]]
    by (auto simp: fun_eq_iff qdict_get_map_of qdict_del_def Let_def map_of_table_update)
qed

text \<open>Keys of different buckets are different, so the whole table has distinct keys.\<close>

lemma distinct_concat_buckets:
  assumes "\<And>b. b < length cs \<Longrightarrow> distinct (map fst (cs ! b))"
    and "\<And>b e. b < length cs \<Longrightarrow> e \<in> set (cs ! b) \<Longrightarrow> f (fst e) = n + b"
  shows "distinct (map fst (concat cs))"
  using assms
proof (induction cs arbitrary: n)
  case Nil
  then show ?case by simp
next
  case (Cons c cs)
  have IH: "distinct (map fst (concat cs))"
  proof (rule Cons.IH[of "Suc n"])
    show "distinct (map fst (cs ! b))" if "b < length cs" for b
      using Cons.prems(1)[of "Suc b"] that by simp
    show "f (fst e) = Suc n + b" if "b < length cs" "e \<in> set (cs ! b)" for b e
      using Cons.prems(2)[of "Suc b" e] that by simp
  qed
  have A: "f (fst e) = n" if "e \<in> set c" for e
    using Cons.prems(2)[of 0 e] that by simp
  have B: "f (fst e) \<noteq> n" if e: "e \<in> set (concat cs)" for e
  proof -
    obtain c' where "c' \<in> set cs" "e \<in> set c'" using e by auto
    then obtain b where "b < length cs" "e \<in> set (cs ! b)" by (metis in_set_conv_nth)
    then show ?thesis using Cons.prems(2)[of "Suc b" e] by simp
  qed
  have "False" if "x \<in> set c" "y \<in> set (concat cs)" "fst x = fst y" for x y
    using A[OF that(1)] B[OF that(2)] that(3) by simp
  then have "fst ` set c \<inter> fst ` set (concat cs) = {}" by blast
  then show ?case using Cons.prems(1)[of 0] IH by simp
qed

lemma entries_list_distinct:
  assumes "wf_qdict d"
  shows "distinct (map fst (entries_list d))"
  unfolding entries_list_def
  using wf_qdict_distinct[OF assms] wf_qdict_bucket[OF assms] assms
  by (intro distinct_concat_buckets[where f = bucket_of and n = 0]) auto

lemma entries_list_get:
  assumes "wf_qdict d"
  shows "map_of (entries_list d) = qdict_get d"
proof
  fix key
  have "map_of (entries_list d) key = Some v \<longleftrightarrow> qdict_get d key = Some v" for v
  proof -
    have "map_of (entries_list d) key = Some v \<longleftrightarrow> (key, v) \<in> set (entries_list d)"
      using entries_list_distinct[OF assms] by simp
    also have "\<dots> \<longleftrightarrow> (\<exists>b < QDICT_BUCKET_MAX. (key, v) \<in> set (dtable d ! b))"
      by (simp add: entries_list_def) (metis assms in_set_conv_nth wf_qdict_length)
    also have "\<dots> \<longleftrightarrow> (key, v) \<in> set (dtable d ! bucket_of key)"
      using wf_qdict_bucket[OF assms, of _ "(key, v)"] by (metis bucket_of_less fst_conv)
    also have "\<dots> \<longleftrightarrow> qdict_get d key = Some v"
      using wf_qdict_distinct[OF assms] by (simp add: qdict_get_map_of)
    finally show ?thesis .
  qed
  then show "map_of (entries_list d) key = qdict_get d key"
    by (rule option_eqI)
qed

interpretation qd: dictionary qdict_new qdict_put_obj qdict_del qdict_get qdict_size entries_list wf_qdict
proof unfold_locales
  show "qdict_size d = length (entries_list d)" if "wf_qdict d" for d :: "'a qdict"
    using that by (simp add: qdict_size_def entries_list_def wf_qdict_size)
qed (fact wf_qdict_new wf_qdict_put wf_qdict_del qdict_get_new qdict_get_put qdict_get_del
      entries_list_distinct entries_list_get)+

section \<open>Iteration visits every entry once\<close>

lemma qdict_walk_Nil [simp]: "qdict_walk d [] = Some []"
  by (simp add: qdict_walk.simps)

lemma qdict_walk_Cons:
  "qdict_walk d (x # xs) = map_option ((#) x) (qdict_walk d (qdict_next d (x # xs)))"
  by (subst qdict_walk.simps) (simp add: map_option_case Option.bind_def split: option.split)

lemma qdict_walk_chain:
  assumes "wf_qdict d" "b < QDICT_BUCKET_MAX"
    and "c \<noteq> []" "set c \<subseteq> set (dtable d ! b)"
    and "qdict_walk d (qdict_next_entry d (Suc b)) = Some rest"
  shows "qdict_walk d c = Some (c @ rest)"
  using assms(3,4)
proof (induction c)
  case Nil
  then show ?case by simp
next
  case (Cons e es)
  show ?case
  proof (cases es)
    case Nil
    have "bucket_of (fst e) = b"
      using wf_qdict_bucket[OF assms(1,2)] Cons.prems(2) by simp
    then show ?thesis using Nil assms(5) by (simp add: qdict_walk_Cons)
  next
    case (Cons f fs)
    then show ?thesis using Cons.IH Cons.prems(2) by (simp add: qdict_walk_Cons)
  qed
qed

lemma qdict_walk_from:
  assumes "wf_qdict d" "b \<le> QDICT_BUCKET_MAX"
  shows "qdict_walk d (qdict_next_entry d b) = Some (concat (drop b (dtable d)))"
  using assms(2)
proof (induction b rule: inc_induct)
  case base
  then show ?case using assms(1) by (simp add: qdict_next_entry_def)
next
  case (step b)
  have d: "drop b (dtable d) = dtable d ! b # drop (Suc b) (dtable d)"
    using assms(1) step.hyps by (simp add: Cons_nth_drop_Suc)
  show ?case
  proof (cases "dtable d ! b = []")
    case True
    then show ?thesis using step.IH by (simp add: qdict_next_entry_def d)
  next
    case False
    from qdict_walk_chain[OF assms(1) _ False order_refl step.IH] step.hyps False
    show ?thesis by (simp add: qdict_next_entry_def d)
  qed
qed

lemma qdict_entries_eq: "wf_qdict d \<Longrightarrow> qdict_entries d = Inr (entries_list d)"
  using qdict_walk_from[of d 0] by (simp add: qdict_entries_def qdict_first_def entries_list_def)

lemma qdict_iter_entries:
  "qdict_iter d iter s = foldl (\<lambda>s e. iter (fst e) (snd e) s) s (entries_list d)"
proof -
  have "foldl (\<lambda>s chain. foldl (\<lambda>s e. iter (fst e) (snd e) s) s chain) s cs
      = foldl (\<lambda>s e. iter (fst e) (snd e) s) s (concat cs)" for cs
    by (induction cs arbitrary: s) simp_all
  then show ?thesis by (simp add: qdict_iter_def entries_list_def)
qed

section \<open>The list is a queue\<close>

lemma qlist_copy_id: "qlist_copy xs = xs"
proof -
  have "foldl (\<lambda>s obj. qlist_copy_elem obj s) ys xs = ys @ xs" for ys
    by (induction xs arbitrary: ys) (simp_all add: qlist_copy_elem_def qlist_append_obj_def)
  then show ?thesis by (simp add: qlist_copy_def qlist_iter_def qlist_new_def)
qed

interpretation ql: fifo id qlist_append_obj "\<lambda>q. the (snd (qlist_pop (Some q)))"
  "\<lambda>q. the (qlist_peek (Some q))" "\<lambda>_. False" "\<lambda>_. True"
  by unfold_locales
    (auto simp: qlist_append_obj_def qlist_pop_def qlist_peek_def neq_Nil_conv)

section \<open>Properties\<close>

text \<open>
  C29: inserting into a well-formed dictionary keeps it well-formed (every key in its
  bucket, no duplicates, size equal to the number of entries), maps exactly the
  inserted key to the new value, and grows the size by one exactly when the key was new.
\<close>

theorem qdict_put_correct:
  assumes "wf_qdict d"
  shows "wf_qdict (qdict_put_obj d key v) \<and>
         qdict_get (qdict_put_obj d key v) = (qdict_get d)(key \<mapsto> v) \<and>
         qdict_size (qdict_put_obj d key v) =
           (if qdict_haskey d key then qdict_size d else Suc (qdict_size d))"
  using assms by (simp add: wf_qdict_put qdict_get_put qd.size_put qdict_haskey_iff)

theorem qdict_put_correct_witness:
  "qdict_get (qdict_put_obj (qdict_put_obj qdict_new ''idx'' (1 :: nat)) ''class_name'' 2) ''idx'' = Some 1 \<and>
   qdict_size (qdict_put_obj (qdict_put_obj qdict_new ''idx'' (1 :: nat)) ''class_name'' 2) = 2"
  using qdict_put_correct[OF wf_qdict_new, of "''idx''" "1 :: nat"]
    qdict_put_correct[OF wf_qdict_put[OF wf_qdict_new], of "''idx''" "1 :: nat" "''class_name''" 2]
  by (simp add: qdict_haskey_iff qdict_get_new qdict_size_new)

text \<open>
  Deleting a key keeps the dictionary well-formed, removes exactly that key, and
  shrinks the size by one exactly when the key was present.
\<close>

theorem qdict_del_correct:
  assumes "wf_qdict d"
  shows "wf_qdict (qdict_del d key) \<and>
         qdict_get (qdict_del d key) = (qdict_get d)(key := None) \<and>
         qdict_size (qdict_del d key) =
           (if qdict_haskey d key then qdict_size d - 1 else qdict_size d)"
  using assms by (simp add: wf_qdict_del qdict_get_del qd.size_del qdict_haskey_iff)

theorem qdict_del_correct_witness:
  "qdict_get (qdict_del (qdict_put_obj qdict_new ''idx'' (1 :: nat)) ''idx'') ''idx'' = None"
  using qdict_del_correct[OF wf_qdict_put[OF wf_qdict_new], of "''idx''" "1 :: nat" "''idx''"]
  by simp

text \<open>
  On a well-formed dictionary the iteration \<^verbatim>\<open>qdict_first\<close> / \<^verbatim>\<open>qdict_next\<close>
  terminates; it visits pairwise different keys, as many as the size counter says, and
  what it visits is exactly what \<^verbatim>\<open>qdict_get\<close> finds.
\<close>

theorem qdict_iteration_complete:
  assumes "wf_qdict d"
  shows "\<exists>es. qdict_entries d = Inr es \<and> distinct (map fst es) \<and>
              length es = qdict_size d \<and> map_of es = qdict_get d"
  using assms qd.entries_distinct[OF assms] qd.entries_get[OF assms] qd.size_entries[OF assms]
  by (simp add: qdict_entries_eq)

theorem qdict_iteration_complete_witness:
  "\<exists>es. qdict_entries (qdict_put_obj qdict_new ''idx'' (1 :: nat)) = Inr es \<and> distinct (map fst es) \<and>
        length es = 1 \<and> map_of es = [''idx'' \<mapsto> 1]"
  using qdict_iteration_complete[OF wf_qdict_put[OF wf_qdict_new], of "''idx''" "1 :: nat"]

  by (simp add: wf_qdict_new qd.size_put qdict_get_put qdict_get_new qdict_size_new)

end
