(* ===== verification/Insn_Map.thy ===== *)
theory Insn_Map
  imports QObjects
begin

text \<open>
  The instruction map of the variability extension
  (\<^verbatim>\<open>target-arm/arm_instruction_map.[ch]\<close>, \<^verbatim>\<open>hw/stellaris_instruction_map.h\<close>,
  \<^verbatim>\<open>hw/versatilepb_instruction_map.h\<close>): the table of ARM instructions with their class and
  cycle count, the lookup by name, and the cycle counts of the Stellaris and Versatile boards. A pointer into the table is the index of the entry.
\<close>

section \<open>The table\<close>

record variability_instruction_set =
  instruction :: string
  vis_cycle_count :: u8
  instruction_type :: u8
  errorneous :: bool

type_synonym insn_table = "variability_instruction_set list"

abbreviation (input) DATA_PROC_ISN :: u8 where "DATA_PROC_ISN \<equiv> 1"
abbreviation (input) BRANCH_ISN :: u8 where "BRANCH_ISN \<equiv> 2"
abbreviation (input) MULTIPLY_ISN :: u8 where "MULTIPLY_ISN \<equiv> 3"
abbreviation (input) LDST_ISN :: u8 where "LDST_ISN \<equiv> 4"
abbreviation (input) MISC_ISN :: u8 where "MISC_ISN \<equiv> 5"
abbreviation (input) EXTENDED_LDST_ISN :: u8 where "EXTENDED_LDST_ISN \<equiv> 6"

definition INSTRUCTIONS_AVAILABLE :: nat where
  "INSTRUCTIONS_AVAILABLE = 114"

text \<open>An initialiser \<^verbatim>\<open>{name, 0, type}\<close>; the flag that is left out is false.\<close>

definition mk_insn :: "string \<Rightarrow> u8 \<Rightarrow> variability_instruction_set" where
  "mk_insn name type =
     \<lparr>instruction = name, vis_cycle_count = 0, instruction_type = type, errorneous = False\<rparr>"

definition arm_instructions :: insn_table where
  "arm_instructions = [
      mk_insn ''ADC_reg'' DATA_PROC_ISN, mk_insn ''ADD_reg'' DATA_PROC_ISN, mk_insn ''ADD_imm'' DATA_PROC_ISN,
      mk_insn ''SUB_reg'' DATA_PROC_ISN, mk_insn ''SUB_imm'' DATA_PROC_ISN, mk_insn ''MOV_imm'' DATA_PROC_ISN,
      mk_insn ''MOV_reg'' DATA_PROC_ISN, mk_insn ''CMP_imm'' DATA_PROC_ISN, mk_insn ''LDR_imm_lit'' LDST_ISN,
      mk_insn ''BLX_imm'' BRANCH_ISN, mk_insn ''BLX_reg'' BRANCH_ISN, mk_insn ''BX'' BRANCH_ISN,
      mk_insn ''BFC'' DATA_PROC_ISN, mk_insn ''BFI'' DATA_PROC_ISN, mk_insn ''CMP_reg'' DATA_PROC_ISN,
      mk_insn ''NEG_reg'' DATA_PROC_ISN, mk_insn ''AND_reg'' DATA_PROC_ISN, mk_insn ''EOR_reg'' DATA_PROC_ISN,
      mk_insn ''LSL_reg'' DATA_PROC_ISN, mk_insn ''LSR_reg'' DATA_PROC_ISN, mk_insn ''ASR_reg'' DATA_PROC_ISN,
      mk_insn ''ROR_reg'' DATA_PROC_ISN, mk_insn ''TST_reg'' DATA_PROC_ISN, mk_insn ''CMN_reg'' DATA_PROC_ISN,
      mk_insn ''ORR_reg'' DATA_PROC_ISN, mk_insn ''ORN_reg'' DATA_PROC_ISN, mk_insn ''ORNS_reg'' DATA_PROC_ISN,
      mk_insn ''MUL'' MULTIPLY_ISN, mk_insn ''MVN_reg'' DATA_PROC_ISN, mk_insn ''BIC_reg'' DATA_PROC_ISN,
      mk_insn ''BIC_imm'' DATA_PROC_ISN, mk_insn ''LDR_reg'' LDST_ISN, mk_insn ''STR_reg'' LDST_ISN,
      mk_insn ''STRH_reg'' LDST_ISN, mk_insn ''STRB_reg'' LDST_ISN, mk_insn ''LDRH_reg'' LDST_ISN,
      mk_insn ''LDRB_reg'' LDST_ISN, mk_insn ''LDRSH_reg'' LDST_ISN, mk_insn ''LDRSB_reg'' LDST_ISN,
      mk_insn ''LDR_imm_off'' LDST_ISN, mk_insn ''STR_imm_off'' LDST_ISN, mk_insn ''LDRB_imm_off'' LDST_ISN,
      mk_insn ''STRB_imm_off'' LDST_ISN, mk_insn ''LDRH_imm_off'' LDST_ISN, mk_insn ''STRH_imm_off'' LDST_ISN,
      mk_insn ''POP'' LDST_ISN, mk_insn ''PUSH'' LDST_ISN, mk_insn ''UXTH'' MISC_ISN,
      mk_insn ''UXTB'' MISC_ISN, mk_insn ''SXTH'' MISC_ISN, mk_insn ''SXTB'' MISC_ISN,
      mk_insn ''BKPT'' MISC_ISN, mk_insn ''REV'' DATA_PROC_ISN, mk_insn ''CPS'' MISC_ISN,
      mk_insn ''LDRM'' EXTENDED_LDST_ISN, mk_insn ''STM'' EXTENDED_LDST_ISN, mk_insn ''SVC'' MISC_ISN,
      mk_insn ''SWI'' MISC_ISN, mk_insn ''CBZ'' BRANCH_ISN, mk_insn ''B'' BRANCH_ISN,
      mk_insn ''CBNZ'' BRANCH_ISN, mk_insn ''LDRD_lit'' LDST_ISN, mk_insn ''LDRD_imm'' LDST_ISN,
      mk_insn ''STRD_imm'' LDST_ISN, mk_insn ''TBH'' BRANCH_ISN, mk_insn ''TBB'' BRANCH_ISN,
      mk_insn ''LDREXB'' LDST_ISN, mk_insn ''LDREXH'' LDST_ISN, mk_insn ''STREX'' LDST_ISN,
      mk_insn ''STREXB'' LDST_ISN, mk_insn ''STREXH'' LDST_ISN, mk_insn ''SRS'' MISC_ISN,
      mk_insn ''RFE'' MISC_ISN, mk_insn ''PKHTB'' DATA_PROC_ISN, mk_insn ''PKHBT'' DATA_PROC_ISN,
      mk_insn ''SXTB16'' MISC_ISN, mk_insn ''UXTB16'' MISC_ISN, mk_insn ''QADD'' DATA_PROC_ISN,
      mk_insn ''QSUB'' DATA_PROC_ISN, mk_insn ''RBIT'' DATA_PROC_ISN, mk_insn ''REV16'' DATA_PROC_ISN,
      mk_insn ''REVSH'' DATA_PROC_ISN, mk_insn ''SEL'' DATA_PROC_ISN, mk_insn ''CLZ'' DATA_PROC_ISN,
      mk_insn ''LDREX'' LDST_ISN, mk_insn ''SMLALD'' MULTIPLY_ISN, mk_insn ''SMMUL'' MULTIPLY_ISN,
      mk_insn ''SMMLA'' MULTIPLY_ISN, mk_insn ''SMMLS'' MULTIPLY_ISN, mk_insn ''SDIV'' MULTIPLY_ISN,
      mk_insn ''UDIV'' MULTIPLY_ISN, mk_insn ''UMAAL'' MULTIPLY_ISN, mk_insn ''UMULL'' MULTIPLY_ISN,
      mk_insn ''UMLAL'' MULTIPLY_ISN, mk_insn ''SMULL'' MULTIPLY_ISN, mk_insn ''SMLAL'' MULTIPLY_ISN,
      mk_insn ''BL'' BRANCH_ISN, mk_insn ''MSR'' MISC_ISN, mk_insn ''CLREX'' MISC_ISN,
      mk_insn ''MRS'' MISC_ISN, mk_insn ''UBFX'' DATA_PROC_ISN, mk_insn ''SBFX'' DATA_PROC_ISN,
      mk_insn ''SSAT'' DATA_PROC_ISN, mk_insn ''SSAT16'' DATA_PROC_ISN, mk_insn ''USAT'' DATA_PROC_ISN,
      mk_insn ''USAT16'' DATA_PROC_ISN, mk_insn ''MOVT'' DATA_PROC_ISN, mk_insn ''MOVW'' DATA_PROC_ISN,
      mk_insn ''RSB_imm'' DATA_PROC_ISN, mk_insn ''RSB_reg'' DATA_PROC_ISN, mk_insn ''SBC_imm'' DATA_PROC_ISN,
      mk_insn ''SBC_reg'' DATA_PROC_ISN, mk_insn ''RSC'' DATA_PROC_ISN, mk_insn ''QDADD'' DATA_PROC_ISN]"

section \<open>Lookup\<close>

primrec get_map_loop :: "insn_table \<Rightarrow> string \<Rightarrow> nat \<Rightarrow> nat \<Rightarrow> nat option result" where
  "get_map_loop m name i 0 = Inr None"
| "get_map_loop m name i (Suc n) =
     rbind (aget m i) (\<lambda>e. if instruction e = name then Inr (Some i)
                            else get_map_loop m name (Suc i) n)"

definition get_map_entry :: "insn_table option \<Rightarrow> string \<Rightarrow> nat option result" where
  "get_map_entry insn_map name =
     rbind (deref insn_map) (\<lambda>m. get_map_loop m name 0 INSTRUCTIONS_AVAILABLE)"

text \<open>\<^verbatim>\<open>get_map_entry(name)->field = value\<close>: a name that is not found is a null pointer.\<close>

definition set_map_entry ::
  "(variability_instruction_set \<Rightarrow> variability_instruction_set) \<Rightarrow> string \<Rightarrow> insn_table \<Rightarrow>
   insn_table result" where
  "set_map_entry f name m =
     rbind (get_map_entry (Some m) name) (\<lambda>p.
     rbind (deref p) (\<lambda>i.
     rbind (aget m i) (\<lambda>e. aset m i (f e))))"

section \<open>Cycle counts of the Stellaris boards\<close>

definition stellaris_cycles :: "(string \<times> u8) list" where
  "stellaris_cycles = [
      (''MOV_imm'', 1), (''MOV_reg'', 1), (''MOVT'', 1), (''MOVW'', 1),
      (''ADD_reg'', 1), (''ADD_imm'', 3), (''SUB_reg'', 1), (''SUB_imm'', 1),
      (''SBC_reg'', 1), (''RSB_reg'', 3), (''MUL'', 1), (''SMULL'', 4),
      (''UMULL'', 4), (''SMLAL'', 6), (''UMLAL'', 6), (''SDIV'', 9),
      (''UDIV'', 9), (''SSAT'', 1), (''USAT'', 1), (''CMP_reg'', 1),
      (''CMN_reg'', 1), (''AND_reg'', 1), (''EOR_reg'', 1), (''ORR_reg'', 1),
      (''ORN_reg'', 1), (''ORNS_reg'', 1), (''BIC_reg'', 1), (''BIC_imm'', 1),
      (''MVN_reg'', 1), (''TST_reg'', 1), (''LSL_reg'', 1), (''LSR_reg'', 1),
      (''ASR_reg'', 1), (''ROR_reg'', 1), (''CLZ'', 1), (''LDR_reg'', 3),
      (''LDRH_reg'', 2), (''LDRB_reg'', 2), (''LDRSH_reg'', 2), (''LDRSB_reg'', 2),
      (''LDR_imm_off'', 2), (''LDRH_imm_off'', 2), (''LDRB_imm_off'', 2), (''LDRD_imm'', 3),
      (''LDRD_lit'', 3), (''STR_reg'', 2), (''STRH_reg'', 2), (''STRB_reg'', 2),
      (''STR_imm_off'', 2), (''STRH_imm_off'', 2), (''STRB_imm_off'', 2), (''STRD_imm'', 3),
      (''STM'', 1), (''PUSH'', 1), (''POP'', 1), (''LDREX'', 2),
      (''LDREXH'', 2), (''LDREXB'', 2), (''STREX'', 2), (''STREXH'', 2),
      (''STREXB'', 2), (''CLREX'', 1), (''B'', 3), (''BLX_reg'', 3),
      (''BL'', 3), (''BX'', 3), (''BFI'', 1), (''BFC'', 1),
      (''CBZ'', 2), (''CBNZ'', 2), (''TBB'', 4), (''TBH'', 4),
      (''SVC'', 0), (''MRS'', 2), (''MSR'', 2), (''BKPT'', 0),
      (''SXTH'', 1), (''SXTB'', 1), (''UXTH'', 1), (''UXTB'', 1),
      (''UBFX'', 1), (''SBFX'', 1), (''REV'', 1), (''REV16'', 1),
      (''REVSH'', 1), (''RBIT'', 1)]"

primrec store_cycles :: "(string \<times> u8) list \<Rightarrow> insn_table \<Rightarrow> insn_table result" where
  "store_cycles [] m = Inr m"
| "store_cycles (p # ps) m =
     rbind (set_map_entry (\<lambda>e. e\<lparr>vis_cycle_count := snd p\<rparr>) (fst p) m) (store_cycles ps)"

definition init_stellaris_instruction_set_map :: "insn_table option \<Rightarrow> insn_table option result" where
  "init_stellaris_instruction_set_map insn_map =
     (case insn_map of
        None \<Rightarrow> Inr None
      | Some m \<Rightarrow> rbind (store_cycles stellaris_cycles m) (\<lambda>m'. Inr (Some m')))"

section \<open>Cycle counts of the Versatile board\<close>

definition versatilepb_cycles :: "(string \<times> u8) list" where
  "versatilepb_cycles = [
      (''MOV_imm'', 1), (''MOV_reg'', 1), (''MOVT'', 1), (''MOVW'', 1),
      (''ADD_reg'', 1), (''ADD_imm'', 3), (''SUB_reg'', 1), (''SUB_imm'', 1),
      (''SBC_reg'', 1), (''RSB_reg'', 3), (''MUL'', 1), (''SMULL'', 4),
      (''UMULL'', 4), (''SMLAL'', 6), (''UMLAL'', 6), (''SDIV'', 9),
      (''UDIV'', 9), (''SSAT'', 1), (''USAT'', 1), (''CMP_reg'', 1),
      (''CMN_reg'', 1), (''AND_reg'', 1), (''EOR_reg'', 1), (''ORR_reg'', 1),
      (''ORN_reg'', 1), (''ORNS_reg'', 1), (''BIC_reg'', 1), (''BIC_imm'', 1),
      (''MVN_reg'', 1), (''TST_reg'', 1), (''LSL_reg'', 1), (''LSR_reg'', 1),
      (''ASR_reg'', 1), (''ROR_reg'', 1), (''CLZ'', 1), (''LDR_reg'', 3),
      (''LDRH_reg'', 2), (''LDRB_reg'', 2), (''LDRSH_reg'', 2), (''LDRSB_reg'', 2),
      (''LDR_imm_off'', 2), (''LDRH_imm_off'', 2), (''LDRB_imm_off'', 2), (''LDRD_imm'', 3),
      (''LDRD_lit'', 3), (''STR_reg'', 2), (''STRH_reg'', 2), (''STRB_reg'', 2),
      (''STR_imm_off'', 2), (''STRH_imm_off'', 2), (''STRB_imm_off'', 2), (''STRD_imm'', 3),
      (''STM'', 1), (''PUSH'', 1), (''POP'', 1), (''LDREX'', 2),
      (''LDREXH'', 2), (''LDREXB'', 2), (''STREX'', 2), (''STREXH'', 2),
      (''STREXB'', 2), (''CLREX'', 1), (''B'', 3), (''BLX_reg'', 3),
      (''BLX_imm'', 3), (''BL'', 3), (''BX'', 3), (''BFI'', 1),
      (''BFC'', 1), (''CBZ'', 2), (''CBNZ'', 2), (''TBB'', 4),
      (''TBH'', 4), (''SVC'', 0), (''MRS'', 2), (''MSR'', 2),
      (''BKPT'', 0), (''SXTH'', 1), (''SXTB'', 1), (''UXTH'', 1),
      (''UXTB'', 1), (''UBFX'', 1), (''SBFX'', 1), (''REV'', 1),
      (''REV16'', 1), (''REVSH'', 1), (''RBIT'', 1)]"

definition init_versatilepb_instruction_set_map :: "insn_table option \<Rightarrow> insn_table option result" where
  "init_versatilepb_instruction_set_map insn_map =
     (case insn_map of
        None \<Rightarrow> Inr None
      | Some m \<Rightarrow> rbind (store_cycles versatilepb_cycles m) (\<lambda>m'. Inr (Some m')))"

definition init_instruction_set_map :: "insn_table option" where
  "init_instruction_set_map = Some arm_instructions"

section \<open>Lookup is exact\<close>

text \<open>Tables of the declared length with pairwise different names.\<close>

definition wf_insn_table :: "insn_table \<Rightarrow> bool" where
  "wf_insn_table m \<longleftrightarrow>
     length m = INSTRUCTIONS_AVAILABLE \<and> distinct (map instruction m)"

lemma get_map_loop_miss:
  assumes "i + n \<le> length m" "\<And>j. i \<le> j \<Longrightarrow> j < i + n \<Longrightarrow> instruction (m ! j) \<noteq> name"
  shows "get_map_loop m name i n = Inr None"
  using assms by (induction n arbitrary: i) auto

lemma get_map_loop_hit:
  assumes "i + n \<le> length m" "i \<le> k" "k < i + n" "instruction (m ! k) = name"
    and "\<And>j. i \<le> j \<Longrightarrow> j < k \<Longrightarrow> instruction (m ! j) \<noteq> name"
  shows "get_map_loop m name i n = Inr (Some k)"
  using assms
proof (induction n arbitrary: i)
  case (Suc n)
  show ?case
  proof (cases "i = k")
    case False
    then have "get_map_loop m name (Suc i) n = Inr (Some k)"
      using Suc.prems by (intro Suc.IH) auto
    then show ?thesis using Suc.prems False by auto
  qed (use Suc.prems in simp)
qed simp

lemma get_map_entry_hit:
  assumes "wf_insn_table m" "k < INSTRUCTIONS_AVAILABLE"
  shows "get_map_entry (Some m) (instruction (m ! k)) = Inr (Some k)"
proof -
  have "instruction (m ! j) \<noteq> instruction (m ! k)" if "j < k" for j
    using assms that nth_eq_iff_index_eq[of "map instruction m" j k]
    by (simp add: wf_insn_table_def)
  then show ?thesis
    using assms by (simp add: get_map_entry_def wf_insn_table_def get_map_loop_hit)
qed

lemma get_map_entry_miss:
  assumes "wf_insn_table m" "name \<notin> instruction ` set m"
  shows "get_map_entry (Some m) name = Inr None"
proof -
  have "instruction (m ! j) \<noteq> name" if "j < length m" for j
    using assms(2) that by auto
  then show ?thesis
    using assms(1) by (simp add: get_map_entry_def wf_insn_table_def get_map_loop_miss)
qed

lemma get_map_entry_Null: "get_map_entry None name = Inl Null_Deref"
  by (simp add: get_map_entry_def)

text \<open>A name of the table is found at its index.\<close>

lemma get_map_entry_mem:
  assumes "wf_insn_table m" "name \<in> instruction ` set m"
  obtains k where "k < INSTRUCTIONS_AVAILABLE" "instruction (m ! k) = name"
    "get_map_entry (Some m) name = Inr (Some k)"
proof -
  from assms(2) obtain e where "e \<in> set m" "instruction e = name" by auto
  then obtain k where "k < length m" "instruction (m ! k) = name"
    by (auto simp: in_set_conv_nth)
  then show ?thesis
    using that[of k] get_map_entry_hit[OF assms(1), of k] assms(1)
    by (simp add: wf_insn_table_def)
qed

text \<open>Storing through a lookup rewrites exactly the entry of that name.\<close>

lemma set_map_entry_eq:
  assumes "wf_insn_table m" "name \<in> instruction ` set m"
  shows "set_map_entry f name m = Inr (map (\<lambda>e. if instruction e = name then f e else e) m)"
proof -
  obtain k where k: "k < INSTRUCTIONS_AVAILABLE" "instruction (m ! k) = name"
    "get_map_entry (Some m) name = Inr (Some k)"
    using assms by (rule get_map_entry_mem)
  have "instruction (m ! j) = name \<longleftrightarrow> j = k" if "j < length m" for j
    using assms(1) k(1,2) that nth_eq_iff_index_eq[of "map instruction m" j k]
    by (auto simp: wf_insn_table_def)
  then have "m[k := f (m ! k)] = map (\<lambda>e. if instruction e = name then f e else e) m"
    by (intro nth_equalityI) (auto simp: nth_list_update)
  moreover have "k < length m" using k(1) assms(1) by (simp add: wf_insn_table_def)
  ultimately show ?thesis by (simp add: set_map_entry_def k(3))
qed

lemma set_map_entry_miss:
  "wf_insn_table m \<Longrightarrow> name \<notin> instruction ` set m \<Longrightarrow> set_map_entry f name m = Inl Null_Deref"
  by (simp add: set_map_entry_def get_map_entry_miss)

lemma wf_insn_table_map:
  assumes "\<And>e. instruction (f e) = instruction e"
  shows "wf_insn_table (map f m) = wf_insn_table m"
  using assms by (simp add: wf_insn_table_def comp_def)

text \<open>Storing a list of cycle counts: the last entry for a name wins.\<close>

definition with_cycles :: "(string \<times> u8) list \<Rightarrow> variability_instruction_set \<Rightarrow> variability_instruction_set" where
  "with_cycles ps e =
     (case map_of (rev ps) (instruction e) of
        None \<Rightarrow> e | Some c \<Rightarrow> e\<lparr>vis_cycle_count := c\<rparr>)"

lemma with_cycles_Cons:
  "with_cycles (p # ps) e =
     with_cycles ps (if instruction e = fst p then e\<lparr>vis_cycle_count := snd p\<rparr> else e)"
  by (auto simp: with_cycles_def map_add_def split: option.split)

lemma store_cycles_eq:
  assumes "wf_insn_table m" "fst ` set ps \<subseteq> instruction ` set m"
  shows "store_cycles ps m = Inr (map (with_cycles ps) m)"
  using assms
proof (induction ps arbitrary: m)
  case Nil
  have "with_cycles [] = id" by (simp add: fun_eq_iff with_cycles_def)
  then show ?case by simp
next
  case (Cons p ps)
  let ?g = "\<lambda>e. if instruction e = fst p then e\<lparr>vis_cycle_count := snd p\<rparr> else e"
  have g: "instruction (?g e) = instruction e" for e by simp
  have "wf_insn_table (map ?g m)" using Cons.prems(1) wf_insn_table_map[OF g] by simp
  moreover have "fst ` set ps \<subseteq> instruction ` set (map ?g m)"
  proof -
    have "map instruction (map ?g m) = map instruction m" by (simp only: map_map comp_def g)
    from arg_cong[OF this, of set] have "instruction ` set (map ?g m) = instruction ` set m"
      by (simp only: set_map)
    with Cons.prems(2) show ?thesis by (simp only: set_simps image_insert insert_subset)
  qed
  ultimately have "store_cycles ps (map ?g m) = Inr (map (with_cycles ps) (map ?g m))"
    by (rule Cons.IH)
  moreover have "map (with_cycles ps) (map ?g m) = map (with_cycles (p # ps)) m"
    by (simp add: with_cycles_Cons)
  ultimately show ?case
    using Cons.prems by (simp add: set_map_entry_eq)
qed

section \<open>The ARM table\<close>

lemma length_arm_instructions: "length arm_instructions = INSTRUCTIONS_AVAILABLE"
  by (simp add: arm_instructions_def INSTRUCTIONS_AVAILABLE_def)

lemma distinct_arm_instructions: "distinct (map instruction arm_instructions)"
  by code_simp

lemma wf_arm_instructions: "wf_insn_table arm_instructions"
  by (simp add: wf_insn_table_def length_arm_instructions distinct_arm_instructions)

lemma stellaris_names: "set (map fst stellaris_cycles) \<subseteq> set (map instruction arm_instructions)"
  by code_simp

lemma versatilepb_names: "set (map fst versatilepb_cycles) \<subseteq> set (map instruction arm_instructions)"
  by code_simp

text \<open>The Versatile list is the Stellaris list with one more entry.\<close>

lemma versatilepb_split:
  "\<exists>as bs. stellaris_cycles = as @ bs \<and> versatilepb_cycles = as @ (''BLX_imm'', 3) # bs"
  by (rule exI[of _ "take 64 stellaris_cycles"], rule exI[of _ "drop 64 stellaris_cycles"])
    (simp add: stellaris_cycles_def versatilepb_cycles_def)

lemma stellaris_no_blx_imm: "''BLX_imm'' \<notin> fst ` set stellaris_cycles"
  by (simp add: stellaris_cycles_def)

lemma with_cycles_insert:
  assumes "n \<notin> fst ` set as" "n \<notin> fst ` set bs"
  shows "with_cycles (as @ (n, c) # bs) e =
    (let e' = with_cycles (as @ bs) e in if instruction e' = n then e'\<lparr>vis_cycle_count := c\<rparr> else e')"
proof -
  have "map_of (rev as) n = None" "map_of (rev bs) n = None"
    using assms by (simp_all add: map_of_eq_None_iff image_set[symmetric])
  then show ?thesis
    by (auto simp: with_cycles_def map_add_def Let_def split: option.split)
qed

lemma versatilepb_with_cycles:
  "with_cycles versatilepb_cycles e =
     (let e' = with_cycles stellaris_cycles e in
      if instruction e' = ''BLX_imm'' then e'\<lparr>vis_cycle_count := 3\<rparr> else e')"
proof -
  obtain as bs where ab: "stellaris_cycles = as @ bs" "versatilepb_cycles = as @ (''BLX_imm'', 3) # bs"
    using versatilepb_split by blast
  have "''BLX_imm'' \<notin> fst ` set (as @ bs)"
    using stellaris_no_blx_imm by (simp only: ab(1) not_False_eq_True)
  then have "''BLX_imm'' \<notin> fst ` set as" "''BLX_imm'' \<notin> fst ` set bs"
    unfolding set_append image_Un by blast+
  from with_cycles_insert[OF this, of 3 e] show ?thesis by (simp only: ab)
qed

section \<open>Properties\<close>

text \<open>
  Looking an instruction of the ARM table up by its name finds its own index: no two
  entries share a name and the loop bound covers the whole table.
\<close>

theorem get_map_entry_roundtrip:
  assumes "i < length arm_instructions"
  shows "get_map_entry init_instruction_set_map (instruction (arm_instructions ! i)) = Inr (Some i)"
  using assms get_map_entry_hit[OF wf_arm_instructions]
  by (simp add: init_instruction_set_map_def length_arm_instructions)

theorem get_map_entry_roundtrip_witness:
  "get_map_entry init_instruction_set_map ''B'' = Inr (Some 59)"
proof -
  have "(59 :: nat) < length arm_instructions"
    by (simp add: length_arm_instructions INSTRUCTIONS_AVAILABLE_def)
  from get_map_entry_roundtrip[OF this] show ?thesis
    by (simp add: arm_instructions_def mk_insn_def)
qed


text \<open>
  The two boards give every instruction the same cycle count, except that only the
  Versatile board counts \<open>BLX_imm\<close>; both initialisations succeed on the ARM table.
\<close>

theorem boards_agree_except_blx:
  "\<exists>m m'. init_stellaris_instruction_set_map init_instruction_set_map = Inr (Some m) \<and>
     init_versatilepb_instruction_set_map init_instruction_set_map = Inr (Some m') \<and>
     m' = map (\<lambda>e. if instruction e = ''BLX_imm'' then e\<lparr>vis_cycle_count := 3\<rparr> else e) m"
proof -
  have s: "store_cycles stellaris_cycles arm_instructions =
      Inr (map (with_cycles stellaris_cycles) arm_instructions)"
    using stellaris_names by (intro store_cycles_eq wf_arm_instructions) simp
  have v: "store_cycles versatilepb_cycles arm_instructions =
      Inr (map (with_cycles versatilepb_cycles) arm_instructions)"
    using versatilepb_names by (intro store_cycles_eq wf_arm_instructions) simp
  have "map (with_cycles versatilepb_cycles) arm_instructions =
    map (\<lambda>e. if instruction e = ''BLX_imm'' then e\<lparr>vis_cycle_count := 3\<rparr> else e)
      (map (with_cycles stellaris_cycles) arm_instructions)"
    using versatilepb_with_cycles by (simp add: comp_def)
  then show ?thesis
    by (simp add: s v init_stellaris_instruction_set_map_def init_versatilepb_instruction_set_map_def
        init_instruction_set_map_def)
qed

end
