(* ===== verification/Variability.thy ===== *)
theory Variability
  imports Insn_Map
begin

text \<open>
  The variability core: \<^verbatim>\<open>qemu-variability.[ch]\<close>, the power model interface
  \<^verbatim>\<open>power-model.h\<close> and its only instance \<^verbatim>\<open>first-power-model.c\<close>. The file-scope
  variables of these files are one record \<open>vstate\<close>; a function that reads or writes
  them takes and returns it. Arrays indexed by instruction class have
  \<open>MAX_INSN_CLASSES\<close> cells, while the loops run to \<open>total_insn_classes\<close>, which
  comes from the configuration file: a loop that leaves an array is the fault
  \<open>Out_Of_Bounds\<close>. Local variables that the code leaves uninitialised start with the
  arbitrary contents \<open>stale_cycles\<close> and \<open>stale_energy\<close> of the state.
\<close>

section \<open>Data\<close>

definition MAX_INSN_CLASSES :: nat where
  "MAX_INSN_CLASSES = 6"

definition MAX_INSTRUCTIONS :: u16 where
  "MAX_INSTRUCTIONS = push_bit 16 1 - 1"

record cycle_counter =
  data_proc_cycles :: u64
  branch_cycles :: u64
  multiply_cycles :: u64
  ldst_cycles :: u64
  misc_cycles :: u64
  cycle_count :: "u64 list"

record energy_counter =
  data_proc_energy :: u64
  branch_energy :: u64
  multiply_energy :: u64
  ldst_energy :: u64
  misc_energy :: u64
  ec_sleep_energy :: u64
  insn_energy :: "u64 list"

text \<open>The part of a translation block that the variability extension adds.\<close>

record translation_block =
  tb_pc :: u32
  tb_data_proc_cycle_count :: u64
  tb_branch_cycle_count :: u64
  tb_multiply_cycle_count :: u64
  tb_ldst_cycle_count :: u64
  tb_misc_cycle_count :: u64
  tb_cycle_count :: "u64 list"
  insn_under_exec :: u16
  tb_args :: "i32 list"

text \<open>A \<^verbatim>\<open>PowerModel *\<close>: the source defines one instance.\<close>

datatype power_model = First_pwr_model

definition DEFAULT_FREQUENCY :: u64 where
  "DEFAULT_FREQUENCY = 400"

record vstate =
  insn_map :: "insn_table option"
  total_insn_classes :: u8
  total_data_proc_cycle_count :: u64
  total_branch_cycle_count :: u64
  total_multiply_cycle_count :: u64
  total_ldst_cycle_count :: u64
  total_misc_cycle_count :: u64
  total_cycle_count :: "u64 list"
  prev_data_proc_insn_energy :: u64
  prev_branch_insn_energy :: u64
  prev_multiply_insn_energy :: u64
  prev_ldst_insn_energy :: u64
  prev_misc_insn_energy :: u64
  prev_insn_exec_energy :: "u64 list"
  cycle_count_chkpt_data_proc :: u64
  cycle_count_chkpt_branch :: u64
  cycle_count_chkpt_multiply :: u64
  cycle_count_chkpt_ldst :: u64
  cycle_count_chkpt_misc :: u64
  cycle_count_chkpt :: "u64 list"
  started_sleep_count :: bool
  sleep_start_time :: i64
  sleep_energy :: u64
  curr_power_model :: "power_model option"
  current_frequency :: u64
  class_info :: "qobject qdict option"
  error_info_memory :: "qobject list option"
  error_info_regs :: "qobject list option"
  error_pc_enabled :: bool
  error_icount_enabled :: bool
  error_pc_info :: "i32 \<times> i32"
  error_icount_info :: "i32 \<times> i32"
  errors_activated :: bool
  stale_cycles :: cycle_counter
  stale_energy :: energy_counter

text \<open>The initial values of the file-scope variables.\<close>

definition zero_classes :: "u64 list" where
  "zero_classes = replicate MAX_INSN_CLASSES 0"

definition vstate_init :: "cycle_counter \<Rightarrow> energy_counter \<Rightarrow> vstate" where
  "vstate_init stale_c stale_e =
     \<lparr>insn_map = None, total_insn_classes = 0,
      total_data_proc_cycle_count = 0, total_branch_cycle_count = 0,
      total_multiply_cycle_count = 0, total_ldst_cycle_count = 0, total_misc_cycle_count = 0,
      total_cycle_count = zero_classes,
      prev_data_proc_insn_energy = 0, prev_branch_insn_energy = 0,
      prev_multiply_insn_energy = 0, prev_ldst_insn_energy = 0, prev_misc_insn_energy = 0,
      prev_insn_exec_energy = zero_classes,
      cycle_count_chkpt_data_proc = 0, cycle_count_chkpt_branch = 0,
      cycle_count_chkpt_multiply = 0, cycle_count_chkpt_ldst = 0, cycle_count_chkpt_misc = 0,
      cycle_count_chkpt = zero_classes,
      started_sleep_count = False, sleep_start_time = 0, sleep_energy = 0,
      curr_power_model = None, current_frequency = DEFAULT_FREQUENCY,
      class_info = None, error_info_memory = None, error_info_regs = None,
      error_pc_enabled = False, error_icount_enabled = False,
      error_pc_info = (0, 0), error_icount_info = (0, 0), errors_activated = False,
      stale_cycles = stale_c, stale_energy = stale_e\<rparr>"

section \<open>Loops over the instruction classes\<close>

text \<open>\<^verbatim>\<open>for(i = 0; i < n; ++i) dst[i] = src[i]\<close> and its two variants.\<close>

definition copy_classes :: "nat \<Rightarrow> u64 list \<Rightarrow> u64 list \<Rightarrow> u64 list result" where
  "copy_classes n src dst =
     for_upto n (\<lambda>i d. rbind (aget src i) (\<lambda>v. aset d i v)) dst"

definition add_classes :: "nat \<Rightarrow> u64 list \<Rightarrow> u64 list \<Rightarrow> u64 list result" where
  "add_classes n src dst =
     for_upto n (\<lambda>i d. rbind (aget src i) (\<lambda>v. rbind (aget d i) (\<lambda>w. aset d i (w + v)))) dst"

definition sub_classes :: "nat \<Rightarrow> u64 list \<Rightarrow> u64 list \<Rightarrow> u64 list \<Rightarrow> u64 list result" where
  "sub_classes n a b dst =
     for_upto n (\<lambda>i d. rbind (aget a i) (\<lambda>v. rbind (aget b i) (\<lambda>w. aset d i (v - w)))) dst"

definition zero_class_loop :: "nat \<Rightarrow> u64 list \<Rightarrow> u64 list result" where
  "zero_class_loop n dst = for_upto n (\<lambda>i d. aset d i 0) dst"

section \<open>Cycle counters\<close>

definition get_cycle_count :: "vstate \<Rightarrow> string \<Rightarrow> u64 result" where
  "get_cycle_count st name =
     rbind (get_map_entry (insn_map st) name) (\<lambda>p.
     case p of
       None \<Rightarrow> Inr 0
     | Some i \<Rightarrow> rbind (deref (insn_map st)) (\<lambda>m.
                 rbind (aget m i) (\<lambda>e. Inr (ucast (vis_cycle_count e)))))"

text \<open>
  The class counter of a block: \<^verbatim>\<open>tb->cycle_count[s->instruction_type - 1]\<close>. A
  class number 0 gives the index -1.
\<close>

definition class_index :: "u8 \<Rightarrow> nat result" where
  "class_index c = (if c = 0 then Inl Out_Of_Bounds else Inr (unat c - 1))"

definition increment_cycle_counter ::
  "translation_block option \<Rightarrow> variability_instruction_set option \<Rightarrow>
   translation_block option result" where
  "increment_cycle_counter tbptr s =
     (case (s, tbptr) of
        (Some s', Some tb) \<Rightarrow>
          if vis_cycle_count s' = 0 then Inr tbptr
          else rbind (class_index (instruction_type s')) (\<lambda>k.
               rbind (aget (tb_cycle_count tb) k) (\<lambda>w.
               rbind (aset (tb_cycle_count tb) k (w + ucast (vis_cycle_count s'))) (\<lambda>arr.
               Inr (Some (tb\<lparr>tb_cycle_count := arr\<rparr>)))))
      | _ \<Rightarrow> Inr tbptr)"

definition increment_class_cycle_counter :: "u8 \<Rightarrow> u8 \<Rightarrow> vstate \<Rightarrow> vstate result" where
  "increment_class_cycle_counter insn_class cycles st =
     rbind (class_index insn_class) (\<lambda>k.
     rbind (aget (total_cycle_count st) k) (\<lambda>w.
     rbind (aset (total_cycle_count st) k (w + ucast cycles)) (\<lambda>arr.
     Inr (st\<lparr>total_cycle_count := arr\<rparr>))))"

definition read_all_cycle_counters :: "vstate \<Rightarrow> cycle_counter \<Rightarrow> cycle_counter result" where
  "read_all_cycle_counters st s =
     rbind (copy_classes (unat (total_insn_classes st)) (total_cycle_count st) (cycle_count s)) (\<lambda>arr.
     Inr (s\<lparr>data_proc_cycles := total_data_proc_cycle_count st,
            branch_cycles := total_branch_cycle_count st,
            multiply_cycles := total_multiply_cycle_count st,
            ldst_cycles := total_ldst_cycle_count st,
            misc_cycles := total_misc_cycle_count st,
            cycle_count := arr\<rparr>))"

definition reset_all_cycle_counters :: "vstate \<Rightarrow> vstate result" where
  "reset_all_cycle_counters st =
     rbind (zero_class_loop (unat (total_insn_classes st)) (total_cycle_count st)) (\<lambda>arr.
     Inr (st\<lparr>total_data_proc_cycle_count := 0,
             total_branch_cycle_count := 0,
             total_multiply_cycle_count := 0,
             total_ldst_cycle_count := 0,
             total_misc_cycle_count := 0,
             total_cycle_count := arr\<rparr>))"

definition increment_cycle_counters :: "translation_block \<Rightarrow> vstate \<Rightarrow> vstate result" where
  "increment_cycle_counters tb st =
     rbind (add_classes (unat (total_insn_classes st)) (tb_cycle_count tb) (total_cycle_count st)) (\<lambda>arr.
     Inr (st\<lparr>total_data_proc_cycle_count := total_data_proc_cycle_count st + tb_data_proc_cycle_count tb,
             total_branch_cycle_count := total_branch_cycle_count st + tb_branch_cycle_count tb,
             total_multiply_cycle_count := total_multiply_cycle_count st + tb_multiply_cycle_count tb,
             total_ldst_cycle_count := total_ldst_cycle_count st + tb_ldst_cycle_count tb,
             total_misc_cycle_count := total_misc_cycle_count st + tb_misc_cycle_count tb,
             total_cycle_count := arr\<rparr>))"

definition read_all_cycle_counter_chkpts :: "vstate \<Rightarrow> cycle_counter \<Rightarrow> cycle_counter result" where
  "read_all_cycle_counter_chkpts st s =
     rbind (copy_classes (unat (total_insn_classes st)) (cycle_count_chkpt st) (cycle_count s)) (\<lambda>arr.
     Inr (s\<lparr>data_proc_cycles := cycle_count_chkpt_data_proc st,
            branch_cycles := cycle_count_chkpt_branch st,
            multiply_cycles := cycle_count_chkpt_multiply st,
            ldst_cycles := cycle_count_chkpt_ldst st,
            misc_cycles := cycle_count_chkpt_misc st,
            cycle_count := arr\<rparr>))"

section \<open>The power model\<close>

definition serve_insn_power :: "vstate \<Rightarrow> u32 \<Rightarrow> u64 result" where
  "serve_insn_power st insn =
     rbind (deref (insn_map st)) (\<lambda>m.
     rbind (aget m (unat insn)) (\<lambda>e. Inr (ucast (vis_cycle_count e))))"

definition freq_has_changed :: "u64 \<Rightarrow> vstate \<Rightarrow> vstate" where
  "freq_has_changed new_freq st = st\<lparr>current_frequency := new_freq\<rparr>"

definition serve_active_power :: "vstate \<Rightarrow> energy_counter \<Rightarrow> energy_counter result" where
  "serve_active_power st s =
     rbind (read_all_cycle_counters st (stale_cycles st)) (\<lambda>cc.
     rbind (read_all_cycle_counter_chkpts st (stale_cycles st)) (\<lambda>ck.
     rbind (sub_classes (unat (total_insn_classes st)) (cycle_count cc) (cycle_count ck) (insn_energy s)) (\<lambda>arr.
     Inr (s\<lparr>data_proc_energy := data_proc_cycles cc - data_proc_cycles ck,
            branch_energy := branch_cycles cc - branch_cycles ck,
            multiply_energy := multiply_cycles cc - multiply_cycles ck,
            ldst_energy := ldst_cycles cc - ldst_cycles ck,
            misc_energy := misc_cycles cc - misc_cycles ck,
            insn_energy := arr\<rparr>))))"

definition update_sleep_energy :: "u64 \<Rightarrow> vstate \<Rightarrow> vstate" where
  "update_sleep_energy val st = st\<lparr>sleep_energy := sleep_energy st + val\<rparr>"

definition read_sleep_energy :: "vstate \<Rightarrow> u64" where
  "read_sleep_energy st = sleep_energy st"

definition sleep_start_event :: "vstate \<Rightarrow> vstate" where
  "sleep_start_event st = st"

definition sleep_stop_event :: "u64 \<Rightarrow> vstate \<Rightarrow> vstate" where
  "sleep_stop_event interval st = update_sleep_energy interval st"

definition serve_sleep_power :: "vstate \<Rightarrow> energy_counter \<Rightarrow> energy_counter" where
  "serve_sleep_power st s = s\<lparr>ec_sleep_energy := read_sleep_energy st\<rparr>"

text \<open>Calls through the function pointers of a power model.\<close>

fun freq_change_notify :: "power_model \<Rightarrow> u64 \<Rightarrow> vstate \<Rightarrow> vstate" where
  "freq_change_notify First_pwr_model = freq_has_changed"

fun read_active_power :: "power_model \<Rightarrow> vstate \<Rightarrow> energy_counter \<Rightarrow> energy_counter result" where
  "read_active_power First_pwr_model = serve_active_power"

fun sleep_start_notify :: "power_model \<Rightarrow> vstate \<Rightarrow> vstate" where
  "sleep_start_notify First_pwr_model = sleep_start_event"

fun sleep_stop_notify :: "power_model \<Rightarrow> u64 \<Rightarrow> vstate \<Rightarrow> vstate" where
  "sleep_stop_notify First_pwr_model = sleep_stop_event"

fun read_sleep_power :: "power_model \<Rightarrow> vstate \<Rightarrow> energy_counter \<Rightarrow> energy_counter" where
  "read_sleep_power First_pwr_model = serve_sleep_power"

fun insn_power :: "power_model \<Rightarrow> vstate \<Rightarrow> u32 \<Rightarrow> u64 result" where
  "insn_power First_pwr_model = serve_insn_power"

definition power_model_init :: "power_model option \<Rightarrow> vstate \<Rightarrow> vstate" where
  "power_model_init pwr_model st = st\<lparr>curr_power_model := pwr_model\<rparr>"

definition power_init :: "vstate \<Rightarrow> vstate" where
  "power_init st = power_model_init (Some First_pwr_model) st"

section \<open>Energy accounting\<close>

text \<open>
  \<^verbatim>\<open>accumulate_energy\<close> adds to the five scalar energies but stores the class
  energies (the source has \<^verbatim>\<open>=\<close> in the loop, not \<^verbatim>\<open>+=\<close>).
\<close>

definition accumulate_energy :: "energy_counter \<Rightarrow> vstate \<Rightarrow> vstate result" where
  "accumulate_energy s st =
     rbind (copy_classes (unat (total_insn_classes st)) (insn_energy s) (prev_insn_exec_energy st)) (\<lambda>arr.
     Inr (st\<lparr>prev_data_proc_insn_energy := prev_data_proc_insn_energy st + data_proc_energy s,
             prev_branch_insn_energy := prev_branch_insn_energy st + branch_energy s,
             prev_multiply_insn_energy := prev_multiply_insn_energy st + multiply_energy s,
             prev_ldst_insn_energy := prev_ldst_insn_energy st + ldst_energy s,
             prev_misc_insn_energy := prev_misc_insn_energy st + misc_energy s,
             prev_insn_exec_energy := arr\<rparr>))"

definition read_all_prev_energy :: "vstate \<Rightarrow> energy_counter \<Rightarrow> energy_counter result" where
  "read_all_prev_energy st s =
     rbind (copy_classes (unat (total_insn_classes st)) (prev_insn_exec_energy st) (insn_energy s)) (\<lambda>arr.
     Inr (s\<lparr>data_proc_energy := prev_data_proc_insn_energy st,
            branch_energy := prev_branch_insn_energy st,
            multiply_energy := prev_multiply_insn_energy st,
            ldst_energy := prev_ldst_insn_energy st,
            misc_energy := prev_misc_insn_energy st,
            insn_energy := arr\<rparr>))"

definition freq_changed_set_chkpt :: "cycle_counter \<Rightarrow> vstate \<Rightarrow> vstate result" where
  "freq_changed_set_chkpt s st =
     rbind (case curr_power_model st of
              None \<Rightarrow> Inr (stale_energy st)
            | Some pm \<Rightarrow> read_active_power pm st (stale_energy st)) (\<lambda>cur_energy.
     rbind (accumulate_energy cur_energy st) (\<lambda>st1.
     rbind (copy_classes (unat (total_insn_classes st1)) (cycle_count s) (cycle_count_chkpt st1)) (\<lambda>arr.
     let st2 = st1\<lparr>cycle_count_chkpt_data_proc := data_proc_cycles s,
                   cycle_count_chkpt_branch := branch_cycles s,
                   cycle_count_chkpt_multiply := multiply_cycles s,
                   cycle_count_chkpt_ldst := ldst_cycles s,
                   cycle_count_chkpt_misc := misc_cycles s,
                   cycle_count_chkpt := arr\<rparr>
     in Inr (case curr_power_model st2 of
               None \<Rightarrow> st2
             | Some pm \<Rightarrow> freq_change_notify pm 100 st2))))"

definition calculate_active_energy :: "vstate \<Rightarrow> energy_counter \<Rightarrow> energy_counter result" where
  "calculate_active_energy st s =
     rbind (case curr_power_model st of
              None \<Rightarrow> Inr s
            | Some pm \<Rightarrow> read_active_power pm st s) (\<lambda>s1.
     rbind (read_all_prev_energy st (stale_energy st)) (\<lambda>prev.
     rbind (add_classes (unat (total_insn_classes st)) (insn_energy prev) (insn_energy s1)) (\<lambda>arr.
     Inr (s1\<lparr>data_proc_energy := data_proc_energy s1 + data_proc_energy prev,
             branch_energy := branch_energy s1 + branch_energy prev,
             multiply_energy := multiply_energy s1 + multiply_energy prev,
             ldst_energy := ldst_energy s1 + ldst_energy prev,
             misc_energy := misc_energy s1 + misc_energy prev,
             insn_energy := arr\<rparr>))))"

definition calculate_sleep_energy :: "vstate \<Rightarrow> energy_counter \<Rightarrow> energy_counter" where
  "calculate_sleep_energy st s =
     (case curr_power_model st of None \<Rightarrow> s | Some pm \<Rightarrow> read_sleep_power pm st s)"

section \<open>Sleep time\<close>

text \<open>The argument \<open>now\<close> is what \<^verbatim>\<open>qemu_get_clock_ns(vm_clock)\<close> answers.\<close>

definition start_sleep_cycle_count :: "i64 \<Rightarrow> vstate \<Rightarrow> vstate" where
  "start_sleep_cycle_count now st =
     (let st1 = st\<lparr>sleep_start_time := now, started_sleep_count := True\<rparr>
      in case curr_power_model st1 of None \<Rightarrow> st1 | Some pm \<Rightarrow> sleep_start_notify pm st1)"

definition stop_sleep_cycle_count :: "i64 \<Rightarrow> vstate \<Rightarrow> vstate" where
  "stop_sleep_cycle_count now st =
     (if started_sleep_count st then
        (let st1 = (case curr_power_model st of
                      None \<Rightarrow> st
                    | Some pm \<Rightarrow> sleep_stop_notify pm (now - sleep_start_time st) st)
         in st1\<lparr>started_sleep_count := False, sleep_start_time := 0\<rparr>)
      else st)"

section \<open>Monitor commands\<close>

text \<open>The object \<^verbatim>\<open>qobject_from_jsonf\<close> builds from \<^verbatim>\<open>{ k1 : v1, k2 : v2 }\<close>.\<close>

definition json_pair :: "string \<Rightarrow> qobject \<Rightarrow> string \<Rightarrow> qobject \<Rightarrow> qobject" where
  "json_pair k1 v1 k2 v2 = QDict (qdict_put_obj (qdict_put_obj qdict_new k1 v1) k2 v2)"

definition cyclecount_obj :: "i64 \<Rightarrow> u64 \<Rightarrow> qobject" where
  "cyclecount_obj idx count =
     json_pair ''instruction_class_idx'' (QInt idx) ''cycle_count'' (QInt count)"

definition do_info_cyclecount :: "vstate \<Rightarrow> qobject" where
  "do_info_cyclecount st =
     (let d0 = qdict_new;
          d1 = qdict_put_obj d0 ''1'' (cyclecount_obj 1 (total_data_proc_cycle_count st));
          d2 = qdict_put_obj d1 ''2'' (cyclecount_obj 2 (total_branch_cycle_count st));
          d3 = qdict_put_obj d2 ''3'' (cyclecount_obj 3 (total_multiply_cycle_count st));
          d4 = qdict_put_obj d3 ''4'' (cyclecount_obj 4 (total_ldst_cycle_count st));
          d5 = qdict_put_obj d4 ''5'' (cyclecount_obj 5 (total_misc_cycle_count st))
      in QDict d5)"

definition do_info_energy :: "vstate \<Rightarrow> qobject result" where
  "do_info_energy st =
     rbind (calculate_active_energy st (stale_energy st)) (\<lambda>s1.
     let s = calculate_sleep_energy st s1;
         dynamic_energy = data_proc_energy s + branch_energy s + multiply_energy s
                            + ldst_energy s + misc_energy s;
         leakage_energy = ec_sleep_energy s;
         d1 = qdict_put_obj qdict_new ''1''
                (json_pair ''ENERGY_TYPE'' (QString ''DYNAMIC'') ''value'' (QInt dynamic_energy));
         d2 = qdict_put_obj d1 ''2''
                (json_pair ''ENERGY_TYPE'' (QString ''LEAKAGE'') ''value'' (QInt leakage_energy))
     in Inr (QDict d2))"

section \<open>Configuration\<close>

definition class_info_init :: "qobject qdict \<Rightarrow> vstate \<Rightarrow> vstate" where
  "class_info_init qdict st =
     st\<lparr>class_info := Some qdict, total_insn_classes := of_nat (qdict_size qdict)\<rparr>"

definition get_class_info_ptr :: "vstate \<Rightarrow> qobject qdict option" where
  "get_class_info_ptr st = class_info st"

text \<open>
  The search of \<^verbatim>\<open>update_insn_class_info\<close> through the classes: the \<^verbatim>\<open>do\<close>
  loop reads the first entry without a test, so it starts on a non-empty list.
\<close>

fun class_search :: "string \<Rightarrow> (string \<times> qobject) list \<Rightarrow> i64 result" where
  "class_search class_name [] = Inr (- 1)"
| "class_search class_name (pentry # rest) =
     rbind (deref (qobject_to_qdict (snd pentry))) (\<lambda>pdict.
     rbind (qdict_get_int pdict ''idx'') (\<lambda>idx.
     rbind (qdict_get_str pdict ''class_name'') (\<lambda>str.
     if str = class_name then Inr idx else class_search class_name rest)))"

definition update_insn_class_info :: "string \<Rightarrow> string \<Rightarrow> vstate \<Rightarrow> vstate result" where
  "update_insn_class_info class_name insn st =
     (case class_info st of
        None \<Rightarrow> Inl Assert_Failed
      | Some d \<Rightarrow>
          rbind (qdict_entries d) (\<lambda>es.
          rbind (if es = [] then Inl Null_Deref else class_search class_name es) (\<lambda>idx.
          case insn_map st of
            None \<Rightarrow> Inl Assert_Failed
          | Some m \<Rightarrow>
              if idx \<noteq> - 1 then
                rbind (set_map_entry (\<lambda>e. e\<lparr>instruction_type := ucast idx\<rparr>) insn m) (\<lambda>m'.
                Inr (st\<lparr>insn_map := Some m'\<rparr>))
              else Inr st)))"

definition update_insn_error_info :: "string \<Rightarrow> string \<Rightarrow> vstate \<Rightarrow> vstate result" where
  "update_insn_error_info boolstr insn st =
     rbind (deref (insn_map st)) (\<lambda>m.
     rbind (set_map_entry (\<lambda>e. e\<lparr>errorneous := (boolstr = ''y'')\<rparr>) insn m) (\<lambda>m'.
     Inr (st\<lparr>insn_map := Some m'\<rparr>)))"

definition error_init_pc :: "i32 \<Rightarrow> i32 \<Rightarrow> vstate \<Rightarrow> vstate result" where
  "error_init_pc start_pc end_pc st =
     c_assert (0 < sint start_pc \<and> 0 < sint end_pc)
       (c_assert (sint start_pc < sint end_pc)
          (Inr (st\<lparr>error_pc_enabled := True, error_pc_info := (start_pc, end_pc)\<rparr>)))"

definition error_init_icount :: "i32 \<Rightarrow> i32 \<Rightarrow> vstate \<Rightarrow> vstate result" where
  "error_init_icount start_icount end_icount st =
     c_assert (0 < sint start_icount \<and> 0 < sint end_icount)
       (c_assert (sint start_icount < sint end_icount)
          (Inr (st\<lparr>error_icount_enabled := True, error_icount_info := (start_icount, end_icount)\<rparr>)))"

definition error_regs_init :: "qobject list option \<Rightarrow> vstate \<Rightarrow> vstate" where
  "error_regs_init qlist st = st\<lparr>error_info_regs := qlist\<rparr>"

definition mem_error_init :: "qobject list option \<Rightarrow> vstate \<Rightarrow> vstate" where
  "mem_error_init qlist st = st\<lparr>error_info_memory := qlist\<rparr>"

definition error_activate_deactivate :: "bool \<Rightarrow> vstate \<Rightarrow> vstate" where
  "error_activate_deactivate val st = st\<lparr>errors_activated := val\<rparr>"

section \<open>Behaviour of the class loops\<close>

lemma copy_classes_eq:
  assumes "n \<le> length src" "n \<le> length dst"
  shows "copy_classes n src dst = Inr (take n src @ drop n dst)"
proof -
  have "copy_classes n src dst =
      Inr (map (\<lambda>j. if j < n then src ! j else dst ! j) [0..<length dst])"
    unfolding copy_classes_def using assms
    by (intro for_upto_pointwise[where g = "\<lambda>j _. src ! j"]) auto
  also have "map (\<lambda>j. if j < n then src ! j else dst ! j) [0..<length dst] = take n src @ drop n dst"
    using assms by (intro nth_equalityI) (auto simp: nth_append)
  finally show ?thesis .
qed

lemma add_classes_eq:
  assumes "n \<le> length src" "n \<le> length dst"
  shows "add_classes n src dst = Inr (map2 (+) (take n dst) (take n src) @ drop n dst)"
proof -
  have "add_classes n src dst =
      Inr (map (\<lambda>j. if j < n then dst ! j + src ! j else dst ! j) [0..<length dst])"
    unfolding add_classes_def using assms
    by (intro for_upto_pointwise[where g = "\<lambda>j w. w + src ! j"]) auto
  also have "map (\<lambda>j. if j < n then dst ! j + src ! j else dst ! j) [0..<length dst]
      = map2 (+) (take n dst) (take n src) @ drop n dst"
    using assms by (intro nth_equalityI) (auto simp: nth_append)
  finally show ?thesis .
qed

lemma sub_classes_eq:
  assumes "n \<le> length a" "n \<le> length b" "n \<le> length dst"
  shows "sub_classes n a b dst = Inr (map2 (-) (take n a) (take n b) @ drop n dst)"
proof -
  have "sub_classes n a b dst =
      Inr (map (\<lambda>j. if j < n then a ! j - b ! j else dst ! j) [0..<length dst])"
    unfolding sub_classes_def using assms
    by (intro for_upto_pointwise[where g = "\<lambda>j _. a ! j - b ! j"]) auto
  also have "map (\<lambda>j. if j < n then a ! j - b ! j else dst ! j) [0..<length dst]
      = map2 (-) (take n a) (take n b) @ drop n dst"
    using assms by (intro nth_equalityI) (auto simp: nth_append)
  finally show ?thesis .
qed

lemma zero_class_loop_eq:
  assumes "n \<le> length dst"
  shows "zero_class_loop n dst = Inr (replicate n 0 @ drop n dst)"
proof -
  have "zero_class_loop n dst =
      Inr (map (\<lambda>j. if j < n then 0 else dst ! j) [0..<length dst])"
    unfolding zero_class_loop_def using assms
    by (intro for_upto_pointwise[where g = "\<lambda>_ _. 0"]) auto
  also have "map (\<lambda>j. if j < n then 0 else dst ! j) [0..<length dst] = replicate n 0 @ drop n dst"
    using assms by (intro nth_equalityI) (auto simp: nth_append)
  finally show ?thesis .
qed

text \<open>Too many classes: the loop writes behind the array.\<close>

lemma copy_classes_overflow:
  assumes "length dst < n" "length dst \<le> length src"
  shows "copy_classes n src dst = Inl Out_Of_Bounds"
  unfolding copy_classes_def using assms
  by (intro for_upto_fault[where m = "length dst" and P = "\<lambda>d. length d = length dst"])
     (auto simp: aget_def)

section \<open>Well-formed states\<close>

definition wf_cycles :: "cycle_counter \<Rightarrow> bool" where
  "wf_cycles c \<longleftrightarrow> length (cycle_count c) = MAX_INSN_CLASSES"

definition wf_energy :: "energy_counter \<Rightarrow> bool" where
  "wf_energy e \<longleftrightarrow> length (insn_energy e) = MAX_INSN_CLASSES"

abbreviation classes :: "vstate \<Rightarrow> nat" where
  "classes st \<equiv> unat (total_insn_classes st)"

definition wf_vstate :: "vstate \<Rightarrow> bool" where
  "wf_vstate st \<longleftrightarrow>
     classes st \<le> MAX_INSN_CLASSES \<and>
     length (total_cycle_count st) = MAX_INSN_CLASSES \<and>
     length (prev_insn_exec_energy st) = MAX_INSN_CLASSES \<and>
     length (cycle_count_chkpt st) = MAX_INSN_CLASSES \<and>
     wf_cycles (stale_cycles st) \<and> wf_energy (stale_energy st)"

lemma wf_vstate_init: "wf_cycles c \<Longrightarrow> wf_energy e \<Longrightarrow> wf_vstate (vstate_init c e)"
  by (simp add: wf_vstate_def vstate_init_def zero_classes_def)

lemmas wf_defs = wf_vstate_def wf_cycles_def wf_energy_def

named_theorems variability_eqs \<open>closed forms of the operations on well-formed states\<close>

lemma read_all_cycle_counters_eq [variability_eqs]:
  "wf_vstate st \<Longrightarrow> wf_cycles s \<Longrightarrow>
   read_all_cycle_counters st s =
     Inr (s\<lparr>data_proc_cycles := total_data_proc_cycle_count st,
            branch_cycles := total_branch_cycle_count st,
            multiply_cycles := total_multiply_cycle_count st,
            ldst_cycles := total_ldst_cycle_count st,
            misc_cycles := total_misc_cycle_count st,
            cycle_count := take (classes st) (total_cycle_count st) @ drop (classes st) (cycle_count s)\<rparr>)"
  by (simp add: read_all_cycle_counters_def copy_classes_eq wf_defs)

lemma read_all_cycle_counter_chkpts_eq [variability_eqs]:
  "wf_vstate st \<Longrightarrow> wf_cycles s \<Longrightarrow>
   read_all_cycle_counter_chkpts st s =
     Inr (s\<lparr>data_proc_cycles := cycle_count_chkpt_data_proc st,
            branch_cycles := cycle_count_chkpt_branch st,
            multiply_cycles := cycle_count_chkpt_multiply st,
            ldst_cycles := cycle_count_chkpt_ldst st,
            misc_cycles := cycle_count_chkpt_misc st,
            cycle_count := take (classes st) (cycle_count_chkpt st) @ drop (classes st) (cycle_count s)\<rparr>)"
  by (simp add: read_all_cycle_counter_chkpts_def copy_classes_eq wf_defs)

text \<open>What a power model reports for the interval since the last checkpoint.\<close>

definition interval_energy :: "vstate \<Rightarrow> energy_counter \<Rightarrow> energy_counter" where
  "interval_energy st e =
     e\<lparr>data_proc_energy := total_data_proc_cycle_count st - cycle_count_chkpt_data_proc st,
       branch_energy := total_branch_cycle_count st - cycle_count_chkpt_branch st,
       multiply_energy := total_multiply_cycle_count st - cycle_count_chkpt_multiply st,
       ldst_energy := total_ldst_cycle_count st - cycle_count_chkpt_ldst st,
       misc_energy := total_misc_cycle_count st - cycle_count_chkpt_misc st,
       insn_energy := map2 (-) (take (classes st) (total_cycle_count st))
                               (take (classes st) (cycle_count_chkpt st))
                      @ drop (classes st) (insn_energy e)\<rparr>"

lemma serve_active_power_eq:
  "wf_vstate st \<Longrightarrow> wf_energy e \<Longrightarrow> serve_active_power st e = Inr (interval_energy st e)"
  by (simp add: serve_active_power_def variability_eqs wf_vstate_def)
     (simp add: sub_classes_eq wf_defs interval_energy_def)

lemma wf_interval_energy: "wf_vstate st \<Longrightarrow> wf_energy e \<Longrightarrow> wf_energy (interval_energy st e)"
  by (simp add: interval_energy_def wf_defs)

section \<open>The interface of a power model\<close>

text \<open>
  What the accounting relies on when it calls through the current power model: active
  power is the energy of the interval since the checkpoint, sleep energy accumulates,
  and a frequency notification touches nothing but the model's own frequency.
\<close>

locale power_accounting =
  fixes pm :: power_model
  assumes active_interval:
      "wf_vstate st \<Longrightarrow> wf_energy e \<Longrightarrow> read_active_power pm st e = Inr (interval_energy st e)"
    and notify_frame: "\<exists>fr. freq_change_notify pm f st = st\<lparr>current_frequency := fr\<rparr>"
    and start_frame: "sleep_start_notify pm st = st"
    and stop_adds: "sleep_stop_notify pm v st = st\<lparr>sleep_energy := sleep_energy st + v\<rparr>"
    and sleep_read: "read_sleep_power pm st e = e\<lparr>ec_sleep_energy := sleep_energy st\<rparr>"
begin

lemma calculate_active_energy_eq:
  assumes "wf_vstate st" "wf_energy e" "curr_power_model st = Some pm"
  shows "calculate_active_energy st e =
    Inr (e\<lparr>data_proc_energy := total_data_proc_cycle_count st - cycle_count_chkpt_data_proc st + prev_data_proc_insn_energy st,
           branch_energy := total_branch_cycle_count st - cycle_count_chkpt_branch st + prev_branch_insn_energy st,
           multiply_energy := total_multiply_cycle_count st - cycle_count_chkpt_multiply st + prev_multiply_insn_energy st,
           ldst_energy := total_ldst_cycle_count st - cycle_count_chkpt_ldst st + prev_ldst_insn_energy st,
           misc_energy := total_misc_cycle_count st - cycle_count_chkpt_misc st + prev_misc_insn_energy st,
           insn_energy := map2 (+) (map2 (-) (take (classes st) (total_cycle_count st))
                                              (take (classes st) (cycle_count_chkpt st)))
                                    (take (classes st) (prev_insn_exec_energy st))
                          @ drop (classes st) (insn_energy e)\<rparr>)"
  using assms
  by (simp add: calculate_active_energy_def active_interval read_all_prev_energy_def copy_classes_eq
      add_classes_eq wf_defs interval_energy_def)

lemma freq_changed_set_chkpt_eq:
  assumes "wf_vstate st" "wf_cycles c" "curr_power_model st = Some pm"
  shows "\<exists>fr. freq_changed_set_chkpt c st =
    Inr (st\<lparr>prev_data_proc_insn_energy := prev_data_proc_insn_energy st + (total_data_proc_cycle_count st - cycle_count_chkpt_data_proc st),
            prev_branch_insn_energy := prev_branch_insn_energy st + (total_branch_cycle_count st - cycle_count_chkpt_branch st),
            prev_multiply_insn_energy := prev_multiply_insn_energy st + (total_multiply_cycle_count st - cycle_count_chkpt_multiply st),
            prev_ldst_insn_energy := prev_ldst_insn_energy st + (total_ldst_cycle_count st - cycle_count_chkpt_ldst st),
            prev_misc_insn_energy := prev_misc_insn_energy st + (total_misc_cycle_count st - cycle_count_chkpt_misc st),
            prev_insn_exec_energy := map2 (-) (take (classes st) (total_cycle_count st))
                                              (take (classes st) (cycle_count_chkpt st))
                                     @ drop (classes st) (prev_insn_exec_energy st),
            cycle_count_chkpt_data_proc := data_proc_cycles c,
            cycle_count_chkpt_branch := branch_cycles c,
            cycle_count_chkpt_multiply := multiply_cycles c,
            cycle_count_chkpt_ldst := ldst_cycles c,
            cycle_count_chkpt_misc := misc_cycles c,
            cycle_count_chkpt := take (classes st) (cycle_count c) @ drop (classes st) (cycle_count_chkpt st),
            current_frequency := fr\<rparr>)"
  using assms notify_frame[of 100]
  by (simp add: freq_changed_set_chkpt_def active_interval accumulate_energy_def copy_classes_eq
      wf_defs interval_energy_def Let_def)

end

interpretation fpm: power_accounting First_pwr_model
  by unfold_locales
    (auto simp: serve_active_power_eq freq_has_changed_def sleep_start_event_def
      sleep_stop_event_def update_sleep_energy_def serve_sleep_power_def read_sleep_energy_def)

section \<open>Runs of the accounting\<close>

text \<open>What a board does on a frequency change: read the counters, then set the checkpoint.\<close>

definition take_checkpoint :: "vstate \<Rightarrow> vstate result" where
  "take_checkpoint st =
     rbind (read_all_cycle_counters st (stale_cycles st)) (\<lambda>cc. freq_changed_set_chkpt cc st)"

text \<open>
  The operations the emulator performs while it runs: a translation block is executed,
  a replaced instruction is accounted, the frequency changes, the processor goes to
  sleep or wakes up, errors are switched on or off.
\<close>

inductive vstep :: "vstate \<Rightarrow> vstate \<Rightarrow> bool" where
  exec_block: "increment_cycle_counters tb st = Inr st' \<Longrightarrow> vstep st st'"
| replaced_insn: "increment_class_cycle_counter c n st = Inr st' \<Longrightarrow> vstep st st'"
| freq_change: "take_checkpoint st = Inr st' \<Longrightarrow> vstep st st'"
| sleep_begin: "vstep st (start_sleep_cycle_count now st)"
| sleep_end: "vstep st (stop_sleep_cycle_count now st)"
| errors_switch: "vstep st (error_activate_deactivate b st)"

text \<open>
  Reachable states: the configuration file named at most \<open>MAX_INSN_CLASSES\<close> classes, the
  power model was installed, and any number of steps followed.
\<close>

inductive vreachable :: "vstate \<Rightarrow> bool" where
  boot: "wf_cycles c \<Longrightarrow> wf_energy e \<Longrightarrow> qdict_size d \<le> MAX_INSN_CLASSES \<Longrightarrow>
         vreachable (power_init (class_info_init d (vstate_init c e)))"
| step: "vreachable st \<Longrightarrow> vstep st st' \<Longrightarrow> vreachable st'"

text \<open>
  The ledger: what was accumulated before the last checkpoint is what the counters
  stood at then.
\<close>

definition ledger :: "vstate \<Rightarrow> bool" where
  "ledger st \<longleftrightarrow>
     prev_data_proc_insn_energy st = cycle_count_chkpt_data_proc st \<and>
     prev_branch_insn_energy st = cycle_count_chkpt_branch st \<and>
     prev_multiply_insn_energy st = cycle_count_chkpt_multiply st \<and>
     prev_ldst_insn_energy st = cycle_count_chkpt_ldst st \<and>
     prev_misc_insn_energy st = cycle_count_chkpt_misc st"

definition vinv :: "vstate \<Rightarrow> bool" where
  "vinv st \<longleftrightarrow> wf_vstate st \<and> curr_power_model st = Some First_pwr_model \<and> ledger st"

lemma increment_cycle_counters_eq [variability_eqs]:
  "wf_vstate st \<Longrightarrow> length (tb_cycle_count tb) = MAX_INSN_CLASSES \<Longrightarrow>
   increment_cycle_counters tb st =
     Inr (st\<lparr>total_data_proc_cycle_count := total_data_proc_cycle_count st + tb_data_proc_cycle_count tb,
             total_branch_cycle_count := total_branch_cycle_count st + tb_branch_cycle_count tb,
             total_multiply_cycle_count := total_multiply_cycle_count st + tb_multiply_cycle_count tb,
             total_ldst_cycle_count := total_ldst_cycle_count st + tb_ldst_cycle_count tb,
             total_misc_cycle_count := total_misc_cycle_count st + tb_misc_cycle_count tb,
             total_cycle_count := map2 (+) (take (classes st) (total_cycle_count st))
                                           (take (classes st) (tb_cycle_count tb))
                                  @ drop (classes st) (total_cycle_count st)\<rparr>)"
  by (simp add: increment_cycle_counters_def add_classes_eq wf_defs)

lemma reset_all_cycle_counters_eq [variability_eqs]:
  "wf_vstate st \<Longrightarrow>
   reset_all_cycle_counters st =
     Inr (st\<lparr>total_data_proc_cycle_count := 0, total_branch_cycle_count := 0,
             total_multiply_cycle_count := 0, total_ldst_cycle_count := 0,
             total_misc_cycle_count := 0,
             total_cycle_count := replicate (classes st) 0 @ drop (classes st) (total_cycle_count st)\<rparr>)"
  by (simp add: reset_all_cycle_counters_def zero_class_loop_eq wf_defs)

text \<open>A loop that leaves every length alone.\<close>

lemma for_from_length:
  assumes "\<And>j d d'. body j d = Inr d' \<Longrightarrow> length d' = length d"
    and "for_from i n body xs = Inr ys"
  shows "length ys = length xs"
  using assms by (induction n arbitrary: i xs) (auto simp: rbind_eq_Inr_iff)

lemma add_classes_length: "add_classes n src dst = Inr arr \<Longrightarrow> length arr = length dst"
  unfolding add_classes_def for_upto_def
  by (erule for_from_length[rotated]) (auto simp: rbind_eq_Inr_iff aset_eq_Inr_iff)

lemma vinv_exec:
  "vinv st \<Longrightarrow> increment_cycle_counters tb st = Inr st' \<Longrightarrow> vinv st'"
  by (auto simp: vinv_def ledger_def wf_defs increment_cycle_counters_def rbind_eq_Inr_iff
      dest: add_classes_length)

lemma vinv_replaced:
  "vinv st \<Longrightarrow> increment_class_cycle_counter c n st = Inr st' \<Longrightarrow> vinv st'"
  by (auto simp: vinv_def ledger_def wf_defs increment_class_cycle_counter_def rbind_eq_Inr_iff
      aset_eq_Inr_iff)

text \<open>The state a checkpoint leaves behind.\<close>

definition checkpointed :: "u64 \<Rightarrow> vstate \<Rightarrow> vstate" where
  "checkpointed fr st =
     st\<lparr>prev_data_proc_insn_energy := prev_data_proc_insn_energy st + (total_data_proc_cycle_count st - cycle_count_chkpt_data_proc st),
          prev_branch_insn_energy := prev_branch_insn_energy st + (total_branch_cycle_count st - cycle_count_chkpt_branch st),
          prev_multiply_insn_energy := prev_multiply_insn_energy st + (total_multiply_cycle_count st - cycle_count_chkpt_multiply st),
          prev_ldst_insn_energy := prev_ldst_insn_energy st + (total_ldst_cycle_count st - cycle_count_chkpt_ldst st),
          prev_misc_insn_energy := prev_misc_insn_energy st + (total_misc_cycle_count st - cycle_count_chkpt_misc st),
          prev_insn_exec_energy := map2 (-) (take (classes st) (total_cycle_count st))
                                            (take (classes st) (cycle_count_chkpt st))
                                   @ drop (classes st) (prev_insn_exec_energy st),
          cycle_count_chkpt_data_proc := total_data_proc_cycle_count st,
          cycle_count_chkpt_branch := total_branch_cycle_count st,
          cycle_count_chkpt_multiply := total_multiply_cycle_count st,
          cycle_count_chkpt_ldst := total_ldst_cycle_count st,
          cycle_count_chkpt_misc := total_misc_cycle_count st,
          cycle_count_chkpt := take (classes st) (total_cycle_count st) @ drop (classes st) (cycle_count_chkpt st),
          current_frequency := fr\<rparr>"

lemma take_checkpoint_eq:
  assumes "wf_vstate st" "curr_power_model st = Some First_pwr_model"
  shows "\<exists>fr. take_checkpoint st = Inr (checkpointed fr st)"
proof -
  let ?c = "stale_cycles st\<lparr>data_proc_cycles := total_data_proc_cycle_count st,
      branch_cycles := total_branch_cycle_count st, multiply_cycles := total_multiply_cycle_count st,
      ldst_cycles := total_ldst_cycle_count st, misc_cycles := total_misc_cycle_count st,
      cycle_count := take (classes st) (total_cycle_count st) @ drop (classes st) (cycle_count (stale_cycles st))\<rparr>"
  have s: "wf_cycles (stale_cycles st)" using assms(1) by (simp add: wf_vstate_def)
  have r: "read_all_cycle_counters st (stale_cycles st) = Inr ?c"
    by (rule read_all_cycle_counters_eq[OF assms(1) s])
  have c: "wf_cycles ?c" using assms(1) by (simp add: wf_defs)
  have t: "take (classes st) (cycle_count ?c) = take (classes st) (total_cycle_count st)"
    using assms(1) by (simp add: wf_defs)
  from fpm.freq_changed_set_chkpt_eq[OF assms(1) c assms(2)]
  show ?thesis unfolding take_checkpoint_def r rbind_Inr t checkpointed_def by simp
qed

lemma vinv_freq: "vinv st \<Longrightarrow> take_checkpoint st = Inr st' \<Longrightarrow> vinv st'"
  using take_checkpoint_eq[of st] by (auto simp: vinv_def ledger_def wf_defs checkpointed_def)

lemma vinv_sleep_start: "vinv st \<Longrightarrow> vinv (start_sleep_cycle_count now st)"
  by (simp add: vinv_def ledger_def wf_defs start_sleep_cycle_count_def sleep_start_event_def)

lemma vinv_sleep_stop: "vinv st \<Longrightarrow> vinv (stop_sleep_cycle_count now st)"
  by (simp add: vinv_def ledger_def wf_defs stop_sleep_cycle_count_def sleep_stop_event_def
      update_sleep_energy_def)

lemma vinv_errors: "vinv st \<Longrightarrow> vinv (error_activate_deactivate b st)"
  by (simp add: vinv_def ledger_def wf_defs error_activate_deactivate_def)

lemmas vinv_steps = vinv_exec vinv_replaced vinv_freq vinv_sleep_start vinv_sleep_stop vinv_errors

lemma vinv_boot:
  "wf_cycles c \<Longrightarrow> wf_energy e \<Longrightarrow> qdict_size d \<le> MAX_INSN_CLASSES \<Longrightarrow>
   vinv (power_init (class_info_init d (vstate_init c e)))"
  by (simp add: vinv_def ledger_def wf_defs power_init_def power_model_init_def class_info_init_def
      vstate_init_def zero_classes_def MAX_INSN_CLASSES_def unat_of_nat take_bit_nat_def)

lemma vreachable_vinv: "vreachable st \<Longrightarrow> vinv st"
proof (induction rule: vreachable.induct)
  case (boot c e d)
  then show ?case by (rule vinv_boot)
next
  case (step st st')
  from step.hyps(2) step.IH show ?case
    by (cases rule: vstep.cases) (auto intro: vinv_steps)
qed

section \<open>A sample run\<close>

text \<open>Concrete values for the witnesses: three classes, one block, one frequency change.\<close>

definition sample_cycles :: cycle_counter where
  "sample_cycles = \<lparr>data_proc_cycles = 9, branch_cycles = 9, multiply_cycles = 9, ldst_cycles = 9,
     misc_cycles = 9, cycle_count = replicate 6 9\<rparr>"

definition sample_energy :: energy_counter where
  "sample_energy = \<lparr>data_proc_energy = 5, branch_energy = 5, multiply_energy = 5, ldst_energy = 5,
     misc_energy = 5, ec_sleep_energy = 5, insn_energy = replicate 6 5\<rparr>"

definition sample_block :: translation_block where
  "sample_block = \<lparr>tb_pc = 0, tb_data_proc_cycle_count = 7, tb_branch_cycle_count = 3,
     tb_multiply_cycle_count = 0, tb_ldst_cycle_count = 2, tb_misc_cycle_count = 1,
     tb_cycle_count = [4, 2, 1, 0, 0, 0], insn_under_exec = 0, tb_args = replicate 8 (- 1)\<rparr>"

definition sample_state :: vstate where
  "sample_state =
     power_init (class_info_init (Qdict 3 []) (vstate_init sample_cycles sample_energy))"

lemma sample_wf: "wf_cycles sample_cycles" "wf_energy sample_energy"
  by (simp_all add: wf_defs sample_cycles_def sample_energy_def MAX_INSN_CLASSES_def)

lemma sample_reachable: "vreachable sample_state"
  unfolding sample_state_def
  by (rule vreachable.boot[OF sample_wf]) (simp add: qdict_size_def MAX_INSN_CLASSES_def)

lemma zero_classes_list: "zero_classes = [0, 0, 0, 0, 0, 0]"
  by (simp add: zero_classes_def MAX_INSN_CLASSES_def numeral_eq_Suc)

lemma sample_state_fields:
  "classes sample_state = 3"
  "total_data_proc_cycle_count sample_state = 0"
  "total_cycle_count sample_state = [0, 0, 0, 0, 0, 0]"
  "cycle_count_chkpt sample_state = [0, 0, 0, 0, 0, 0]"
  "sleep_energy sample_state = 0"
  by (simp_all add: sample_state_def power_init_def power_model_init_def class_info_init_def
      qdict_size_def vstate_init_def zero_classes_list)

lemma sample_block_step:
  assumes "vreachable st" "classes st = 3" "total_cycle_count st = [a, b, c, 0, 0, 0]"
  shows "\<exists>st'. vreachable st' \<and> classes st' = 3 \<and>
      total_data_proc_cycle_count st' = total_data_proc_cycle_count st + 7 \<and>
      total_cycle_count st' = [a + 4, b + 2, c + 1, 0, 0, 0] \<and>
      cycle_count_chkpt st' = cycle_count_chkpt st"
proof -
  have "wf_vstate st" using vreachable_vinv[OF assms(1)] by (simp add: vinv_def)
  then obtain st' where "increment_cycle_counters sample_block st = Inr st'" "classes st' = 3"
      "total_data_proc_cycle_count st' = total_data_proc_cycle_count st + 7"
      "total_cycle_count st' = [a + 4, b + 2, c + 1, 0, 0, 0]"
      "cycle_count_chkpt st' = cycle_count_chkpt st"
    using assms(2,3)
    by (simp add: increment_cycle_counters_eq sample_block_def MAX_INSN_CLASSES_def)
  then show ?thesis using vreachable.step[OF assms(1) vstep.exec_block] by blast
qed

lemma sample_checkpoint_step:
  assumes "vreachable st" "classes st = 3" "total_cycle_count st = [a, b, c, 0, 0, 0]"
    and "cycle_count_chkpt st = [x, y, z, 0, 0, 0]"
  shows "\<exists>st'. vreachable st' \<and> classes st' = 3 \<and>
      total_data_proc_cycle_count st' = total_data_proc_cycle_count st \<and>
      total_cycle_count st' = [a, b, c, 0, 0, 0] \<and>
      cycle_count_chkpt st' = [a, b, c, 0, 0, 0]"
proof -
  have "vinv st" by (rule vreachable_vinv[OF assms(1)])
  then obtain st' where "take_checkpoint st = Inr st'" "classes st' = 3"
      "total_data_proc_cycle_count st' = total_data_proc_cycle_count st"
      "total_cycle_count st' = [a, b, c, 0, 0, 0]" "cycle_count_chkpt st' = [a, b, c, 0, 0, 0]"
    using assms(2-4) take_checkpoint_eq[of st] by (auto simp: vinv_def checkpointed_def)
  then show ?thesis using vreachable.step[OF assms(1) vstep.freq_change] by blast
qed

lemma sample_run:
  "\<exists>st. vreachable st \<and> classes st = 3 \<and> total_data_proc_cycle_count st = 14 \<and>
        total_cycle_count st = [8, 4, 2, 0, 0, 0] \<and> cycle_count_chkpt st = [4, 2, 1, 0, 0, 0]"
proof -
  obtain s1 where s1: "vreachable s1" "classes s1 = 3" "total_data_proc_cycle_count s1 = 7"
    "total_cycle_count s1 = [4, 2, 1, 0, 0, 0]" "cycle_count_chkpt s1 = [0, 0, 0, 0, 0, 0]"
    using sample_block_step[OF sample_reachable sample_state_fields(1,3)]
    by (auto simp: sample_state_fields)
  obtain s2 where s2: "vreachable s2" "classes s2 = 3" "total_data_proc_cycle_count s2 = 7"
    "total_cycle_count s2 = [4, 2, 1, 0, 0, 0]" "cycle_count_chkpt s2 = [4, 2, 1, 0, 0, 0]"
    using sample_checkpoint_step[OF s1(1,2,4,5)] s1(3) by auto
  show ?thesis using sample_block_step[OF s2(1,2,4)] s2(3,5) by auto
qed

section \<open>Properties\<close>



text \<open>
  The class energies are not conserved. The accumulation stores the last interval
  instead of adding it, so right after a frequency change the reported energy of a class
  is only what was counted since the checkpoint before, not what was counted since boot.
\<close>

theorem class_energy_last_interval:
  assumes "vreachable st" "wf_energy e" "i < classes st"
  shows "\<exists>st' r. take_checkpoint st = Inr st' \<and> calculate_active_energy st' e = Inr r \<and>
                 insn_energy r ! i = total_cycle_count st ! i - cycle_count_chkpt st ! i"
proof -
  have inv: "vinv st" by (rule vreachable_vinv[OF assms(1)])
  then obtain fr where c: "take_checkpoint st = Inr (checkpointed fr st)"
    using take_checkpoint_eq[of st] by (auto simp: vinv_def)
  have c': "wf_vstate (checkpointed fr st)" "curr_power_model (checkpointed fr st) = Some First_pwr_model"
    using vinv_freq[OF inv c] by (simp_all add: vinv_def)
  have "length (total_cycle_count st) = MAX_INSN_CLASSES" "length (cycle_count_chkpt st) = MAX_INSN_CLASSES"
    "classes st \<le> MAX_INSN_CLASSES"
    using inv by (simp_all add: vinv_def wf_defs)
  then show ?thesis
    unfolding c using fpm.calculate_active_energy_eq[OF c'(1) assms(2) c'(2)] assms(3)
    by (simp add: checkpointed_def nth_append)
qed

theorem class_energy_last_interval_witness:
  "\<exists>st st' r. vreachable st \<and> total_cycle_count st ! 0 = 8 \<and> take_checkpoint st = Inr st' \<and>
      calculate_active_energy st' sample_energy = Inr r \<and> insn_energy r ! 0 = 4"
proof -
  obtain st where st: "vreachable st" "total_cycle_count st = [8, 4, 2, 0, 0, 0]"
    "cycle_count_chkpt st = [4, 2, 1, 0, 0, 0]" "classes st = 3"
    using sample_run by blast
  have "0 < classes st" by (simp add: st)
  from class_energy_last_interval[OF st(1) sample_wf(2) this] st show ?thesis by auto
qed



text \<open>
  Nothing limits the number of classes a configuration may name: with more than
  \<open>MAX_INSN_CLASSES\<close> of them (and fewer than 256), reading the counters leaves the arrays.
\<close>

theorem too_many_classes_overflow:
  assumes "wf_vstate st" "wf_cycles c" "MAX_INSN_CLASSES < qdict_size d" "qdict_size d < 256"
  shows "read_all_cycle_counters (class_info_init d st) c = Inl Out_Of_Bounds"
proof -
  have "unat (of_nat (qdict_size d) :: u8) = qdict_size d"
    using assms(4) by (simp add: unat_of_nat take_bit_nat_eq_self)
  then show ?thesis
    using assms
    by (simp add: read_all_cycle_counters_def class_info_init_def copy_classes_overflow wf_defs)
qed

theorem too_many_classes_overflow_witness:
  "read_all_cycle_counters (class_info_init (Qdict 7 []) sample_state) sample_cycles = Inl Out_Of_Bounds"
  using too_many_classes_overflow[of sample_state sample_cycles "Qdict 7 []"]
    vreachable_vinv[OF sample_reachable] sample_wf
  by (simp add: vinv_def qdict_size_def MAX_INSN_CLASSES_def)

text \<open>
  C11: a sleep period adds exactly its length to the leakage energy, once: after sleeping
  from \<open>t0\<close> to \<open>t1\<close> the sleep energy has grown by \<open>t1 - t0\<close> and waking up again at any
  later time changes nothing.
\<close>

theorem sleep_energy_exact:
  assumes "curr_power_model st = Some First_pwr_model"
  shows "let st' = stop_sleep_cycle_count t1 (start_sleep_cycle_count t0 st)
         in read_sleep_energy st' = read_sleep_energy st + (t1 - t0) \<and>
            stop_sleep_cycle_count t2 st' = st' \<and>
            ec_sleep_energy (calculate_sleep_energy st' e) = read_sleep_energy st + (t1 - t0)"
  using assms
  by (simp add: Let_def start_sleep_cycle_count_def stop_sleep_cycle_count_def sleep_start_event_def
      sleep_stop_event_def update_sleep_energy_def read_sleep_energy_def calculate_sleep_energy_def
      serve_sleep_power_def)

theorem sleep_energy_exact_witness:
  "read_sleep_energy (stop_sleep_cycle_count 250 (start_sleep_cycle_count 100 sample_state)) = 150"
proof -
  have "curr_power_model sample_state = Some First_pwr_model"
    using vreachable_vinv[OF sample_reachable] by (simp add: vinv_def)
  from sleep_energy_exact[OF this, of 250 100 0 sample_energy] show ?thesis
    by (simp add: Let_def read_sleep_energy_def sample_state_fields)
qed

end
