(* ===== verification/Error_Model.thy ===== *)
theory Error_Model
  imports Variability
begin

text \<open>
  Error injection and the hooks of the variability extension in the translator and the
  execution loop: \<^verbatim>\<open>error_model.c\<close>, \<^verbatim>\<open>variability_counters_manip\<close> and the
  single-step window of \<^verbatim>\<open>target-arm/translate.c\<close>, and the block that
  \<^verbatim>\<open>cpu-exec.c\<close> runs before it executes a translation block.
\<close>

section \<open>The register error model\<close>

definition BLX_imm :: u16 where "BLX_imm = 9"
definition BLX_reg :: u16 where "BLX_reg = 10"
definition BX :: u16 where "BX = 11"
definition B_insn :: u16 where "B_insn = 59"

definition REG_READ_ERROR :: i64 where "REG_READ_ERROR = 1"
definition STUCK_AT_ZERO :: i64 where "STUCK_AT_ZERO = 1"

definition regnames :: "string list" where
  "regnames = [''r0'', ''r1'', ''r2'', ''r3'', ''r4'', ''r5'', ''r6'', ''r7'',
     ''r8'', ''r9'', ''r10'', ''r11'', ''r12'', ''r13'', ''r14'', ''pc'']"

definition isinsnbranch :: "u16 \<Rightarrow> bool" where
  "isinsnbranch insn \<longleftrightarrow> insn = BLX_imm \<or> insn = BLX_reg \<or> insn = BX \<or> insn = B_insn"

text \<open>Access with a signed index, as in \<^verbatim>\<open>regnames[input_regs[i]]\<close>.\<close>

definition aget_signed :: "'a list \<Rightarrow> i32 \<Rightarrow> 'a result" where
  "aget_signed xs i = (if sint i < 0 then Inl Out_Of_Bounds else aget xs (nat (sint i)))"

definition aset_signed :: "'a list \<Rightarrow> i32 \<Rightarrow> 'a \<Rightarrow> 'a list result" where
  "aset_signed xs i v = (if sint i < 0 then Inl Out_Of_Bounds else aset xs (nat (sint i)) v)"

text \<open>
  The operands of the instruction: the pairs \<^verbatim>\<open>args[i], args[i+1]\<close> with
  \<^verbatim>\<open>args[i] == 0\<close> name registers; the first pair is the output. The array
  \<^verbatim>\<open>input_regs\<close> starts as \<open>{-1, 0, 0, 0}\<close>.
\<close>

definition input_regs_init :: "i32 list" where
  "input_regs_init = [- 1, 0, 0, 0]"

fun collect_inputs :: "i32 list \<Rightarrow> nat list \<Rightarrow> nat \<Rightarrow> i32 list \<Rightarrow> i32 list result" where
  "collect_inputs args [] k regs = Inr regs"
| "collect_inputs args (i # is) k regs =
     rbind (aget args i) (\<lambda>kind.
     if kind = 0 then
       rbind (aget args (i + 1)) (\<lambda>r.
       rbind (aset regs k r) (\<lambda>regs'. collect_inputs args is (Suc k) regs'))
     else collect_inputs args is k regs)"

text \<open>The \<^verbatim>\<open>do\<close> loop over the configured register errors: the last entry it looked at.\<close>

fun reg_search :: "string \<Rightarrow> qobject list \<Rightarrow> qobject qdict result" where
  "reg_search reg [] = Inl Null_Deref"
| "reg_search reg (obj # rest) =
     rbind (deref (qobject_to_qdict obj)) (\<lambda>qdict.
     if \<not> qdict_haskey qdict ''reg_name'' then Inl (Exit 1)
     else rbind (qdict_get_str qdict ''reg_name'') (\<lambda>name.
          if reg \<noteq> name \<and> rest \<noteq> [] then reg_search reg rest else Inr qdict))"

text \<open>\<^verbatim>\<open>1 << bitno\<close> on a 32-bit \<^verbatim>\<open>int\<close>.\<close>

definition shift_one :: "i64 \<Rightarrow> u32 result" where
  "shift_one bitno =
     (if 0 \<le> sint bitno \<and> sint bitno < 32 then Inr (push_bit (nat (sint bitno)) 1)
      else Inl Undefined)"

text \<open>
  The inner loop over the bit numbers ends with \<^verbatim>\<open>while(extinfoentry == NULL)\<close>, so
  it handles the first bit only.
\<close>

definition clear_bits :: "i32 \<Rightarrow> qobject list \<Rightarrow> u32 list \<Rightarrow> u32 list result" where
  "clear_bits r extinfo regs =
     (case extinfo of
        [] \<Rightarrow> Inr regs
      | obj # _ \<Rightarrow>
          rbind (deref (qobject_to_qint obj)) (\<lambda>bitno.
          rbind (shift_one bitno) (\<lambda>m.
          rbind (aget_signed regs r) (\<lambda>v.
          aset_signed regs r (v AND NOT m)))))"

definition reg_error :: "qobject list \<Rightarrow> i32 \<Rightarrow> u32 list \<Rightarrow> u32 list result" where
  "reg_error errs r regs =
     rbind (aget_signed regnames r) (\<lambda>reg.
     rbind (reg_search reg (qlist_first errs)) (\<lambda>qdict.
     rbind (qdict_get_str qdict ''reg_name'') (\<lambda>name.
     if reg = name then
       rbind (qdict_get_int qdict ''error_type'') (\<lambda>error_type.
       if error_type = STUCK_AT_ZERO + REG_READ_ERROR * 10 then
         rbind (qdict_get_qlist qdict ''extra_info'') (\<lambda>p.
         rbind (deref p) (\<lambda>extinfolist. clear_bits r (qlist_first extinfolist) regs))
       else Inr regs)
     else Inr regs)))"

text \<open>
  \<^verbatim>\<open>error_model\<close>: the execution counter, the registers after it and the index of the
  replacing instruction (always -1). The first lines print the name of the instruction.
\<close>

definition error_model ::
  "vstate \<Rightarrow> translation_block \<Rightarrow> u8 \<Rightarrow> u32 list \<Rightarrow> (u8 \<times> u32 list \<times> i32) result" where
  "error_model st tb count_exec regs =
     (let count' = count_exec + 1 in
      rbind (deref (insn_map st)) (\<lambda>m.
      rbind (aget m (unat (insn_under_exec tb))) (\<lambda>_.
      rbind (if isinsnbranch (insn_under_exec tb) then Inr input_regs_init
             else collect_inputs (tb_args tb) [2, 4, 6] 0 input_regs_init) (\<lambda>input_regs.
      rbind (case error_info_regs st of
               None \<Rightarrow> Inr regs
             | Some errs \<Rightarrow>
                 if qlist_empty errs then
                   for_upto 4 (\<lambda>i rs. rbind (aget input_regs i) (\<lambda>r. reg_error errs r rs)) regs
                 else Inr regs) (\<lambda>regs'.
      Inr (count', regs', - 1))))))"

section \<open>Hooks in the translator\<close>

text \<open>
  \<^verbatim>\<open>variability_counters_manip\<close>: the index of the instruction, and its cycles added to
  the block. For an unknown instruction the pointer difference is undefined.
\<close>

definition variability_counters_manip ::
  "vstate \<Rightarrow> translation_block \<Rightarrow> string \<Rightarrow> (u16 \<times> translation_block) result" where
  "variability_counters_manip st tb name =
     (case insn_map st of
        None \<Rightarrow> Inr (MAX_INSTRUCTIONS, tb)
      | Some m \<Rightarrow>
          rbind (get_map_entry (Some m) name) (\<lambda>p.
          case p of
            None \<Rightarrow> Inl Undefined
          | Some i \<Rightarrow>
              rbind (aget m i) (\<lambda>s.
              rbind (increment_cycle_counter (Some tb) (Some s)) (\<lambda>tb'.
              rbind (deref tb') (\<lambda>tb1. Inr (of_nat i, tb1))))))"

definition no_args :: "translation_block \<Rightarrow> translation_block result" where
  "no_args tb =
     rbind (for_upto 8 (\<lambda>i args. aset args i (- 1)) (tb_args tb)) (\<lambda>args.
     Inr (tb\<lparr>tb_args := args\<rparr>))"

text \<open>
  The single-step window after each translated instruction: \<open>lo\<close> and \<open>hi\<close> are compared
  with the unsigned program counter. The result is the new value of \<^verbatim>\<open>singlestep\<close> and
  of the enable flag.
\<close>

definition window_check :: "u32 \<Rightarrow> i32 \<times> i32 \<Rightarrow> bool \<Rightarrow> bool \<Rightarrow> i32 \<Rightarrow> i32 \<times> bool" where
  "window_check pc info enabled allthru_singlestep singlestep =
     (if enabled \<and> \<not> allthru_singlestep then
        if fst info < pc \<and> pc < snd info then (1, enabled) else (0, False)
      else (singlestep, enabled))"

definition translate_window :: "u32 \<Rightarrow> bool \<Rightarrow> i32 \<Rightarrow> vstate \<Rightarrow> i32 \<times> vstate" where
  "translate_window pc allthru_singlestep singlestep st =
     (let (s1, e1) = window_check pc (error_pc_info st) (error_pc_enabled st) allthru_singlestep singlestep;
          (s2, e2) = window_check pc (error_icount_info st) (error_icount_enabled st) allthru_singlestep s1
      in (s2, st\<lparr>error_pc_enabled := e1, error_icount_enabled := e2\<rparr>))"

section \<open>The hook in the execution loop\<close>

record cpu_env =
  cpu_regs :: "u32 list"
  uncached_cpsr :: u32
  feature_m :: bool
  v7m_exception :: i32
  v7m_control :: i32
  exit_request :: bool

definition CPSR_M :: u32 where "CPSR_M = 0x1f"
definition ARM_CPU_MODE_USR :: u32 where "ARM_CPU_MODE_USR = 0x10"

definition exec_privmode :: "cpu_env \<Rightarrow> bool" where
  "exec_privmode env =
     (if feature_m env
      then \<not> (v7m_exception env \<noteq> 0 \<and> v7m_control env AND 1 \<noteq> 0)
      else uncached_cpsr env AND CPSR_M \<noteq> ARM_CPU_MODE_USR)"

text \<open>The privilege bit that \<^verbatim>\<open>cpu_get_tb_cpu_state\<close> gives the translator.\<close>

definition tb_privmode :: "cpu_env \<Rightarrow> bool" where
  "tb_privmode env =
     (if feature_m env
      then \<not> (v7m_exception env = 0 \<and> v7m_control env AND 1 \<noteq> 0)
      else uncached_cpsr env AND CPSR_M \<noteq> ARM_CPU_MODE_USR)"

datatype exec_outcome = Continue | Run_Block | Skip_Block

text \<open>
  \<^verbatim>\<open>cpu_exec\<close> for one translation block, up to the jump into the generated code: in
  single-step mode the energy of the instruction is read and, in user mode with errors
  activated, the error model runs; an instruction it replaced is accounted and the
  block is not executed. Otherwise the block's cycles are added, unless an exit request
  is pending.
\<close>

definition cpu_exec_hook ::
  "i32 \<Rightarrow> translation_block \<Rightarrow> vstate \<Rightarrow> cpu_env \<Rightarrow> u8 \<Rightarrow>
   (exec_outcome \<times> vstate \<times> cpu_env \<times> u8) result" where
  "cpu_exec_hook singlestep tb st env count_exec =
     rbind (if singlestep = 1 then
              rbind (case curr_power_model st of
                       None \<Rightarrow> Inr 0
                     | Some pm \<Rightarrow> insn_power pm st (ucast (insn_under_exec tb))) (\<lambda>_.
              if \<not> exec_privmode env \<and> errors_activated st then
                rbind (error_model st tb count_exec (cpu_regs env)) (\<lambda>(count', regs', replaced_insn).
                if 0 \<le> sint replaced_insn then
                  rbind (case insn_map st of None \<Rightarrow> Inl Assert_Failed | Some m \<Rightarrow> Inr m) (\<lambda>m.
                  rbind (aget_signed m replaced_insn) (\<lambda>e.
                  rbind (increment_class_cycle_counter (instruction_type e) (vis_cycle_count e) st) (\<lambda>st'.
                  Inr (True, st', env\<lparr>cpu_regs := regs'\<rparr>, count'))))
                else Inr (False, st, env\<lparr>cpu_regs := regs'\<rparr>, count'))
              else Inr (False, st, env, count_exec))
            else Inr (False, st, env, count_exec)) (\<lambda>(replaced, st1, env1, count1).
     if replaced then Inr (Continue, st1, env1, count1)
     else if \<not> exit_request env1 then
       rbind (increment_cycle_counters tb st1) (\<lambda>st2. Inr (Run_Block, st2, env1, count1))
     else Inr (Skip_Block, st1, env1, count1))"

section \<open>The error model never injects\<close>

lemma reg_error_Nil: "reg_error [] r regs \<noteq> Inr regs'"
  by (simp add: reg_error_def qlist_first_def rbind_eq_Inr_iff)

lemma error_model_returns:
  assumes "error_model st tb c regs = Inr (c', regs', r)"
  shows "regs' = regs \<and> r = - 1 \<and> c' = c + 1 \<and> error_info_regs st \<noteq> Some []"
proof -
  have f: "for_upto 4 (\<lambda>i rs. rbind (aget xs i) (\<lambda>r. reg_error [] r rs)) regs \<noteq> Inr y" for xs y
    by (auto simp: for_upto_def numeral_eq_Suc rbind_eq_Inr_iff reg_error_Nil)
  from assms f show ?thesis
    by (auto simp: error_model_def rbind_eq_Inr_iff qlist_empty_def split: option.splits if_splits)
qed

lemma collect_inputs_total:
  assumes "length args = 8" "length regs = 4"
  shows "\<exists>rs. collect_inputs args [2, 4, 6] 0 regs = Inr rs \<and> length rs = 4"
  using assms by simp

lemma error_model_total:
  assumes "insn_map st = Some m" "unat (insn_under_exec tb) < length m" "length (tb_args tb) = 8"
    and "error_info_regs st \<noteq> Some []"
  shows "error_model st tb c regs = Inr (c + 1, regs, - 1)"
proof -
  obtain rs where "(if isinsnbranch (insn_under_exec tb) then Inr input_regs_init
      else collect_inputs (tb_args tb) [2, 4, 6] 0 input_regs_init) = Inr rs"
  proof (cases "isinsnbranch (insn_under_exec tb)")
    case False
    obtain rs where "collect_inputs (tb_args tb) [2, 4, 6] 0 input_regs_init = Inr rs"
      using collect_inputs_total[OF assms(3), of input_regs_init]
      unfolding input_regs_init_def by auto
    with False show ?thesis using that by metis
  qed (use that in simp)
  with assms show ?thesis
    by (auto simp: error_model_def qlist_empty_def split: option.split)
qed

lemma cpu_exec_hook_returns:
  assumes "cpu_exec_hook ss tb st env c = Inr (out, st', env', c')"
  shows "env' = env \<and>
    (out = Run_Block \<and> \<not> exit_request env \<and> increment_cycle_counters tb st = Inr st' \<or>
     out = Skip_Block \<and> exit_request env \<and> st' = st)"
  using assms
  by (auto simp: cpu_exec_hook_def rbind_eq_Inr_iff dest!: error_model_returns split: if_splits)

section \<open>Counting in the translator\<close>

lemma variability_counters_manip_eq:
  assumes "insn_map st = Some m" "wf_insn_table m" "i < INSTRUCTIONS_AVAILABLE"
    and "0 < instruction_type (m ! i)" "unat (instruction_type (m ! i)) \<le> MAX_INSN_CLASSES"
    and "length (tb_cycle_count tb) = MAX_INSN_CLASSES"
  shows "variability_counters_manip st tb (instruction (m ! i)) =
    (let k = unat (instruction_type (m ! i)) - 1 in
     Inr (of_nat i, tb\<lparr>tb_cycle_count :=
        (tb_cycle_count tb)[k := tb_cycle_count tb ! k + ucast (vis_cycle_count (m ! i))]\<rparr>))"
proof -
  have l: "i < length m" using assms(2,3) by (simp add: wf_insn_table_def)
  have t: "instruction_type (m ! i) \<noteq> 0" using assms(4) by auto
  then have k: "unat (instruction_type (m ! i)) - 1 < MAX_INSN_CLASSES"
    using assms(5) unat_gt_0[of "instruction_type (m ! i)"] by linarith
  show ?thesis
    using assms(1,6) get_map_entry_hit[OF assms(2,3)] l t k
    by (simp add: variability_counters_manip_def increment_cycle_counter_def class_index_def Let_def)
qed

section \<open>Properties\<close>

text \<open>
  C7: the register error model never injects an error: whatever the configuration, the
  block and the registers, a call that returns leaves every register unchanged and
  reports no replaced instruction. The configured errors are only looked at when the
  list of them is empty, and then the call does not return.
\<close>

theorem error_model_never_injects:
  assumes "error_model st tb c regs = Inr (c', regs', r)"
  shows "regs' = regs \<and> r = - 1 \<and> error_info_regs st \<noteq> Some []"
  using error_model_returns[OF assms] by simp

definition sample_errors :: "qobject list" where
  "sample_errors =
     [QDict (qdict_put_obj (qdict_put_obj (qdict_put_obj qdict_new ''reg_name'' (QString ''r0''))
        ''error_type'' (QInt 11)) ''extra_info'' (QList [QInt 0]))]"

definition error_state :: vstate where
  "error_state = sample_state\<lparr>insn_map := Some arm_instructions, errors_activated := True,
     error_info_regs := Some sample_errors\<rparr>"

definition reg_block :: translation_block where
  "reg_block = sample_block\<lparr>tb_args := [0, 1, 0, 0, 0, 0, 0, 0]\<rparr>"

lemma error_state_model: "error_model error_state reg_block 0 (replicate 16 0xff) = Inr (1, replicate 16 0xff, - 1)"
  using error_model_total[of error_state arm_instructions reg_block 0 "replicate 16 0xff"]
  by (simp add: error_state_def reg_block_def sample_block_def sample_errors_def
      length_arm_instructions INSTRUCTIONS_AVAILABLE_def)

theorem error_model_never_injects_witness:
  "\<exists>c' regs'. error_model error_state reg_block 0 (replicate 16 0xff) = Inr (c', regs', - 1) \<and>
      regs' = replicate 16 0xff \<and> error_info_regs error_state = Some sample_errors"
  using error_model_never_injects[OF error_state_model] error_state_model
  by (simp add: error_state_def)


definition sample_env :: cpu_env where
  "sample_env = \<lparr>cpu_regs = replicate 16 0, uncached_cpsr = 0x10, feature_m = False,
     v7m_exception = 0, v7m_control = 0, exit_request = True\<rparr>"


text \<open>
  A block whose instruction has the number \<open>MAX_INSTRUCTIONS\<close> (the translator's value
  for an unknown instruction) makes the hook read behind the instruction table when it
  single-steps with a power model installed.
\<close>

theorem unknown_insn_out_of_bounds:
  assumes "insn_map st = Some m" "wf_insn_table m" "curr_power_model st = Some First_pwr_model"
    and "insn_under_exec tb = MAX_INSTRUCTIONS"
  shows "cpu_exec_hook 1 tb st env c = Inl Out_Of_Bounds"
  using assms
  by (simp add: cpu_exec_hook_def serve_insn_power_def MAX_INSTRUCTIONS_def wf_insn_table_def
      INSTRUCTIONS_AVAILABLE_def unsigned_ucast_eq)

theorem unknown_insn_out_of_bounds_witness:
  "cpu_exec_hook 1 (sample_block\<lparr>insn_under_exec := MAX_INSTRUCTIONS\<rparr>) error_state sample_env 0
     = Inl Out_Of_Bounds"
  using unknown_insn_out_of_bounds[of error_state arm_instructions
      "sample_block\<lparr>insn_under_exec := MAX_INSTRUCTIONS\<rparr>" sample_env 0]
    wf_arm_instructions vreachable_vinv[OF sample_reachable]
  by (simp add: error_state_def vinv_def)


definition counted_table :: insn_table where
  "counted_table = arm_instructions[59 := \<lparr>instruction = ''B'', vis_cycle_count = 3,
     instruction_type = 2, errorneous = False\<rparr>]"

lemma counted_table_names: "map instruction counted_table = map instruction arm_instructions"
  by (simp add: counted_table_def arm_instructions_def mk_insn_def)




text \<open>
  On M-profile processors the execution hook inverts the privilege test of the
  translator: with the unprivileged control bit set it takes thread mode for privileged
  and handler mode for user mode.
\<close>

theorem m_profile_privilege_inverted:
  assumes "feature_m env" "v7m_control env AND 1 \<noteq> 0"
  shows "exec_privmode env = (\<not> tb_privmode env)"
  using assms by (simp add: exec_privmode_def tb_privmode_def)

theorem m_profile_privilege_inverted_witness:
  "exec_privmode (sample_env\<lparr>feature_m := True, v7m_control := 1\<rparr>)
     = (\<not> tb_privmode (sample_env\<lparr>feature_m := True, v7m_control := 1\<rparr>))"
  using m_profile_privilege_inverted[of "sample_env\<lparr>feature_m := True, v7m_control := 1\<rparr>"] by simp

end
