(* ===== verification/Varmod.thy ===== *)
theory Varmod
  imports Variability
begin

text \<open>
  The memory-mapped variability devices, through which the guest reads the counters:
  \<^verbatim>\<open>hw/variability_module.c\<close> (cycles, energy and the error switch) and the older module of
  the Stellaris board in \<^verbatim>\<open>hw/stellaris.c\<close> (cycles only). Neither has state of its own.
\<close>

section \<open>The variability module\<close>

definition varmod_reset :: "vstate \<Rightarrow> vstate result" where
  "varmod_reset st = reset_all_cycle_counters st"

definition class_energy_sum :: "vstate \<Rightarrow> energy_counter \<Rightarrow> u64 result" where
  "class_energy_sum st active =
     for_upto (unat (total_insn_classes st)) (\<lambda>i acc. rbind (aget (insn_energy active) i) (\<lambda>e. Inr (acc + e))) 0"

definition varmod_dynamic :: "vstate \<Rightarrow> energy_counter \<Rightarrow> u64 result" where
  "varmod_dynamic st active =
     rbind (class_energy_sum st active) (\<lambda>sum.
     Inr (sum + data_proc_energy active + branch_energy active + multiply_energy active
          + ldst_energy active + misc_energy active))"

text \<open>The local records are uninitialised when they are filled: \<^const>\<open>stale_energy\<close>, \<^const>\<open>stale_cycles\<close>.\<close>

definition varmod_read :: "u32 \<Rightarrow> vstate \<Rightarrow> u32 result" where
  "varmod_read offset st =
     rbind (calculate_active_energy st (stale_energy st)) (\<lambda>active.
     let sleep = calculate_sleep_energy st (stale_energy st) in
     rbind (read_all_cycle_counters st (stale_cycles st)) (\<lambda>cy.
     if offset = 0x00 then Inr (lo32 (data_proc_cycles cy))
     else if offset = 0x04 then Inr (hi32 (data_proc_cycles cy))
     else if offset = 0x08 then Inr (lo32 (branch_cycles cy))
     else if offset = 0x0c then Inr (hi32 (branch_cycles cy))
     else if offset = 0x10 then Inr (lo32 (multiply_cycles cy))
     else if offset = 0x14 then Inr (hi32 (multiply_cycles cy))
     else if offset = 0x18 then Inr (lo32 (ldst_cycles cy))
     else if offset = 0x1c then Inr (hi32 (ldst_cycles cy))
     else if offset = 0x20 then Inr (lo32 (misc_cycles cy))
     else if offset = 0x24 then Inr (hi32 (misc_cycles cy))
     else if offset = 0x28 then rbind (varmod_dynamic st active) (\<lambda>e. Inr (lo32 e))
     else if offset = 0x2c then rbind (varmod_dynamic st active) (\<lambda>e. Inr (hi32 e))
     else if offset = 0x68 then Inr (lo32 (ec_sleep_energy sleep))
     else if offset = 0x6c then Inr (hi32 (ec_sleep_energy sleep))
     else if offset = 0x70 then Inr (of_bool (errors_activated st))
     else Inr 0))"

definition varmod_write :: "u32 \<Rightarrow> u32 \<Rightarrow> vstate \<Rightarrow> vstate" where
  "varmod_write offset val st =
     (if offset = 0x70 then st\<lparr>errors_activated := (val AND 1 \<noteq> 0)\<rparr> else st)"

definition varmod_init :: "vstate \<Rightarrow> vstate result" where
  "varmod_init st = rbind (varmod_reset st) (\<lambda>st. Inr (power_init st))"

section \<open>The module of the Stellaris board\<close>

definition read_curr_active_energy :: "vstate \<Rightarrow> energy_counter \<Rightarrow> energy_counter result" where
  "read_curr_active_energy st s = calculate_active_energy st s"

definition read_curr_sleep_energy :: "vstate \<Rightarrow> energy_counter \<Rightarrow> energy_counter" where
  "read_curr_sleep_energy st s = calculate_sleep_energy st s"

definition stellaris_var_mod_reset :: "vstate \<Rightarrow> vstate result" where
  "stellaris_var_mod_reset st = reset_all_cycle_counters st"

definition stellaris_var_mod_read :: "u32 \<Rightarrow> vstate \<Rightarrow> u32 result" where
  "stellaris_var_mod_read offset st =
     rbind (read_curr_active_energy st (stale_energy st)) (\<lambda>active.
     let sleep = read_curr_sleep_energy st (stale_energy st) in
     rbind (read_all_cycle_counters st (stale_cycles st)) (\<lambda>cy.
     if offset = 0x00 then Inr (lo32 (data_proc_cycles cy))
     else if offset = 0x04 then Inr (hi32 (data_proc_cycles cy))
     else if offset = 0x08 then Inr (lo32 (branch_cycles cy))
     else if offset = 0x0c then Inr (hi32 (branch_cycles cy))
     else if offset = 0x10 then Inr (lo32 (multiply_cycles cy))
     else if offset = 0x14 then Inr (hi32 (multiply_cycles cy))
     else if offset = 0x18 then Inr (lo32 (ldst_cycles cy))
     else if offset = 0x1c then Inr (hi32 (ldst_cycles cy))
     else if offset = 0x20 then Inr (lo32 (misc_cycles cy))
     else if offset = 0x24 then Inr (hi32 (misc_cycles cy))
     else Inr 0))"

definition stellaris_var_mod_write :: "u32 \<Rightarrow> u32 \<Rightarrow> vstate \<Rightarrow> vstate" where
  "stellaris_var_mod_write offset val st = st"

definition stellaris_var_mod_init :: "vstate \<Rightarrow> vstate result" where
  "stellaris_var_mod_init st = rbind (stellaris_var_mod_reset st) (\<lambda>st. Inr (power_init st))"

section \<open>What the registers show\<close>

text \<open>The five instruction groups in the order of their registers.\<close>

definition group_count :: "vstate \<Rightarrow> nat \<Rightarrow> u64" where
  "group_count st k =
     [total_data_proc_cycle_count st, total_branch_cycle_count st, total_multiply_cycle_count st,
      total_ldst_cycle_count st, total_misc_cycle_count st] ! k"

text \<open>The energy of one class: the running interval plus what was stored at the last checkpoint.\<close>

definition class_energy :: "vstate \<Rightarrow> nat \<Rightarrow> u64" where
  "class_energy st i = total_cycle_count st ! i - cycle_count_chkpt st ! i + prev_insn_exec_energy st ! i"

lemma less5_cases: "k < (5::nat) \<Longrightarrow> k = 0 \<or> k = 1 \<or> k = 2 \<or> k = 3 \<or> k = 4"
  by auto

lemma for_from_sum:
  assumes "i + n \<le> length xs"
  shows "for_from i n (\<lambda>i acc. rbind (aget xs i) (\<lambda>e. Inr (acc + e))) (a::u64) = Inr (a + (\<Sum>j\<in>{i..<i+n}. xs ! j))"
  using assms
proof (induction n arbitrary: i a)
  case (Suc n)
  have "{i..<i + Suc n} = insert i {Suc i..<Suc i + n}" by auto
  then show ?case using Suc by (simp add: add.assoc)
qed simp

lemma class_energy_sum_eq:
  assumes "unat (total_insn_classes st) \<le> length (insn_energy e)"
  shows "class_energy_sum st e = Inr (\<Sum>j<unat (total_insn_classes st). insn_energy e ! j)"
  using for_from_sum[of 0 "unat (total_insn_classes st)" "insn_energy e" 0] assms
  by (simp add: class_energy_sum_def for_upto_def atLeast0LessThan)

text \<open>What every reader of the counters relies on.\<close>

definition served :: "vstate \<Rightarrow> bool" where
  "served st \<longleftrightarrow> wf_vstate st \<and> curr_power_model st = Some First_pwr_model"

lemma served_reachable: "vreachable st \<Longrightarrow> served st"
  using vreachable_vinv[of st] by (simp add: vinv_def served_def)

text \<open>A device whose registers 0 to \<open>0x24\<close> are the halves of the five counters.\<close>

locale counter_port =
  fixes rd :: "u32 \<Rightarrow> vstate \<Rightarrow> u32 result"
  assumes rd_lo: "served st \<Longrightarrow> k < 5 \<Longrightarrow> rd (of_nat (8 * k)) st = Inr (lo32 (group_count st k))"
    and rd_hi: "served st \<Longrightarrow> k < 5 \<Longrightarrow> rd (of_nat (8 * k + 4)) st = Inr (hi32 (group_count st k))"
begin

lemma rd_pair:
  "served st \<Longrightarrow> k < 5 \<Longrightarrow>
   \<exists>lo hi. rd (of_nat (8 * k)) st = Inr lo \<and> rd (of_nat (8 * k + 4)) st = Inr hi \<and> join64 hi lo = group_count st k"
  using rd_lo rd_hi join64_halves by blast

text \<open>A driver reads the high half, the low half and the high half again. If blocks ran in between but
  the high halves agree, the joined value is the count at the moment of the second read.\<close>

lemma rd_stable:
  assumes "served s0" "served s1" "served s2" "k < 5"
    and "rd (of_nat (8 * k + 4)) s0 = Inr hi" "rd (of_nat (8 * k)) s1 = Inr lo" "rd (of_nat (8 * k + 4)) s2 = Inr hi"
    and "group_count s0 k \<le> group_count s1 k" "group_count s1 k \<le> group_count s2 k"
  shows "join64 hi lo = group_count s1 k"
proof -
  have h: "hi32 (group_count s0 k) = hi" "hi32 (group_count s2 k) = hi" "lo32 (group_count s1 k) = lo"
    using assms rd_lo rd_hi by auto
  have "hi32 (group_count s1 k) = hi"
    using hi32_mono[OF assms(8)] hi32_mono[OF assms(9)] h by simp
  then show ?thesis using h(3) by (metis join64_halves)
qed

end

lemma served_active:
  assumes "served st"
  shows "\<exists>e. calculate_active_energy st (stale_energy st) = Inr e \<and>
    data_proc_energy e = total_data_proc_cycle_count st - cycle_count_chkpt_data_proc st + prev_data_proc_insn_energy st \<and>
    branch_energy e = total_branch_cycle_count st - cycle_count_chkpt_branch st + prev_branch_insn_energy st \<and>
    multiply_energy e = total_multiply_cycle_count st - cycle_count_chkpt_multiply st + prev_multiply_insn_energy st \<and>
    ldst_energy e = total_ldst_cycle_count st - cycle_count_chkpt_ldst st + prev_ldst_insn_energy st \<and>
    misc_energy e = total_misc_cycle_count st - cycle_count_chkpt_misc st + prev_misc_insn_energy st \<and>
    length (insn_energy e) = 6 \<and> (\<forall>i < classes st. insn_energy e ! i = class_energy st i)"
  using assms fpm.calculate_active_energy_eq[of st "stale_energy st"]
  by (auto simp: served_def wf_defs class_energy_def nth_append MAX_INSN_CLASSES_def)

lemma served_cycles:
  assumes "served st"
  shows "\<exists>cy. read_all_cycle_counters st (stale_cycles st) = Inr cy \<and>
    data_proc_cycles cy = total_data_proc_cycle_count st \<and> branch_cycles cy = total_branch_cycle_count st \<and>
    multiply_cycles cy = total_multiply_cycle_count st \<and> ldst_cycles cy = total_ldst_cycle_count st \<and>
    misc_cycles cy = total_misc_cycle_count st"
  using assms read_all_cycle_counters_eq[of st "stale_cycles st"] by (simp add: served_def wf_vstate_def)

interpretation vm: counter_port varmod_read
proof
  fix st k assume a: "served st" "k < (5::nat)"
  obtain e cy where "calculate_active_energy st (stale_energy st) = Inr e"
    "read_all_cycle_counters st (stale_cycles st) = Inr cy"
    and c: "data_proc_cycles cy = total_data_proc_cycle_count st" "branch_cycles cy = total_branch_cycle_count st"
    "multiply_cycles cy = total_multiply_cycle_count st" "ldst_cycles cy = total_ldst_cycle_count st"
    "misc_cycles cy = total_misc_cycle_count st"
    using served_active[OF a(1)] served_cycles[OF a(1)] by auto
  then show "varmod_read (of_nat (8 * k)) st = Inr (lo32 (group_count st k))"
    and "varmod_read (of_nat (8 * k + 4)) st = Inr (hi32 (group_count st k))"
    using less5_cases[OF a(2)] by (auto simp: varmod_read_def group_count_def)
qed

interpretation svm: counter_port stellaris_var_mod_read
proof
  fix st k assume a: "served st" "k < (5::nat)"
  obtain e cy where "read_curr_active_energy st (stale_energy st) = Inr e"
    "read_all_cycle_counters st (stale_cycles st) = Inr cy"
    and c: "data_proc_cycles cy = total_data_proc_cycle_count st" "branch_cycles cy = total_branch_cycle_count st"
    "multiply_cycles cy = total_multiply_cycle_count st" "ldst_cycles cy = total_ldst_cycle_count st"
    "misc_cycles cy = total_misc_cycle_count st"
    using served_active[OF a(1)] served_cycles[OF a(1)] by (auto simp: read_curr_active_energy_def)
  then show "stellaris_var_mod_read (of_nat (8 * k)) st = Inr (lo32 (group_count st k))"
    and "stellaris_var_mod_read (of_nat (8 * k + 4)) st = Inr (hi32 (group_count st k))"
    using less5_cases[OF a(2)] by (auto simp: stellaris_var_mod_read_def group_count_def)
qed

lemma varmod_dynamic_eq:
  assumes "served st"
  defines "tot \<equiv> (\<Sum>i<classes st. class_energy st i)
     + (total_data_proc_cycle_count st - cycle_count_chkpt_data_proc st + prev_data_proc_insn_energy st)
     + (total_branch_cycle_count st - cycle_count_chkpt_branch st + prev_branch_insn_energy st)
     + (total_multiply_cycle_count st - cycle_count_chkpt_multiply st + prev_multiply_insn_energy st)
     + (total_ldst_cycle_count st - cycle_count_chkpt_ldst st + prev_ldst_insn_energy st)
     + (total_misc_cycle_count st - cycle_count_chkpt_misc st + prev_misc_insn_energy st)"
  shows "varmod_read 0x28 st = Inr (lo32 tot) \<and> varmod_read 0x2c st = Inr (hi32 tot)"
proof -
  obtain e where e: "calculate_active_energy st (stale_energy st) = Inr e"
    and f: "data_proc_energy e = total_data_proc_cycle_count st - cycle_count_chkpt_data_proc st + prev_data_proc_insn_energy st"
    "branch_energy e = total_branch_cycle_count st - cycle_count_chkpt_branch st + prev_branch_insn_energy st"
    "multiply_energy e = total_multiply_cycle_count st - cycle_count_chkpt_multiply st + prev_multiply_insn_energy st"
    "ldst_energy e = total_ldst_cycle_count st - cycle_count_chkpt_ldst st + prev_ldst_insn_energy st"
    "misc_energy e = total_misc_cycle_count st - cycle_count_chkpt_misc st + prev_misc_insn_energy st"
    "length (insn_energy e) = 6" "\<forall>i < classes st. insn_energy e ! i = class_energy st i"
    using served_active[OF assms(1)] by auto
  have l: "classes st \<le> length (insn_energy e)"
    using assms(1) f(6) by (simp add: served_def wf_defs MAX_INSN_CLASSES_def)
  have "class_energy_sum st e = Inr (\<Sum>i<classes st. class_energy st i)"
    unfolding class_energy_sum_eq[OF l] using f(7) by simp
  then have d: "varmod_dynamic st e = Inr tot" by (simp add: varmod_dynamic_def f tot_def)
  show ?thesis using served_cycles[OF assms(1)] by (auto simp: varmod_read_def e d)
qed

text \<open>The power model does not look at the error switch.\<close>

lemma read_active_power_cong: "read_active_power pm (st\<lparr>errors_activated := b\<rparr>) = read_active_power pm st"
  by (cases pm) (auto intro!: ext simp: serve_active_power_def read_all_cycle_counters_def
      read_all_cycle_counter_chkpts_def)

lemma read_sleep_power_cong: "read_sleep_power pm (st\<lparr>errors_activated := b\<rparr>) = read_sleep_power pm st"
  by (cases pm) (auto intro!: ext simp: serve_sleep_power_def read_sleep_energy_def)

section \<open>Properties\<close>

text \<open>On both devices the two 32 bit registers of an instruction group join to the 64 bit cycle count
  of that group, in every state the accounting can reach.\<close>

theorem varmod_counters_read:
  assumes "vreachable st" "k < 5"
  shows "(\<exists>lo hi. varmod_read (of_nat (8 * k)) st = Inr lo \<and> varmod_read (of_nat (8 * k + 4)) st = Inr hi \<and>
      join64 hi lo = group_count st k) \<and>
    (\<exists>lo hi. stellaris_var_mod_read (of_nat (8 * k)) st = Inr lo \<and>
      stellaris_var_mod_read (of_nat (8 * k + 4)) st = Inr hi \<and> join64 hi lo = group_count st k)"
  using vm.rd_pair[OF served_reachable[OF assms(1)] assms(2)]
    svm.rd_pair[OF served_reachable[OF assms(1)] assms(2)] by blast

text \<open>The sample state after one block.\<close>

definition sample_run :: vstate where
  "sample_run = sample_state\<lparr>total_data_proc_cycle_count := 7, total_branch_cycle_count := 3,
     total_ldst_cycle_count := 2, total_misc_cycle_count := 1, total_cycle_count := [4, 2, 1, 0, 0, 0]\<rparr>"

lemma sample_run_step: "increment_cycle_counters sample_block sample_state = Inr sample_run"
  by code_simp

lemma sample_run_reachable: "vreachable sample_run"
  by (rule vreachable.step[OF sample_reachable]) (rule vstep.exec_block[OF sample_run_step])

theorem varmod_counters_read_witness:
  "\<exists>lo hi. varmod_read 8 sample_run = Inr lo \<and> varmod_read 12 sample_run = Inr hi \<and> join64 hi lo = 3"
proof -
  have "group_count sample_run 1 = 3" by (simp add: group_count_def sample_run_def)
  with varmod_counters_read[OF sample_run_reachable, of 1] show ?thesis by simp
qed

text \<open>C6: the dynamic energy registers join to the cycles of the five groups since the start plus, for each
  configured class, the running interval and the interval before the last checkpoint; reading them
  never faults.\<close>

theorem varmod_dynamic_energy:
  assumes "vreachable st"
  shows "\<exists>lo hi. varmod_read 0x28 st = Inr lo \<and> varmod_read 0x2c st = Inr hi \<and>
    join64 hi lo = (\<Sum>k<5. group_count st k) + (\<Sum>i<classes st. class_energy st i)"
proof -
  have l: "ledger st" using vreachable_vinv[OF assms] by (simp add: vinv_def)
  have "(\<Sum>k<5. group_count st k) = total_data_proc_cycle_count st + total_branch_cycle_count st
      + total_multiply_cycle_count st + total_ldst_cycle_count st + total_misc_cycle_count st"
    by (simp add: group_count_def eval_nat_numeral)
  with varmod_dynamic_eq[OF served_reachable[OF assms]] l show ?thesis
    by (simp add: ledger_def ac_simps)
qed

theorem varmod_dynamic_energy_witness:
  "\<exists>lo hi. varmod_read 0x28 sample_run = Inr lo \<and> varmod_read 0x2c sample_run = Inr hi \<and> join64 hi lo = 20"
proof -
  have "(\<Sum>k<5. group_count sample_run k) + (\<Sum>i<classes sample_run. class_energy sample_run i) = 20"
    by code_simp
  with varmod_dynamic_energy[OF sample_run_reachable] show ?thesis by simp
qed

text \<open>The error switch reads back as its low bit, and writing it changes no other register.\<close>

theorem varmod_error_switch:
  assumes "vreachable st" "off \<noteq> 0x70"
  shows "varmod_read 0x70 (varmod_write 0x70 v st) = Inr (v AND 1) \<and>
    varmod_read off (varmod_write 0x70 v st) = varmod_read off st \<and> varmod_write off v st = st"
proof -
  have o: "v AND 1 = 0 \<or> v AND 1 = 1" by (simp add: and_one_eq mod2_eq_if)
  define st' where "st' = varmod_write 0x70 v st"
  have f: "calculate_active_energy st' = calculate_active_energy st"
    "calculate_sleep_energy st' = calculate_sleep_energy st"
    "read_all_cycle_counters st' = read_all_cycle_counters st"
    "varmod_dynamic st' = varmod_dynamic st" "stale_energy st' = stale_energy st" "stale_cycles st' = stale_cycles st"
    by (auto intro!: ext simp: st'_def varmod_write_def calculate_active_energy_def calculate_sleep_energy_def
        read_all_cycle_counters_def varmod_dynamic_def class_energy_sum_def read_all_prev_energy_def
        read_active_power_cong read_sleep_power_cong split: option.splits)
  have "served st" by (rule served_reachable[OF assms(1)])
  then obtain e cy where "calculate_active_energy st (stale_energy st) = Inr e"
    "read_all_cycle_counters st (stale_cycles st) = Inr cy"
    using served_active served_cycles by blast
  then have "varmod_read 0x70 st' = Inr (v AND 1)"
    by (simp add: varmod_read_def f) (use o in \<open>auto simp: st'_def varmod_write_def\<close>)
  moreover have "varmod_read off st' = varmod_read off st"
    unfolding varmod_read_def f using assms(2) by (simp add: Let_def)
  ultimately show ?thesis using assms(2) by (simp add: st'_def varmod_write_def)
qed

theorem varmod_error_switch_witness:
  "varmod_read 0x70 (varmod_write 0x70 3 sample_state) = Inr 1"
  using varmod_error_switch[OF sample_reachable, of 0 3] by simp

end
