(* ===== verification/Stellaris_Sys.thy ===== *)
theory Stellaris_Sys
  imports Varmod
begin

text \<open>
  The system controller of the Stellaris boards (\<^verbatim>\<open>hw/stellaris.c\<close>, the \<^verbatim>\<open>ssys_*\<close> functions):
  clock configuration, and the hook by which a clock change takes an energy checkpoint. The
  controller works on its own registers, on the accounting state and on the global
  \<^verbatim>\<open>system_clock_scale\<close>, gathered in one record.
\<close>

record stellaris_board_info =
  board_name :: string
  did0 :: u32
  did1 :: u32
  dc0 :: u32
  dc1 :: u32
  dc2 :: u32
  dc3 :: u32
  dc4 :: u32
  peripherals :: u32

record ssys_state =
  pborctl :: u32
  ldopctl :: u32
  int_status :: u32
  int_mask :: u32
  resc :: u32
  rcc :: u32
  rcgc :: "u32 list"
  scgc :: "u32 list"
  dcgc :: "u32 list"
  clkvclr :: u32
  ldoarst :: u32
  user0 :: u32
  user1 :: u32
  ssys_irq :: bool
  ssys_board :: stellaris_board_info

record ssys_world =
  sysctl :: ssys_state
  accounting :: vstate
  system_clock_scale :: i32

section \<open>Operations\<close>

definition ssys_update :: "ssys_state \<Rightarrow> ssys_state" where
  "ssys_update s = s\<lparr>ssys_irq := (int_status s AND int_mask s \<noteq> 0)\<rparr>"

definition pllcfg_sandstorm :: "u32 list" where
  "pllcfg_sandstorm = [0x31c0, 0x1ae0, 0x18c0, 0xd573, 0x37a6, 0x1ae2, 0x0c40, 0x98bc,
     0x935b, 0x09c0, 0x4dee, 0x0c41, 0x75db, 0x1ae6, 0x0600, 0x585b]"

definition pllcfg_fury :: "u32 list" where
  "pllcfg_fury = [0x3200, 0x1b20, 0x1900, 0xf42b, 0x37e3, 0x1b21, 0x0c80, 0x98ee,
     0xd5b4, 0x0a00, 0x4e27, 0x1902, 0xec1c, 0x1b23, 0x0640, 0xb11c]"

text \<open>The handler weighs the interval with the clock register, but only in a local record it drops.\<close>

definition frequency_change_handler :: "ssys_state \<Rightarrow> vstate \<Rightarrow> vstate result" where
  "frequency_change_handler s st =
     rbind (read_all_cycle_counters st (stale_cycles st)) (\<lambda>cur_count.
     rbind (read_all_cycle_counter_chkpts st (stale_cycles st)) (\<lambda>chkpt.
     let e_count = stale_energy st\<lparr>
           data_proc_energy := ucast (rcc s) * (data_proc_cycles cur_count - data_proc_cycles chkpt),
           branch_energy := ucast (rcc s) * (branch_cycles cur_count - branch_cycles chkpt),
           multiply_energy := ucast (rcc s) * (multiply_cycles cur_count - multiply_cycles chkpt),
           ldst_energy := ucast (rcc s) * (ldst_cycles cur_count - ldst_cycles chkpt),
           misc_energy := ucast (rcc s) * (misc_cycles cur_count - misc_cycles chkpt)\<rparr>
     in freq_changed_set_chkpt cur_count st))"

definition read_pllcfg :: "ssys_state \<Rightarrow> u32 result" where
  "read_pllcfg s =
     (let xtal = unat (drop_bit 6 (rcc s) AND 0xf) in
      if did0 (ssys_board s) AND push_bit 16 1 \<noteq> 0 then aget pllcfg_fury xtal else aget pllcfg_sandstorm xtal)"

definition ssys_read :: "u32 \<Rightarrow> ssys_state \<Rightarrow> u32 result" where
  "ssys_read offset s =
     (if offset = 0x000 then Inr (did0 (ssys_board s))
      else if offset = 0x004 then Inr (did1 (ssys_board s))
      else if offset = 0x008 then Inr (dc0 (ssys_board s))
      else if offset = 0x010 then Inr (dc1 (ssys_board s))
      else if offset = 0x014 then Inr (dc2 (ssys_board s))
      else if offset = 0x018 then Inr (dc3 (ssys_board s))
      else if offset = 0x01c then Inr (dc4 (ssys_board s))
      else if offset = 0x030 then Inr (pborctl s)
      else if offset = 0x034 then Inr (ldopctl s)
      else if offset = 0x040 \<or> offset = 0x044 \<or> offset = 0x048 then Inr 0
      else if offset = 0x050 then Inr (int_status s)
      else if offset = 0x054 then Inr (int_mask s)
      else if offset = 0x058 then Inr (int_status s AND int_mask s)
      else if offset = 0x05c then Inr (resc s)
      else if offset = 0x060 then Inr (rcc s)
      else if offset = 0x064 then read_pllcfg s
      else if offset = 0x100 then aget (rcgc s) 0
      else if offset = 0x104 then aget (rcgc s) 1
      else if offset = 0x108 then aget (rcgc s) 2
      else if offset = 0x110 then aget (scgc s) 0
      else if offset = 0x114 then aget (scgc s) 1
      else if offset = 0x118 then aget (scgc s) 2
      else if offset = 0x120 then aget (dcgc s) 0
      else if offset = 0x124 then aget (dcgc s) 1
      else if offset = 0x128 then aget (dcgc s) 2
      else if offset = 0x150 then Inr (clkvclr s)
      else if offset = 0x160 then Inr (ldoarst s)
      else if offset = 0x1e0 then Inr (user0 s)
      else if offset = 0x1e4 then Inr (user1 s)
      else Inl Hw_Error)"

definition ssys_calculate_system_clock :: "ssys_world \<Rightarrow> ssys_world" where
  "ssys_calculate_system_clock w =
     w\<lparr>system_clock_scale := 5 * ((drop_bit 23 (rcc (sysctl w)) AND 0xf) + 1)\<rparr>"

definition write_rcc :: "u32 \<Rightarrow> ssys_world \<Rightarrow> ssys_world result" where
  "write_rcc val w =
     (let s = sysctl w;
          s = (if rcc s AND push_bit 13 1 \<noteq> 0 \<and> val AND push_bit 13 1 = 0
               then s\<lparr>int_status := int_status s OR push_bit 6 1\<rparr> else s)
      in rbind (if val \<noteq> rcc s then frequency_change_handler s (accounting w) else Inr (accounting w)) (\<lambda>st.
         Inr (ssys_calculate_system_clock (w\<lparr>sysctl := s\<lparr>rcc := val\<rparr>, accounting := st\<rparr>))))"

definition ssys_write_reg :: "u32 \<Rightarrow> u32 \<Rightarrow> ssys_state \<Rightarrow> ssys_state result" where
  "ssys_write_reg offset val s =
     (if offset = 0x030 then Inr (s\<lparr>pborctl := val AND 0xffff\<rparr>)
      else if offset = 0x034 then Inr (s\<lparr>ldopctl := val AND 0x1f\<rparr>)
      else if offset = 0x040 \<or> offset = 0x044 \<or> offset = 0x048 then Inr s
      else if offset = 0x054 then Inr (s\<lparr>int_mask := val AND 0x7f\<rparr>)
      else if offset = 0x058 then Inr (s\<lparr>int_status := int_status s AND NOT val\<rparr>)
      else if offset = 0x05c then Inr (s\<lparr>resc := val AND 0x3f\<rparr>)
      else if offset = 0x100 then rbind (aset (rcgc s) 0 val) (\<lambda>a. Inr (s\<lparr>rcgc := a\<rparr>))
      else if offset = 0x104 then rbind (aset (rcgc s) 1 val) (\<lambda>a. Inr (s\<lparr>rcgc := a\<rparr>))
      else if offset = 0x108 then rbind (aset (rcgc s) 2 val) (\<lambda>a. Inr (s\<lparr>rcgc := a\<rparr>))
      else if offset = 0x110 then rbind (aset (scgc s) 0 val) (\<lambda>a. Inr (s\<lparr>scgc := a\<rparr>))
      else if offset = 0x114 then rbind (aset (scgc s) 1 val) (\<lambda>a. Inr (s\<lparr>scgc := a\<rparr>))
      else if offset = 0x118 then rbind (aset (scgc s) 2 val) (\<lambda>a. Inr (s\<lparr>scgc := a\<rparr>))
      else if offset = 0x120 then rbind (aset (dcgc s) 0 val) (\<lambda>a. Inr (s\<lparr>dcgc := a\<rparr>))
      else if offset = 0x124 then rbind (aset (dcgc s) 1 val) (\<lambda>a. Inr (s\<lparr>dcgc := a\<rparr>))
      else if offset = 0x128 then rbind (aset (dcgc s) 2 val) (\<lambda>a. Inr (s\<lparr>dcgc := a\<rparr>))
      else if offset = 0x150 then Inr (s\<lparr>clkvclr := val\<rparr>)
      else if offset = 0x160 then Inr (s\<lparr>ldoarst := val\<rparr>)
      else Inl Hw_Error)"

definition ssys_write :: "u32 \<Rightarrow> u32 \<Rightarrow> ssys_world \<Rightarrow> ssys_world result" where
  "ssys_write offset val w =
     rbind (if offset = 0x060 then write_rcc val w
            else rbind (ssys_write_reg offset val (sysctl w)) (\<lambda>s. Inr (w\<lparr>sysctl := s\<rparr>)))
       (\<lambda>w. Inr (w\<lparr>sysctl := ssys_update (sysctl w)\<rparr>))"

definition ssys_reset :: "ssys_world \<Rightarrow> ssys_world result" where
  "ssys_reset w =
     (let s = (sysctl w)\<lparr>pborctl := 0x7ffd, rcc := 0x078e3ac0, rcgc := (rcgc (sysctl w))[0 := 1],
                scgc := (scgc (sysctl w))[0 := 1], dcgc := (dcgc (sysctl w))[0 := 1]\<rparr>
      in rbind (frequency_change_handler s (accounting w)) (\<lambda>st. Inr (w\<lparr>sysctl := s, accounting := st\<rparr>)))"

definition stellaris_sys_post_load :: "ssys_world \<Rightarrow> ssys_world" where
  "stellaris_sys_post_load w = ssys_calculate_system_clock w"

text \<open>Three bytes of the MAC address, least significant first.\<close>

definition mac_word :: "u8 \<Rightarrow> u8 \<Rightarrow> u8 \<Rightarrow> u32" where
  "mac_word a b c = ucast a OR push_bit 8 (ucast b) OR push_bit 16 (ucast c)"

definition stellaris_sys_init :: "stellaris_board_info \<Rightarrow> u8 list \<Rightarrow> vstate \<Rightarrow> i32 \<Rightarrow> ssys_world result" where
  "stellaris_sys_init board macaddr st scale =
     ssys_reset \<lparr>sysctl = \<lparr>pborctl = 0, ldopctl = 0, int_status = 0, int_mask = 0, resc = 0, rcc = 0,
         rcgc = [0, 0, 0], scgc = [0, 0, 0], dcgc = [0, 0, 0], clkvclr = 0, ldoarst = 0,
         user0 = mac_word (macaddr ! 0) (macaddr ! 1) (macaddr ! 2),
         user1 = mac_word (macaddr ! 3) (macaddr ! 4) (macaddr ! 5),
         ssys_irq = False, ssys_board = board\<rparr>,
       accounting = st, system_clock_scale = scale\<rparr>"

definition stellaris_boards :: "stellaris_board_info list" where
  "stellaris_boards =
     [\<lparr>board_name = ''LM3S811EVB'', did0 = 0, did1 = 0x0032000e, dc0 = 0x001f001f, dc1 = 0x001132bf,
       dc2 = 0x01071013, dc3 = 0x3f0f01ff, dc4 = 0x0000001f, peripherals = 1\<rparr>,
      \<lparr>board_name = ''LM3S6965EVB'', did0 = 0x10010002, did1 = 0x1073402e, dc0 = 0x00ff007f, dc1 = 0x001133ff,
       dc2 = 0x030f5317, dc3 = 0x0f0f87ff, dc4 = 0x5000007f, peripherals = 0x6\<rparr>]"

text \<open>
  The order of \<^verbatim>\<open>stellaris_init\<close> for the parts that touch the accounting: the system
  controller first, the variability module, which installs the power model, after it.
\<close>

definition stellaris_boot :: "stellaris_board_info \<Rightarrow> u8 list \<Rightarrow> vstate \<Rightarrow> ssys_world result" where
  "stellaris_boot board macaddr st =
     rbind (init_stellaris_instruction_set_map (insn_map st)) (\<lambda>m.
     rbind (stellaris_sys_init board macaddr (st\<lparr>insn_map := m\<rparr>) 0) (\<lambda>w.
     rbind (stellaris_var_mod_init (accounting w)) (\<lambda>st'. Inr (w\<lparr>accounting := st'\<rparr>))))"

section \<open>Well-formed controllers\<close>

definition wf_ssys :: "ssys_state \<Rightarrow> bool" where
  "wf_ssys s \<longleftrightarrow> length (rcgc s) = 3 \<and> length (scgc s) = 3 \<and> length (dcgc s) = 3"

definition ssys_line :: "ssys_state \<Rightarrow> bool" where
  "ssys_line s \<longleftrightarrow> ssys_irq s = (int_status s AND int_mask s \<noteq> 0) \<and> int_mask s AND 0x7f = int_mask s"

lemma wf_ssys_frame [simp]:
  "wf_ssys (s\<lparr>rcc := v\<rparr>) = wf_ssys s" "wf_ssys (s\<lparr>int_status := v\<rparr>) = wf_ssys s"
  "wf_ssys (ssys_update s) = wf_ssys s"
  by (simp_all add: wf_ssys_def ssys_update_def)

text \<open>The clock scale that a divider field gives: \<open>5\<close> to \<open>80\<close> nanoseconds in steps of five.\<close>

definition divider :: "u32 \<Rightarrow> nat" where
  "divider r = unat (drop_bit 23 r AND 0xf)"

lemma and_f_less: "unat ((x::u32) AND 0xf) < 16"
  using word_and_le1[of x "0xf"] by (simp add: word_le_nat_alt)

lemma divider_less: "divider r < 16"
  by (simp add: divider_def and_f_less)

lemma clock_scale_eq:
  "system_clock_scale (ssys_calculate_system_clock w) = of_nat (5 * (divider (rcc (sysctl w)) + 1))"
  by (simp add: ssys_calculate_system_clock_def divider_def)

lemma frequency_change_handler_eq:
  assumes "wf_vstate st"
  shows "frequency_change_handler s st = take_checkpoint st"
  using assms by (simp add: frequency_change_handler_def take_checkpoint_def Let_def
      read_all_cycle_counter_chkpts_eq wf_vstate_def)

lemma read_pllcfg_ok: "\<exists>v. read_pllcfg s = Inr v"
  using and_f_less[of "drop_bit 6 (rcc s)"]
  by (simp add: read_pllcfg_def Let_def pllcfg_fury_def pllcfg_sandstorm_def)

lemma ssys_read_fault: "wf_ssys s \<Longrightarrow> ssys_read off s = Inl e \<Longrightarrow> e = Hw_Error"
  using read_pllcfg_ok[of s] unfolding ssys_read_def wf_ssys_def by (auto split: if_splits)

lemma ssys_write_reg_ok:
  assumes "wf_ssys s" "int_mask s AND 0x7f = int_mask s" "ssys_write_reg off v s = Inr s'"
  shows "wf_ssys s' \<and> int_mask s' AND 0x7f = int_mask s' \<and> rcc s' = rcc s"
  using assms unfolding ssys_write_reg_def wf_ssys_def
  by (auto split: if_splits simp: and.assoc)

lemma ssys_write_reg_fault: "wf_ssys s \<Longrightarrow> ssys_write_reg off v s = Inl e \<Longrightarrow> e = Hw_Error"
  unfolding ssys_write_reg_def wf_ssys_def by (auto split: if_splits)

section \<open>Clock changes\<close>

lemma write_rcc_eq:
  assumes "served (accounting w)"
  shows "\<exists>st' k. write_rcc v w = Inr \<lparr>sysctl = (sysctl w)\<lparr>int_status := k, rcc := v\<rparr>, accounting = st',
            system_clock_scale = of_nat (5 * (divider v + 1))\<rparr> \<and>
          (if v = rcc (sysctl w) then st' = accounting w else take_checkpoint (accounting w) = Inr st')"
proof -
  have wf: "wf_vstate (accounting w)" and pm: "curr_power_model (accounting w) = Some First_pwr_model"
    using assms by (simp_all add: served_def)
  obtain st1 where t: "take_checkpoint (accounting w) = Inr st1" using take_checkpoint_eq[OF wf pm] by auto
  let ?c = "rcc (sysctl w) AND push_bit 13 1 \<noteq> 0 \<and> v AND push_bit 13 1 = 0"
  define k where "k = (if ?c then int_status (sysctl w) OR push_bit 6 1 else int_status (sysctl w))"
  have k: "(if ?c then (sysctl w)\<lparr>int_status := int_status (sysctl w) OR push_bit 6 1\<rparr> else sysctl w)
      = (sysctl w)\<lparr>int_status := k\<rparr>"
    by (simp add: k_def)
  have "write_rcc v w = Inr \<lparr>sysctl = (sysctl w)\<lparr>int_status := k, rcc := v\<rparr>,
      accounting = (if v = rcc (sysctl w) then accounting w else st1), system_clock_scale = of_nat (5 * (divider v + 1))\<rparr>"
    unfolding write_rcc_def Let_def k
    by (simp add: frequency_change_handler_eq[OF wf] t ssys_calculate_system_clock_def divider_def)
  then show ?thesis using t by auto
qed

text \<open>A write of the clock register always succeeds.\<close>

lemma ssys_write_rcc:
  assumes "served (accounting w)"
  shows "\<exists>w'. ssys_write 0x60 v w = Inr w' \<and> rcc (sysctl w') = v \<and> wf_ssys (sysctl w') = wf_ssys (sysctl w) \<and>
    int_mask (sysctl w') = int_mask (sysctl w) \<and>
    ssys_irq (sysctl w') = (int_status (sysctl w') AND int_mask (sysctl w') \<noteq> 0) \<and>
    system_clock_scale w' = of_nat (5 * (divider v + 1)) \<and>
    (if v = rcc (sysctl w) then accounting w' = accounting w
     else take_checkpoint (accounting w) = Inr (accounting w'))"
proof -
  obtain st' k where "write_rcc v w = Inr \<lparr>sysctl = (sysctl w)\<lparr>int_status := k, rcc := v\<rparr>, accounting = st',
            system_clock_scale = of_nat (5 * (divider v + 1))\<rparr>"
    "if v = rcc (sysctl w) then st' = accounting w else take_checkpoint (accounting w) = Inr st'"
    using write_rcc_eq[OF assms] by blast
  then show ?thesis by (simp add: ssys_write_def) (simp add: ssys_update_def wf_ssys_def)
qed

lemma ssys_write_other:
  assumes "off \<noteq> 0x60" "ssys_write off v w = Inr w'"
  shows "accounting w' = accounting w \<and> system_clock_scale w' = system_clock_scale w \<and>
    (\<exists>s. ssys_write_reg off v (sysctl w) = Inr s \<and> sysctl w' = ssys_update s)"
  using assms by (auto simp: ssys_write_def rbind_eq_Inr_iff)

section \<open>The running board\<close>

lemma served_vstep:
  assumes "vstep st st'" "served st"
  shows "served st'"
  using assms
proof (cases rule: vstep.cases)
  case freq_change
  then show ?thesis using assms(2) take_checkpoint_eq[of st] by (auto simp: served_def wf_defs checkpointed_def)
qed (auto simp: served_def wf_defs increment_cycle_counters_def increment_class_cycle_counter_def
    start_sleep_cycle_count_def stop_sleep_cycle_count_def error_activate_deactivate_def sleep_start_event_def
    sleep_stop_event_def update_sleep_energy_def rbind_eq_Inr_iff aset_eq_Inr_iff dest: add_classes_length)

text \<open>By how much the energies stored at checkpoints differ from the cycles counted until then.\<close>

definition energy_offsets :: "vstate \<Rightarrow> u64 list" where
  "energy_offsets st =
     [prev_data_proc_insn_energy st - cycle_count_chkpt_data_proc st,
      prev_branch_insn_energy st - cycle_count_chkpt_branch st,
      prev_multiply_insn_energy st - cycle_count_chkpt_multiply st,
      prev_ldst_insn_energy st - cycle_count_chkpt_ldst st,
      prev_misc_insn_energy st - cycle_count_chkpt_misc st]"

definition group_energies :: "energy_counter \<Rightarrow> u64 list" where
  "group_energies e = [data_proc_energy e, branch_energy e, multiply_energy e, ldst_energy e, misc_energy e]"

definition group_counts :: "vstate \<Rightarrow> u64 list" where
  "group_counts st = map (group_count st) [0..<5]"

lemma group_counts_eq:
  "group_counts st = [total_data_proc_cycle_count st, total_branch_cycle_count st, total_multiply_cycle_count st,
     total_ldst_cycle_count st, total_misc_cycle_count st]"
  by (simp add: group_counts_def group_count_def upt_rec)

lemma active_energy_offsets:
  assumes "served st" "wf_energy r"
  shows "\<exists>e. calculate_active_energy st r = Inr e \<and> group_energies e = map2 (+) (group_counts st) (energy_offsets st)"
  using assms fpm.calculate_active_energy_eq[of st r]
  by (simp add: served_def group_energies_def group_counts_eq energy_offsets_def)

lemma offsets_checkpoint: "served st \<Longrightarrow> take_checkpoint st = Inr st' \<Longrightarrow> energy_offsets st' = energy_offsets st"
  using take_checkpoint_eq[of st] by (auto simp: served_def energy_offsets_def checkpointed_def)

lemma offsets_vstep:
  assumes "vstep st st'" "served st"
  shows "energy_offsets st' = energy_offsets st"
  using assms
proof (cases rule: vstep.cases)
  case freq_change
  then show ?thesis using assms(2) by (simp add: offsets_checkpoint)
qed (auto simp: energy_offsets_def increment_cycle_counters_def increment_class_cycle_counter_def
    start_sleep_cycle_count_def stop_sleep_cycle_count_def error_activate_deactivate_def sleep_start_event_def
    sleep_stop_event_def update_sleep_energy_def rbind_eq_Inr_iff served_def Let_def)

text \<open>The accounting as the command line leaves it when the board starts.\<close>

definition configured :: "insn_table option \<Rightarrow> qobject qdict \<Rightarrow> cycle_counter \<Rightarrow> energy_counter \<Rightarrow> vstate" where
  "configured m d c e = (class_info_init d (vstate_init c e))\<lparr>insn_map := m\<rparr>"

inductive ssys_reach :: "vstate \<Rightarrow> ssys_world \<Rightarrow> bool" for st0 where
  board_start: "stellaris_boot board mac st0 = Inr w \<Longrightarrow> ssys_reach st0 w"
| guest_write: "ssys_reach st0 w \<Longrightarrow> ssys_write off v w = Inr w' \<Longrightarrow> ssys_reach st0 w'"
| runs: "ssys_reach st0 w \<Longrightarrow> vstep (accounting w) st' \<Longrightarrow> ssys_reach st0 (w\<lparr>accounting := st'\<rparr>)"

lemma boot_checkpoint:
  assumes "wf_vstate st" "curr_power_model st = None"
  shows "\<exists>st'. frequency_change_handler s st = Inr st' \<and> wf_vstate st' \<and>
    energy_offsets st' = map2 (-) (map2 (+)
      [prev_data_proc_insn_energy st, prev_branch_insn_energy st, prev_multiply_insn_energy st, prev_ldst_insn_energy st, prev_misc_insn_energy st]
      [data_proc_energy (stale_energy st), branch_energy (stale_energy st), multiply_energy (stale_energy st),
       ldst_energy (stale_energy st), misc_energy (stale_energy st)])
      [total_data_proc_cycle_count st, total_branch_cycle_count st, total_multiply_cycle_count st,
       total_ldst_cycle_count st, total_misc_cycle_count st]"
proof -
  let ?n = "classes st"
  have l: "?n \<le> 6" "length (total_cycle_count st) = 6" "length (prev_insn_exec_energy st) = 6"
    "length (cycle_count_chkpt st) = 6" "length (cycle_count (stale_cycles st)) = 6" "length (insn_energy (stale_energy st)) = 6"
    using assms(1) by (simp_all add: wf_defs MAX_INSN_CLASSES_def)
  have r: "read_all_cycle_counters st (stale_cycles st) = Inr ((stale_cycles st)\<lparr>data_proc_cycles := total_data_proc_cycle_count st,
            branch_cycles := total_branch_cycle_count st, multiply_cycles := total_multiply_cycle_count st,
            ldst_cycles := total_ldst_cycle_count st, misc_cycles := total_misc_cycle_count st,
            cycle_count := take ?n (total_cycle_count st) @ drop ?n (cycle_count (stale_cycles st))\<rparr>)"
    using assms(1) by (intro read_all_cycle_counters_eq) (simp_all add: wf_vstate_def)
  show ?thesis
    unfolding frequency_change_handler_eq[OF assms(1)] take_checkpoint_def r rbind_Inr
    using l assms(2)
    by (simp add: freq_changed_set_chkpt_def accumulate_energy_def copy_classes_eq Let_def)
      (simp add: wf_defs MAX_INSN_CLASSES_def energy_offsets_def)
qed

lemma boot_state:
  assumes "wf_cycles c" "wf_energy e" "qdict_size d \<le> MAX_INSN_CLASSES"
    and "stellaris_boot board mac (configured m d c e) = Inr w"
  shows "served (accounting w) \<and> wf_ssys (sysctl w) \<and> ssys_line (sysctl w) \<and> system_clock_scale w = 0 \<and>
    energy_offsets (accounting w) =
      [data_proc_energy e, branch_energy e, multiply_energy e, ldst_energy e, misc_energy e]"
proof -
  have wf: "wf_vstate (configured m' d c e)" for m'
    using vinv_boot[OF assms(1-3)]
    by (simp add: vinv_def configured_def wf_defs power_init_def power_model_init_def)
  have f: "curr_power_model (configured m' d c e) = None" "(configured m d c e)\<lparr>insn_map := m'\<rparr> = configured m' d c e"
    "stale_energy (configured m' d c e) = e" for m'
    by (simp_all add: configured_def class_info_init_def vstate_init_def)
  obtain m' where b: "rbind (stellaris_sys_init board mac (configured m' d c e) 0) (\<lambda>w.
     rbind (stellaris_var_mod_init (accounting w)) (\<lambda>st'. Inr (w\<lparr>accounting := st'\<rparr>))) = Inr w"
    using assms(4) by (auto simp: stellaris_boot_def rbind_eq_Inr_iff f)
  define s0 where "s0 = \<lparr>pborctl = 0x7ffd, ldopctl = 0, int_status = 0, int_mask = 0, resc = 0, rcc = 0x078e3ac0,
         rcgc = [1, 0, 0], scgc = [1, 0, 0], dcgc = [1, 0, 0], clkvclr = 0, ldoarst = 0,
         user0 = mac_word (mac ! 0) (mac ! 1) (mac ! 2), user1 = mac_word (mac ! 3) (mac ! 4) (mac ! 5),
         ssys_irq = False, ssys_board = board\<rparr>"
  obtain st1 where st1: "frequency_change_handler s0 (configured m' d c e) = Inr st1" "wf_vstate st1"
    and o: "energy_offsets st1 = [data_proc_energy e, branch_energy e, multiply_energy e, ldst_energy e, misc_energy e]"
    using boot_checkpoint[OF wf f(1), of s0] by (auto simp: f configured_def class_info_init_def vstate_init_def)
  have i: "stellaris_sys_init board mac (configured m' d c e) 0 = Inr \<lparr>sysctl = s0, accounting = st1, system_clock_scale = 0\<rparr>"
    using st1(1) by (simp add: stellaris_sys_init_def ssys_reset_def s0_def)
  obtain st2 where st2: "reset_all_cycle_counters st1 = Inr st2" "wf_vstate st2" "energy_offsets st2 = energy_offsets st1"
    using st1(2) by (simp add: reset_all_cycle_counters_eq wf_defs energy_offsets_def)
  have "w = \<lparr>sysctl = s0, accounting = power_init st2, system_clock_scale = 0\<rparr>"
    using b unfolding i by (simp add: stellaris_var_mod_init_def stellaris_var_mod_reset_def st2(1))
  moreover have "served (power_init st2)" "energy_offsets (power_init st2) = energy_offsets st2"
    using st2(2) by (simp_all add: served_def power_init_def power_model_init_def wf_defs energy_offsets_def)
  ultimately show ?thesis using o st2(3) by (simp add: s0_def wf_ssys_def ssys_line_def)
qed

lemma ssys_reach_inv:
  assumes "wf_cycles c" "wf_energy e" "qdict_size d \<le> MAX_INSN_CLASSES" "ssys_reach (configured m d c e) w"
  shows "served (accounting w) \<and> wf_ssys (sysctl w) \<and> ssys_line (sysctl w) \<and>
    (system_clock_scale w = 0 \<or> (\<exists>n<16. system_clock_scale w = of_nat (5 * (n + 1)))) \<and>
    energy_offsets (accounting w) =
      [data_proc_energy e, branch_energy e, multiply_energy e, ldst_energy e, misc_energy e]"
  using assms(4)
proof (induction rule: ssys_reach.induct)
  case (board_start board mac w)
  then show ?case using boot_state[OF assms(1-3)] by blast
next
  case (guest_write w off v w')
  show ?case
  proof (cases "off = 0x60")
    case True
    then have w: "ssys_write 0x60 v w = Inr w'" using guest_write by simp
    have s: "served (accounting w)" using guest_write by simp
    have k: "wf_ssys (sysctl w') \<and> ssys_line (sysctl w') \<and> system_clock_scale w' = of_nat (5 * (divider v + 1))"
      and t: "accounting w' = accounting w \<or> take_checkpoint (accounting w) = Inr (accounting w')"
      using ssys_write_rcc[OF s, of v] w guest_write.IH by (auto simp: ssys_line_def split: if_splits)
    have "served (accounting w') \<and> energy_offsets (accounting w') = energy_offsets (accounting w)"
      using t s served_vstep[OF vstep.freq_change] offsets_checkpoint by metis
    with k divider_less guest_write.IH show ?thesis by auto
  next
    case False
    then obtain s where s: "ssys_write_reg off v (sysctl w) = Inr s" "sysctl w' = ssys_update s"
      and a: "accounting w' = accounting w" "system_clock_scale w' = system_clock_scale w"
      using ssys_write_other guest_write.hyps by blast
    have "wf_ssys s \<and> int_mask s AND 0x7f = int_mask s"
      using ssys_write_reg_ok[OF _ _ s(1)] guest_write.IH by (simp add: ssys_line_def)
    with s(2) a guest_write.IH show ?thesis by (auto simp: ssys_line_def ssys_update_def wf_ssys_def)
  qed
next
  case (runs w st')
  then show ?case using served_vstep offsets_vstep by auto
qed

section \<open>Properties\<close>

text \<open>C31: in every state a Stellaris board can reach, the interrupt line of the system controller is high exactly
  if an unmasked interrupt is pending, the clock scale is still unset or a multiple of five from 5 to 80, and
  register accesses fail only with the error for unimplemented offsets: no table or array is left.\<close>

theorem stellaris_sys_invariant:
  assumes "wf_cycles c" "wf_energy e" "qdict_size d \<le> MAX_INSN_CLASSES" "ssys_reach (configured m d c e) w"
  shows "ssys_irq (sysctl w) = (int_status (sysctl w) AND int_mask (sysctl w) \<noteq> 0) \<and>
    (system_clock_scale w = 0 \<or> (\<exists>n<16. system_clock_scale w = of_nat (5 * (n + 1)))) \<and>
    (\<forall>off v x. ssys_write off v w = Inl x \<or> ssys_read off (sysctl w) = Inl x \<longrightarrow> x = Hw_Error)"
proof -
  have i: "served (accounting w)" "wf_ssys (sysctl w)" "ssys_line (sysctl w)"
    "system_clock_scale w = 0 \<or> (\<exists>n<16. system_clock_scale w = of_nat (5 * (n + 1)))"
    using ssys_reach_inv[OF assms] by simp_all
  have "x = Hw_Error" if "ssys_write off v w = Inl x" for off v x
  proof (cases "off = 0x60")
    case True
    then show ?thesis using that ssys_write_rcc[OF i(1), of v] by auto
  next
    case False
    then have "ssys_write_reg off v (sysctl w) = Inl x"
      using that by (cases "ssys_write_reg off v (sysctl w)") (auto simp: ssys_write_def)
    then show ?thesis by (rule ssys_write_reg_fault[OF i(2)])
  qed
  moreover have "x = Hw_Error" if "ssys_read off (sysctl w) = Inl x" for off x
    using that ssys_read_fault[OF i(2)] by blast
  ultimately show ?thesis using i(3,4) unfolding ssys_line_def by blast
qed

text \<open>A board with three classes and no instruction table, for the witnesses.\<close>

definition sample_mac :: "u8 list" where "sample_mac = [0x52, 0x54, 0x00, 0x12, 0x34, 0x56]"

definition sample_config :: vstate where
  "sample_config = configured None (Qdict 3 []) sample_cycles sample_energy"

lemma sample_boot: "\<exists>w. stellaris_boot (stellaris_boards ! 1) sample_mac sample_config = Inr w"
proof -
  have "case stellaris_boot (stellaris_boards ! 1) sample_mac sample_config of Inr _ \<Rightarrow> True | Inl _ \<Rightarrow> False"
    by code_simp
  then show ?thesis by (auto split: sum.splits)
qed

lemma sample_three: "qdict_size (Qdict 3 [] :: qobject qdict) \<le> MAX_INSN_CLASSES"
  by (simp add: qdict_size_def MAX_INSN_CLASSES_def)

theorem stellaris_sys_invariant_witness:
  "\<exists>w. ssys_reach sample_config w \<and>
     ssys_irq (sysctl w) = (int_status (sysctl w) AND int_mask (sysctl w) \<noteq> 0) \<and>
     (\<forall>x. ssys_write 0x1e0 1 w = Inl x \<longrightarrow> x = Hw_Error)"
proof -
  obtain w where w: "ssys_reach sample_config w" using sample_boot ssys_reach.board_start by blast
  from stellaris_sys_invariant[OF sample_wf sample_three w[unfolded sample_config_def]] w show ?thesis by blast
qed

text \<open>C5: a clock change takes a checkpoint: the running interval starts again at zero while the energy reported
  for the five instruction groups and the cycle counts stay as they were, and the new clock scale follows the divider.\<close>

theorem ssys_clock_change:
  assumes "served (accounting w)" "wf_energy r" "v \<noteq> rcc (sysctl w)"
  shows "\<exists>w' e e'. ssys_write 0x60 v w = Inr w' \<and> rcc (sysctl w') = v \<and>
    system_clock_scale w' = of_nat (5 * (divider v + 1)) \<and>
    calculate_active_energy (accounting w) r = Inr e \<and> calculate_active_energy (accounting w') r = Inr e' \<and>
    group_energies e' = group_energies e \<and> group_counts (accounting w') = group_counts (accounting w) \<and>
    cycle_count_chkpt_data_proc (accounting w') = total_data_proc_cycle_count (accounting w')"
proof -
  obtain w' where w': "ssys_write 0x60 v w = Inr w'" "rcc (sysctl w') = v"
    "system_clock_scale w' = of_nat (5 * (divider v + 1))" "take_checkpoint (accounting w) = Inr (accounting w')"
    using ssys_write_rcc[OF assms(1), of v] assms(3) by auto
  have s: "wf_vstate (accounting w)" "curr_power_model (accounting w) = Some First_pwr_model"
    using assms(1) by (simp_all add: served_def)
  have s': "served (accounting w')" using served_vstep[OF vstep.freq_change[OF w'(4)] assms(1)] .
  obtain fr where "accounting w' = checkpointed fr (accounting w)"
    using take_checkpoint_eq[OF s] w'(4) by auto
  then have c: "group_counts (accounting w') = group_counts (accounting w)"
    "cycle_count_chkpt_data_proc (accounting w') = total_data_proc_cycle_count (accounting w')"
    by (simp_all add: checkpointed_def group_counts_eq)
  have "energy_offsets (accounting w') = energy_offsets (accounting w)"
    by (rule offsets_checkpoint[OF assms(1) w'(4)])
  with active_energy_offsets[OF assms(1,2)] active_energy_offsets[OF s' assms(2)] c w'(1-3)
  show ?thesis by auto
qed

theorem ssys_clock_change_witness:
  "\<exists>w w'. ssys_reach sample_config w \<and> ssys_write 0x60 0x00c00000 w = Inr w' \<and> system_clock_scale w' = 10"
proof -
  obtain w where b: "stellaris_boot (stellaris_boards ! 1) sample_mac sample_config = Inr w" using sample_boot by blast
  then have w: "ssys_reach sample_config w" by (rule ssys_reach.board_start)
  have "case stellaris_boot (stellaris_boards ! 1) sample_mac sample_config of Inr w \<Rightarrow> rcc (sysctl w) = 0x078e3ac0 | Inl _ \<Rightarrow> False"
    by code_simp
  then have "0x00c00000 \<noteq> rcc (sysctl w)" unfolding b by simp
  moreover have "served (accounting w)"
    using ssys_reach_inv[OF sample_wf sample_three w[unfolded sample_config_def]] by simp
  ultimately have "\<exists>w'. ssys_write 0x60 0x00c00000 w = Inr w' \<and> system_clock_scale w' = of_nat (5 * (divider 0x00c00000 + 1))"
    using ssys_clock_change[OF _ sample_wf(2), of w "0x00c00000"] by blast
  moreover have "divider 0x00c00000 = 1" by (simp add: divider_def)
  ultimately show ?thesis using w by auto
qed

text \<open>C3: at board start the system controller takes its first checkpoint before the power model is
  installed, so an uninitialised energy record enters the accounts; on a Stellaris board the energy reported
  for each instruction group then is, for ever, the cycles counted plus that arbitrary amount.\<close>

theorem stellaris_energy_offset:
  assumes "wf_cycles c" "wf_energy e" "qdict_size d \<le> MAX_INSN_CLASSES" "ssys_reach (configured m d c e) w"
    and "wf_energy r"
  shows "\<exists>x. calculate_active_energy (accounting w) r = Inr x \<and>
    group_energies x = map2 (+) (group_counts (accounting w)) (group_energies e)"
  using active_energy_offsets[of "accounting w" r] ssys_reach_inv[OF assms(1-4)] assms(5)
  by (simp add: group_energies_def)

theorem stellaris_energy_offset_witness:
  "\<exists>w x. ssys_reach sample_config w \<and> calculate_active_energy (accounting w) sample_energy = Inr x \<and>
     group_energies x = map2 (+) (group_counts (accounting w)) [5, 5, 5, 5, 5]"
proof -
  obtain w where w: "ssys_reach sample_config w" using sample_boot ssys_reach.board_start by blast
  have "group_energies sample_energy = [5, 5, 5, 5, 5]" by (simp add: group_energies_def sample_energy_def)
  with stellaris_energy_offset[OF sample_wf sample_three w[unfolded sample_config_def] sample_wf(2)] w
  show ?thesis by auto
qed

text \<open>C8: two clock changes with nothing executed in between erase the energy of every instruction class.\<close>

theorem ssys_changes_lose_classes:
  assumes "served (accounting w)" "v \<noteq> rcc (sysctl w)" "v' \<noteq> v" "i < classes (accounting w)"
  shows "\<exists>w1 w2. ssys_write 0x60 v w = Inr w1 \<and> ssys_write 0x60 v' w1 = Inr w2 \<and> class_energy (accounting w2) i = 0"
proof -
  obtain w1 where w1: "ssys_write 0x60 v w = Inr w1" "rcc (sysctl w1) = v" "take_checkpoint (accounting w) = Inr (accounting w1)"
    using ssys_write_rcc[OF assms(1), of v] assms(2) by auto
  have s1: "served (accounting w1)" using served_vstep[OF vstep.freq_change[OF w1(3)] assms(1)] .
  obtain w2 where w2: "ssys_write 0x60 v' w1 = Inr w2" "take_checkpoint (accounting w1) = Inr (accounting w2)"
    using ssys_write_rcc[OF s1, of v'] w1(2) assms(3) by auto
  have s: "wf_vstate (accounting w)" "curr_power_model (accounting w) = Some First_pwr_model"
    "wf_vstate (accounting w1)" "curr_power_model (accounting w1) = Some First_pwr_model"
    using assms(1) s1 by (simp_all add: served_def)
  obtain f1 f2 where "accounting w1 = checkpointed f1 (accounting w)" "accounting w2 = checkpointed f2 (accounting w1)"
    using take_checkpoint_eq[OF s(1,2)] take_checkpoint_eq[OF s(3,4)] w1(3) w2(2) by auto
  then have "class_energy (accounting w2) i = 0"
    using assms(4) s(1) by (simp add: class_energy_def checkpointed_def nth_append wf_defs MAX_INSN_CLASSES_def)
  then show ?thesis using w1(1) w2(1) by blast
qed

theorem ssys_changes_lose_classes_witness:
  "class_energy sample_run 0 = 4 \<and>
   (\<exists>w w1 w2. accounting w = sample_run \<and> ssys_write 0x60 1 w = Inr w1 \<and> ssys_write 0x60 2 w1 = Inr w2 \<and>
      class_energy (accounting w2) 0 = 0)"
proof -
  obtain w0 where "ssys_reach sample_config w0" using sample_boot ssys_reach.board_start by blast
  define w where "w = w0\<lparr>sysctl := (sysctl w0)\<lparr>rcc := 0\<rparr>, accounting := sample_run\<rparr>"
  have "served (accounting w)" by (simp add: w_def served_reachable[OF sample_run_reachable])
  moreover have "0 < classes (accounting w)" by (simp add: w_def sample_run_def sample_state_fields)
  ultimately obtain w1 w2 where "ssys_write 0x60 1 w = Inr w1" "ssys_write 0x60 2 w1 = Inr w2"
    "class_energy (accounting w2) 0 = 0"
    using ssys_changes_lose_classes[of w 1 2 0] by (auto simp: w_def)
  moreover have "class_energy sample_run 0 = 4" by code_simp
  moreover have "accounting w = sample_run" by (simp add: w_def)
  ultimately show ?thesis by blast
qed

end
