(* ===== verification/Stellaris_Timer.thy ===== *)
theory Stellaris_Timer
  imports Vemu_Prelude
begin

text \<open>
  The general purpose timer of the Stellaris boards (\<^verbatim>\<open>hw/stellaris.c\<close>, the
  \<^verbatim>\<open>gptm_*\<close> functions). A \<^verbatim>\<open>QEMUTimer\<close> is the time at which it fires, if it is
  pending. The interrupt line is the level last driven on it; the trigger line keeps
  the sequence of levels driven on it, because a pulse is two of them. The virtual
  clock and the global \<^verbatim>\<open>system_clock_scale\<close> are arguments.
\<close>

record gptm_state =
  gptm_config :: u32
  gptm_mode :: "u32 list"
  gptm_control :: u32
  gptm_raw :: u32
  gptm_mask :: u32
  gptm_load :: "u32 list"
  gptm_match :: "u32 list"
  gptm_prescale :: "u32 list"
  gptm_match_prescale :: "u32 list"
  gptm_rtc :: u32
  gptm_ticks :: "i64 list"
  gptm_timer :: "i64 option list"
  gptm_trigger :: "bool list"
  gptm_irq :: bool

definition ticks_per_sec :: i64 where
  "ticks_per_sec = 1000000000"

definition gptm_init :: gptm_state where
  "gptm_init = \<lparr>gptm_config = 0, gptm_mode = [0, 0], gptm_control = 0, gptm_raw = 0, gptm_mask = 0,
     gptm_load = [0, 0], gptm_match = [0, 0], gptm_prescale = [0, 0], gptm_match_prescale = [0, 0],
     gptm_rtc = 0, gptm_ticks = [0, 0], gptm_timer = [None, None], gptm_trigger = [],
     gptm_irq = False\<rparr>"

section \<open>Operations\<close>

definition gptm_update_irq :: "gptm_state \<Rightarrow> gptm_state" where
  "gptm_update_irq s = s\<lparr>gptm_irq := gptm_raw s AND gptm_mask s \<noteq> 0\<rparr>"

definition gptm_stop :: "nat \<Rightarrow> gptm_state \<Rightarrow> gptm_state" where
  "gptm_stop n s = s\<lparr>gptm_timer := (gptm_timer s)[n := None]\<rparr>"

definition gptm_reload :: "i32 \<Rightarrow> i64 \<Rightarrow> nat \<Rightarrow> bool \<Rightarrow> gptm_state \<Rightarrow> gptm_state result" where
  "gptm_reload system_clock_scale now n reset s =
     (let tick = if reset then now else gptm_ticks s ! n in
      rbind (if gptm_config s = 0 then
               let count = gptm_load s ! 0 OR push_bit 16 (gptm_load s ! 1) in
               Inr (tick + ucast count * scast system_clock_scale)
             else if gptm_config s = 1 then Inr (tick + ticks_per_sec)
             else if gptm_mode s ! n = 0xa then Inr tick
             else Inl Hw_Error)
        (\<lambda>tick. Inr (s\<lparr>gptm_ticks := (gptm_ticks s)[n := tick],
                        gptm_timer := (gptm_timer s)[n := Some tick]\<rparr>)))"

text \<open>\<^verbatim>\<open>qemu_irq_pulse\<close> drives the line high, then low.\<close>

definition trigger_pulse :: "gptm_state \<Rightarrow> gptm_state" where
  "trigger_pulse s = s\<lparr>gptm_trigger := gptm_trigger s @ [True, False]\<rparr>"

definition gptm_tick :: "i32 \<Rightarrow> i64 \<Rightarrow> nat \<Rightarrow> gptm_state \<Rightarrow> gptm_state result" where
  "gptm_tick system_clock_scale now n s =
     rbind
       (if gptm_config s = 0 then
          let s = s\<lparr>gptm_raw := gptm_raw s OR 1\<rparr>;
              s = if gptm_control s AND 0x20 \<noteq> 0 then trigger_pulse s else s
          in if gptm_mode s ! 0 AND 1 \<noteq> 0
             then Inr (s\<lparr>gptm_control := gptm_control s AND NOT 1\<rparr>)
             else gptm_reload system_clock_scale now 0 False s
        else if gptm_config s = 1 then
          let s = s\<lparr>gptm_rtc := gptm_rtc s + 1\<rparr>;
              m = gptm_match s ! 0 OR push_bit 16 (gptm_match s ! 1);
              s = if m < gptm_rtc s then s\<lparr>gptm_rtc := 0\<rparr> else s;
              s = if gptm_rtc s = 0 then s\<lparr>gptm_raw := gptm_raw s OR 8\<rparr> else s
          in gptm_reload system_clock_scale now 0 False s
        else if gptm_mode s ! n = 0xa then Inr s
        else Inl Hw_Error)
       (\<lambda>s. Inr (gptm_update_irq s))"

definition gptm_read :: "u32 \<Rightarrow> gptm_state \<Rightarrow> u32 result" where
  "gptm_read offset s =
     (if offset = 0x00 then Inr (gptm_config s)
      else if offset = 0x04 then Inr (gptm_mode s ! 0)
      else if offset = 0x08 then Inr (gptm_mode s ! 1)
      else if offset = 0x0c then Inr (gptm_control s)
      else if offset = 0x18 then Inr (gptm_mask s)
      else if offset = 0x1c then Inr (gptm_raw s)
      else if offset = 0x20 then Inr (gptm_raw s AND gptm_mask s)
      else if offset = 0x24 then Inr 0
      else if offset = 0x28 then
        Inr (gptm_load s ! 0 OR (if gptm_config s < 4 then push_bit 16 (gptm_load s ! 1) else 0))
      else if offset = 0x2c then Inr (gptm_load s ! 1)
      else if offset = 0x30 then
        Inr (gptm_match s ! 0 OR (if gptm_config s < 4 then push_bit 16 (gptm_match s ! 1) else 0))
      else if offset = 0x34 then Inr (gptm_match s ! 1)
      else if offset = 0x38 then Inr (gptm_prescale s ! 0)
      else if offset = 0x3c then Inr (gptm_prescale s ! 1)
      else if offset = 0x40 then Inr (gptm_match_prescale s ! 0)
      else if offset = 0x44 then Inr (gptm_match_prescale s ! 1)
      else if offset = 0x48 \<and> gptm_control s = 1 then Inr (gptm_rtc s)
      else Inl Hw_Error)"

text \<open>The write to the control register, which starts and stops the two timers.\<close>

definition gptm_write_ctl :: "i32 \<Rightarrow> i64 \<Rightarrow> u32 \<Rightarrow> gptm_state \<Rightarrow> gptm_state result" where
  "gptm_write_ctl system_clock_scale now val s =
     (let oldval = gptm_control s;
          s = s\<lparr>gptm_control := val\<rparr>
      in rbind
        (if (oldval XOR val) AND 1 \<noteq> 0 then
           if val AND 1 \<noteq> 0 then gptm_reload system_clock_scale now 0 True s
           else Inr (gptm_stop 0 s)
         else Inr s) (\<lambda>s.
        if (oldval XOR val) AND 0x100 \<noteq> 0 \<and> 4 \<le> gptm_config s then
          if val AND 0x100 \<noteq> 0 then gptm_reload system_clock_scale now 1 True s
          else Inr (gptm_stop 1 s)
        else Inr s))"

definition gptm_write :: "i32 \<Rightarrow> i64 \<Rightarrow> u32 \<Rightarrow> u32 \<Rightarrow> gptm_state \<Rightarrow> gptm_state result" where
  "gptm_write system_clock_scale now offset val s =
     rbind
       (if offset = 0x00 then Inr (s\<lparr>gptm_config := val\<rparr>)
        else if offset = 0x04 then Inr (s\<lparr>gptm_mode := (gptm_mode s)[0 := val]\<rparr>)
        else if offset = 0x08 then Inr (s\<lparr>gptm_mode := (gptm_mode s)[1 := val]\<rparr>)
        else if offset = 0x0c then gptm_write_ctl system_clock_scale now val s
        else if offset = 0x18 then Inr (gptm_update_irq (s\<lparr>gptm_mask := val AND 0x77\<rparr>))
        else if offset = 0x24 then Inr (s\<lparr>gptm_raw := gptm_raw s AND NOT val\<rparr>)
        else if offset = 0x28 then
          let s = s\<lparr>gptm_load := (gptm_load s)[0 := val AND 0xffff]\<rparr> in
          Inr (if gptm_config s < 4 then s\<lparr>gptm_load := (gptm_load s)[1 := drop_bit 16 val]\<rparr> else s)
        else if offset = 0x2c then Inr (s\<lparr>gptm_load := (gptm_load s)[1 := val AND 0xffff]\<rparr>)
        else if offset = 0x30 then
          let s = s\<lparr>gptm_match := (gptm_match s)[0 := val AND 0xffff]\<rparr> in
          Inr (if gptm_config s < 4 then s\<lparr>gptm_match := (gptm_match s)[1 := drop_bit 16 val]\<rparr> else s)
        else if offset = 0x34 then Inr (s\<lparr>gptm_match := (gptm_match s)[1 := drop_bit 16 val]\<rparr>)
        else if offset = 0x38 then Inr (s\<lparr>gptm_prescale := (gptm_prescale s)[0 := val]\<rparr>)
        else if offset = 0x3c then Inr (s\<lparr>gptm_prescale := (gptm_prescale s)[1 := val]\<rparr>)
        else if offset = 0x40 then Inr (s\<lparr>gptm_match_prescale := (gptm_match_prescale s)[0 := val]\<rparr>)
        else if offset = 0x44 then Inr (s\<lparr>gptm_match_prescale := (gptm_match_prescale s)[0 := val]\<rparr>)
        else Inl Hw_Error)
       (\<lambda>s. Inr (gptm_update_irq s))"

section \<open>Runs\<close>

text \<open>
  The guest writes registers; a pending timer that is due is taken off the list and its
  callback runs.
\<close>

inductive gptm_step :: "gptm_state \<Rightarrow> gptm_state \<Rightarrow> bool" where
  guest_write: "gptm_write sc now off v s = Inr s' \<Longrightarrow> gptm_step s s'"
| expire: "n < 2 \<Longrightarrow> gptm_timer s ! n = Some t \<Longrightarrow> sint t \<le> sint now \<Longrightarrow>
           gptm_tick sc now n (gptm_stop n s) = Inr s' \<Longrightarrow> gptm_step s s'"

inductive gptm_reachable :: "gptm_state \<Rightarrow> bool" where
  init: "gptm_reachable gptm_init"
| step: "gptm_reachable s \<Longrightarrow> gptm_step s s' \<Longrightarrow> gptm_reachable s'"

definition gptm_sized :: "gptm_state \<Rightarrow> bool" where
  "gptm_sized s \<longleftrightarrow> length (gptm_mode s) = 2 \<and> length (gptm_load s) = 2 \<and> length (gptm_match s) = 2 \<and>
     length (gptm_prescale s) = 2 \<and> length (gptm_match_prescale s) = 2 \<and>
     length (gptm_ticks s) = 2 \<and> length (gptm_timer s) = 2"

definition half_word :: "u32 \<Rightarrow> bool" where
  "half_word w \<longleftrightarrow> w AND 0xffff = w"

definition gptm_inv :: "gptm_state \<Rightarrow> bool" where
  "gptm_inv s \<longleftrightarrow> gptm_sized s \<and> gptm_irq s = (gptm_raw s AND gptm_mask s \<noteq> 0) \<and>
     gptm_mask s AND 0x77 = gptm_mask s \<and>
     list_all half_word (gptm_load s) \<and> list_all half_word (gptm_match s)"

lemma half_word_mask [simp]: "half_word (w AND 0xffff)"
  by (simp add: half_word_def and.assoc)

lemma half_word_drop [simp]: "half_word (drop_bit 16 w)"
proof -
  have "drop_bit 16 w AND mask 16 = drop_bit 16 w"
    by (rule bit_word_eqI) (auto simp: bit_simps dest: bit_imp_le_length)
  then show ?thesis by (simp add: half_word_def mask_eq_exp_minus_1)
qed

lemma split_halves: "(w AND 0xffff) OR push_bit 16 (drop_bit 16 w) = (w :: u32)"
proof -
  have "(w AND mask 16) OR push_bit 16 (drop_bit 16 w) = w"
    by (rule bit_word_eqI) (metis (no_types, lifting) add_diff_inverse_nat bit_and_iff bit_drop_bit_eq
        bit_mask_iff bit_or_iff bit_push_bit_iff comp_apply not_less possible_bit_word)
  then show ?thesis by (simp add: mask_eq_exp_minus_1)
qed

lemma list_all_update: "list_all P xs \<Longrightarrow> P v \<Longrightarrow> list_all P (xs[i := v])"
  by (auto simp: list_all_iff dest: set_update_subset_insert[THEN subsetD])

text \<open>Everything but the interrupt line.\<close>

definition gptm_data_ok :: "gptm_state \<Rightarrow> bool" where
  "gptm_data_ok s \<longleftrightarrow> gptm_sized s \<and> gptm_mask s AND 0x77 = gptm_mask s \<and>
     list_all half_word (gptm_load s) \<and> list_all half_word (gptm_match s)"

lemmas gptm_ok_defs = gptm_data_ok_def gptm_sized_def

lemma gptm_inv_update: "gptm_data_ok s \<Longrightarrow> gptm_inv (gptm_update_irq s)"
  by (simp add: gptm_inv_def gptm_ok_defs gptm_update_irq_def)

lemma gptm_inv_data: "gptm_inv s \<Longrightarrow> gptm_data_ok s"
  by (simp add: gptm_inv_def gptm_data_ok_def)

lemma gptm_stop_data: "gptm_data_ok s \<Longrightarrow> gptm_data_ok (gptm_stop n s)"
  by (simp add: gptm_ok_defs gptm_stop_def)

lemma gptm_reload_data: "gptm_data_ok s \<Longrightarrow> ensures gptm_data_ok (gptm_reload sc now n r s)"
  by (simp add: gptm_reload_def Let_def ensures_rules gptm_ok_defs)

lemma gptm_write_ctl_data: "gptm_data_ok s \<Longrightarrow> ensures gptm_data_ok (gptm_write_ctl sc now v s)"
proof -
  assume "gptm_data_ok s"
  then have "gptm_data_ok (s\<lparr>gptm_control := v\<rparr>)" by (simp add: gptm_ok_defs)
  then have "ensures gptm_data_ok (if (gptm_control s XOR v) AND 1 \<noteq> 0 then
      if v AND 1 \<noteq> 0 then gptm_reload sc now 0 True (s\<lparr>gptm_control := v\<rparr>)
      else Inr (gptm_stop 0 (s\<lparr>gptm_control := v\<rparr>)) else Inr (s\<lparr>gptm_control := v\<rparr>))"
    by (simp add: gptm_stop_data gptm_reload_data)
  then show ?thesis
    unfolding gptm_write_ctl_def Let_def ensures_rbind
    by (rule ensures_mono) (simp add: gptm_stop_data gptm_reload_data)
qed

lemma gptm_write_inv: "gptm_data_ok s \<Longrightarrow> ensures gptm_inv (gptm_write sc now off v s)"
proof -
  assume d: "gptm_data_ok s"
  show ?thesis
    unfolding gptm_write_def ensures_rbind ensures_Inr
    by (rule ensures_mono[OF _ gptm_inv_update])
      (use d gptm_write_ctl_data[OF d] in \<open>simp_all add: ensures_if Let_def split del: if_split\<close>,
       auto simp: gptm_ok_defs gptm_update_irq_def list_all_update and.assoc)
qed

lemma gptm_data_ok_frame:
  "gptm_data_ok (s\<lparr>gptm_raw := a\<rparr>) = gptm_data_ok s"
  "gptm_data_ok (s\<lparr>gptm_control := a\<rparr>) = gptm_data_ok s"
  "gptm_data_ok (s\<lparr>gptm_rtc := a\<rparr>) = gptm_data_ok s"
  "gptm_data_ok (s\<lparr>gptm_trigger := b\<rparr>) = gptm_data_ok s"
  by (simp_all add: gptm_ok_defs)

lemma gptm_tick_inv: "gptm_data_ok s \<Longrightarrow> ensures gptm_inv (gptm_tick sc now n s)"
  unfolding gptm_tick_def ensures_rbind ensures_Inr Let_def trigger_pulse_def
  by (rule ensures_mono[OF _ gptm_inv_update])
    (auto intro!: gptm_reload_data simp: gptm_data_ok_frame)

lemma gptm_reachable_inv: "gptm_reachable s \<Longrightarrow> gptm_inv s"
proof (induction rule: gptm_reachable.induct)
  case init
  show ?case by (simp add: gptm_inv_def gptm_init_def gptm_sized_def half_word_def)
next
  case (step s s')
  from step.hyps(2) show ?case
  proof cases
    case guest_write
    then show ?thesis using gptm_write_inv[OF gptm_inv_data[OF step.IH]] by (rule ensuresD[rotated])
  next
    case expire
    then show ?thesis
      using gptm_tick_inv[OF gptm_stop_data[OF gptm_inv_data[OF step.IH]]] by (blast dest: ensuresD)
  qed
qed

section \<open>The periodic timer\<close>

text \<open>The interval of the 32-bit count-down mode.\<close>

definition gptm_interval :: "i32 \<Rightarrow> gptm_state \<Rightarrow> i64" where
  "gptm_interval sc s = ucast (gptm_load s ! 0 OR push_bit 16 (gptm_load s ! 1)) * scast sc"

text \<open>Timer 0 expires at each of the given times.\<close>

primrec gptm_expiries :: "i32 \<Rightarrow> i64 list \<Rightarrow> gptm_state \<Rightarrow> gptm_state result" where
  "gptm_expiries sc [] s = Inr s"
| "gptm_expiries sc (now # nows) s = rbind (gptm_tick sc now 0 (gptm_stop 0 s)) (gptm_expiries sc nows)"

lemma gptm_tick_periodic:
  assumes "gptm_config s = 0" "gptm_mode s ! 0 AND 1 = 0" "gptm_sized s"
  shows "\<exists>s'. gptm_tick sc now 0 (gptm_stop 0 s) = Inr s' \<and>
     gptm_ticks s' ! 0 = gptm_ticks s ! 0 + gptm_interval sc s \<and>
     gptm_timer s' ! 0 = Some (gptm_ticks s' ! 0) \<and> gptm_raw s' AND 1 = 1 \<and>
     gptm_config s' = 0 \<and> gptm_mode s' = gptm_mode s \<and> gptm_load s' = gptm_load s \<and> gptm_sized s'"
proof -
  have o: "(x OR 1) AND 1 = (1 :: u32)" for x by (simp add: bit_eq_iff bit_simps)
  show ?thesis
    using assms
    by (simp add: gptm_tick_def Let_def gptm_reload_def gptm_stop_def trigger_pulse_def
        gptm_update_irq_def gptm_interval_def gptm_sized_def o)
qed

lemma gptm_expiries_periodic:
  assumes "gptm_config s = 0" "gptm_mode s ! 0 AND 1 = 0" "gptm_sized s"
  shows "\<exists>s'. gptm_expiries sc nows s = Inr s' \<and>
     gptm_ticks s' ! 0 = gptm_ticks s ! 0 + of_nat (length nows) * gptm_interval sc s \<and>
     (nows \<noteq> [] \<longrightarrow> gptm_timer s' ! 0 = Some (gptm_ticks s' ! 0) \<and> gptm_raw s' AND 1 = 1)"
  using assms
proof (induction nows arbitrary: s)
  case Nil
  then show ?case by simp
next
  case (Cons now nows)
  from gptm_tick_periodic[OF Cons.prems, of sc now] obtain s1 where
    s1: "gptm_tick sc now 0 (gptm_stop 0 s) = Inr s1"
      "gptm_ticks s1 ! 0 = gptm_ticks s ! 0 + gptm_interval sc s"
      "gptm_timer s1 ! 0 = Some (gptm_ticks s1 ! 0)" "gptm_raw s1 AND 1 = 1"
      "gptm_config s1 = 0" "gptm_mode s1 = gptm_mode s" "gptm_load s1 = gptm_load s" "gptm_sized s1"
    by blast
  have "gptm_interval sc s1 = gptm_interval sc s" using s1(7) by (simp add: gptm_interval_def)
  then show ?case
    using Cons.IH[of s1] s1 Cons.prems(2) by (cases nows) (auto simp: algebra_simps)
qed

section \<open>Properties\<close>


definition gptm_masked :: gptm_state where
  "gptm_masked = gptm_init\<lparr>gptm_mask := 1\<rparr>"

lemma gptm_masked_reachable: "gptm_reachable gptm_masked"
proof -
  have "gptm_write 5 0 0x18 1 gptm_init = Inr gptm_masked"
    by (simp add: gptm_write_def gptm_update_irq_def gptm_init_def gptm_masked_def)
  then show ?thesis by (blast intro: gptm_reachable.intros gptm_step.guest_write)
qed


text \<open>
  C33: the periodic 32-bit timer does not drift: however late its expiries are served,
  after \<open>n\<close> of them the next one is due exactly \<open>n\<close> intervals after the first due time,
  it is pending, and the time-out interrupt is raised.
\<close>

theorem gptm_periodic_no_drift:
  assumes "gptm_config s = 0" "gptm_mode s ! 0 AND 1 = 0" "gptm_sized s" "nows \<noteq> []"
  shows "\<exists>s'. gptm_expiries sc nows s = Inr s' \<and>
     gptm_timer s' ! 0 = Some (gptm_ticks s ! 0 + of_nat (length nows) * gptm_interval sc s) \<and>
     gptm_raw s' AND 1 = 1"
  using gptm_expiries_periodic[OF assms(1-3), of sc nows] assms(4) by auto

theorem gptm_periodic_no_drift_witness:
  "\<exists>s'. gptm_expiries 5 [1000, 1700, 2500] (gptm_init\<lparr>gptm_load := [100, 0], gptm_ticks := [500, 0]\<rparr>) = Inr s' \<and>
     gptm_timer s' ! 0 = Some 2000 \<and> gptm_raw s' AND 1 = 1"
proof -
  let ?s = "gptm_init\<lparr>gptm_load := [100, 0], gptm_ticks := [500, 0]\<rparr>"
  have "gptm_config ?s = 0" "gptm_mode ?s ! 0 AND 1 = 0" "gptm_sized ?s"
    "[1000, 1700, 2500 :: i64] \<noteq> []"
    by (simp_all add: gptm_init_def gptm_sized_def)
  from gptm_periodic_no_drift[OF this, of 5] show ?thesis
    by (simp add: gptm_interval_def gptm_init_def)
qed

text \<open>
  In the 32-bit modes the load register is written and read back as a whole, and it
  is the count the timer is started with.
\<close>

theorem gptm_load_roundtrip:
  assumes "gptm_config s < 4" "gptm_sized s"
  shows "\<exists>s'. gptm_write sc now 0x28 v s = Inr s' \<and> gptm_read 0x28 s' = Inr v \<and>
     gptm_interval sc s' = ucast v * scast sc"
  using assms
  by (simp add: gptm_write_def gptm_read_def Let_def gptm_update_irq_def gptm_interval_def
      gptm_sized_def split_halves)

theorem gptm_load_roundtrip_witness:
  "\<exists>s'. gptm_write 5 0 0x28 0x12345678 gptm_init = Inr s' \<and> gptm_read 0x28 s' = Inr 0x12345678 \<and>
     gptm_interval 5 s' = 5 * 0x12345678"
  using gptm_load_roundtrip[of gptm_init 5 0 "0x12345678"] by (simp add: gptm_init_def gptm_sized_def)

text \<open>
  The prescale match register of timer B cannot be written: the write goes to the
  register of timer A, and the one of timer B keeps its value.
\<close>

theorem gptm_tbpmr_write_lost:
  assumes "gptm_sized s"
  shows "\<exists>s'. gptm_write sc now 0x44 v s = Inr s' \<and> gptm_read 0x44 s' = gptm_read 0x44 s \<and>
     gptm_read 0x40 s' = Inr v"
  using assms by (simp add: gptm_write_def gptm_read_def gptm_update_irq_def gptm_sized_def)

theorem gptm_tbpmr_write_lost_witness:
  "\<exists>s'. gptm_write 5 0 0x44 7 gptm_init = Inr s' \<and> gptm_read 0x44 s' = Inr 0 \<and> gptm_read 0x40 s' = Inr 7"
  using gptm_tbpmr_write_lost[of gptm_init 5 0 7]
  by (simp add: gptm_init_def gptm_sized_def gptm_read_def)

end
