(* ===== verification/Stellaris_ADC.thy ===== *)
theory Stellaris_ADC
  imports Vemu_Prelude
begin

text \<open>
  The analogue to digital converter of the Stellaris boards (\<^verbatim>\<open>hw/stellaris.c\<close>, the
  \<^verbatim>\<open>stellaris_adc_*\<close> functions): four sequencers, each with a FIFO of 16 samples in a ring
  buffer whose head, tail and flags share one status word. The interrupt lines are the
  levels last driven on them.
\<close>

record adc_fifo =
  fifo_state :: u32
  fifo_data :: "u32 list"

record stellaris_adc_state =
  adc_actss :: u32
  adc_ris :: u32
  adc_im :: u32
  adc_emux :: u32
  adc_ostat :: u32
  adc_ustat :: u32
  adc_sspri :: u32
  adc_sac :: u32
  adc_fifos :: "adc_fifo list"
  adc_ssmux :: "u32 list"
  adc_ssctl :: "u32 list"
  adc_noise :: u32
  adc_irq :: "bool list"

definition STELLARIS_ADC_FIFO_EMPTY :: u32 where "STELLARIS_ADC_FIFO_EMPTY = 0x0100"
definition STELLARIS_ADC_FIFO_FULL :: u32 where "STELLARIS_ADC_FIFO_FULL = 0x1000"

section \<open>Operations\<close>

definition stellaris_adc_fifo_read :: "nat \<Rightarrow> stellaris_adc_state \<Rightarrow> u32 \<times> stellaris_adc_state" where
  "stellaris_adc_fifo_read n s =
     (let f = adc_fifos s ! n;
          st = fifo_state f;
          tail = st AND 0xf
      in if st AND STELLARIS_ADC_FIFO_EMPTY \<noteq> 0
         then (fifo_data f ! unat tail, s\<lparr>adc_ustat := adc_ustat s OR push_bit n 1\<rparr>)
         else
           let st = (st AND NOT 0xf) OR ((tail + 1) AND 0xf);
               st = st AND NOT STELLARIS_ADC_FIFO_FULL;
               st = if tail + 1 = drop_bit 4 st AND 0xf then st OR STELLARIS_ADC_FIFO_EMPTY else st
           in (fifo_data f ! unat tail,
               s\<lparr>adc_fifos := (adc_fifos s)[n := f\<lparr>fifo_state := st\<rparr>]\<rparr>))"

definition stellaris_adc_fifo_write :: "nat \<Rightarrow> u32 \<Rightarrow> stellaris_adc_state \<Rightarrow> stellaris_adc_state" where
  "stellaris_adc_fifo_write n val s =
     (let f = adc_fifos s ! n;
          st = fifo_state f;
          head = drop_bit 4 st AND 0xf
      in if st AND STELLARIS_ADC_FIFO_FULL \<noteq> 0
         then s\<lparr>adc_ostat := adc_ostat s OR push_bit n 1\<rparr>
         else
           let data = (fifo_data f)[unat head := val];
               head = (head + 1) AND 0xf;
               st = st AND NOT STELLARIS_ADC_FIFO_EMPTY;
               st = (st AND NOT 0xf0) OR push_bit 4 head;
               st = if st AND 0xf = head then st OR STELLARIS_ADC_FIFO_FULL else st
           in s\<lparr>adc_fifos := (adc_fifos s)[n := \<lparr>fifo_state = st, fifo_data = data\<rparr>]\<rparr>)"

definition stellaris_adc_update :: "stellaris_adc_state \<Rightarrow> stellaris_adc_state" where
  "stellaris_adc_update s =
     s\<lparr>adc_irq := map (\<lambda>n. adc_ris s AND adc_im s AND push_bit n 1 \<noteq> 0) [0..<4]\<rparr>"

definition adc_trigger_one :: "nat \<Rightarrow> stellaris_adc_state \<Rightarrow> stellaris_adc_state" where
  "adc_trigger_one n s =
     (if adc_actss s AND push_bit n 1 = 0 then s
      else if drop_bit (n * 4) (adc_emux s) AND 0xff \<noteq> 5 then s
      else
        let s = s\<lparr>adc_noise := adc_noise s * 314159 + 1\<rparr>;
            s = stellaris_adc_fifo_write n (0x200 + (drop_bit 16 (adc_noise s) AND 7)) s;
            s = s\<lparr>adc_ris := adc_ris s OR push_bit n 1\<rparr>
        in stellaris_adc_update s)"

text \<open>The handler of the trigger line; it is called for every level driven on the line.\<close>

definition stellaris_adc_trigger :: "bool \<Rightarrow> stellaris_adc_state \<Rightarrow> stellaris_adc_state" where
  "stellaris_adc_trigger level s = fold adc_trigger_one [0..<4] s"

definition stellaris_adc_reset :: "stellaris_adc_state \<Rightarrow> stellaris_adc_state" where
  "stellaris_adc_reset s =
     s\<lparr>adc_ssmux := replicate 4 0, adc_ssctl := replicate 4 0,
       adc_fifos := map (\<lambda>f. f\<lparr>fifo_state := STELLARIS_ADC_FIFO_EMPTY\<rparr>) (adc_fifos s)\<rparr>"

text \<open>The device is allocated with zeroed memory, then reset.\<close>

definition stellaris_adc_init :: stellaris_adc_state where
  "stellaris_adc_init = stellaris_adc_reset
     \<lparr>adc_actss = 0, adc_ris = 0, adc_im = 0, adc_emux = 0, adc_ostat = 0, adc_ustat = 0,
      adc_sspri = 0, adc_sac = 0,
      adc_fifos = replicate 4 \<lparr>fifo_state = 0, fifo_data = replicate 16 0\<rparr>,
      adc_ssmux = replicate 4 0, adc_ssctl = replicate 4 0, adc_noise = 0,
      adc_irq = replicate 4 False\<rparr>"

definition adc_read_reg :: "u32 \<Rightarrow> stellaris_adc_state \<Rightarrow> u32 result" where
  "adc_read_reg offset s =
     (if offset = 0x00 then Inr (adc_actss s)
      else if offset = 0x04 then Inr (adc_ris s)
      else if offset = 0x08 then Inr (adc_im s)
      else if offset = 0x0c then Inr (adc_ris s AND adc_im s)
      else if offset = 0x10 then Inr (adc_ostat s)
      else if offset = 0x14 then Inr (adc_emux s)
      else if offset = 0x18 then Inr (adc_ustat s)
      else if offset = 0x20 then Inr (adc_sspri s)
      else if offset = 0x30 then Inr (adc_sac s)
      else Inl Hw_Error)"

definition stellaris_adc_read :: "u32 \<Rightarrow> stellaris_adc_state \<Rightarrow> (u32 \<times> stellaris_adc_state) result" where
  "stellaris_adc_read offset s =
     (let n = unat (drop_bit 5 (offset - 0x40));
          seq = 0x40 \<le> offset \<and> offset < 0xc0;
          reg = offset AND 0x1f
      in if seq \<and> reg = 0x00 then Inr (adc_ssmux s ! n, s)
         else if seq \<and> reg = 0x04 then Inr (adc_ssctl s ! n, s)
         else if seq \<and> reg = 0x08 then Inr (stellaris_adc_fifo_read n s)
         else if seq \<and> reg = 0x0c then Inr (fifo_state (adc_fifos s ! n), s)
         else rbind (adc_read_reg offset s) (\<lambda>v. Inr (v, s)))"

definition adc_write_reg :: "u32 \<Rightarrow> u32 \<Rightarrow> stellaris_adc_state \<Rightarrow> stellaris_adc_state result" where
  "adc_write_reg offset val s =
     (if offset = 0x00 then Inr (s\<lparr>adc_actss := val AND 0xf\<rparr>)
      else if offset = 0x08 then Inr (s\<lparr>adc_im := val\<rparr>)
      else if offset = 0x0c then Inr (s\<lparr>adc_ris := adc_ris s AND NOT val\<rparr>)
      else if offset = 0x10 then Inr (s\<lparr>adc_ostat := adc_ostat s AND NOT val\<rparr>)
      else if offset = 0x14 then Inr (s\<lparr>adc_emux := val\<rparr>)
      else if offset = 0x18 then Inr (s\<lparr>adc_ustat := adc_ustat s AND NOT val\<rparr>)
      else if offset = 0x20 then Inr (s\<lparr>adc_sspri := val\<rparr>)
      else if offset = 0x30 then Inr (s\<lparr>adc_sac := val\<rparr>)
      else Inl Hw_Error)"

definition stellaris_adc_write :: "u32 \<Rightarrow> u32 \<Rightarrow> stellaris_adc_state \<Rightarrow> stellaris_adc_state result" where
  "stellaris_adc_write offset val s =
     (let n = unat (drop_bit 5 (offset - 0x40));
          seq = 0x40 \<le> offset \<and> offset < 0xc0;
          reg = offset AND 0x1f
      in if seq \<and> reg = 0x00 then Inr (s\<lparr>adc_ssmux := (adc_ssmux s)[n := val AND 0x33333333]\<rparr>)
         else if seq \<and> reg = 0x04 then
           if val \<noteq> 6 then Inl Hw_Error
           else Inr (s\<lparr>adc_ssctl := (adc_ssctl s)[n := val]\<rparr>)
         else rbind (adc_write_reg offset val s) (\<lambda>s. Inr (stellaris_adc_update s)))"

section \<open>The ring buffer as a queue\<close>

definition adc_tail :: "u32 \<Rightarrow> nat" where
  "adc_tail w = unat (take_bit 4 w)"

definition adc_head :: "u32 \<Rightarrow> nat" where
  "adc_head w = unat (take_bit 4 (drop_bit 4 w))"

definition adc_empty :: "u32 \<Rightarrow> bool" where
  "adc_empty w = bit w 8"

definition adc_full :: "u32 \<Rightarrow> bool" where
  "adc_full w = bit w 12"

definition adc_count :: "u32 \<Rightarrow> nat" where
  "adc_count w =
     (if adc_empty w then 0 else if adc_full w then 16
      else if adc_tail w < adc_head w then adc_head w - adc_tail w
      else 16 + adc_head w - adc_tail w)"

definition adc_contents :: "adc_fifo \<Rightarrow> u32 list" where
  "adc_contents f = map (\<lambda>k. fifo_data f ! ((adc_tail (fifo_state f) + k) mod 16)) [0..<adc_count (fifo_state f)]"

text \<open>
  The flags agree with the pointers: they are equal when the buffer is empty or full and
  differ otherwise.
\<close>

definition wf_adc_fifo :: "adc_fifo \<Rightarrow> bool" where
  "wf_adc_fifo f \<longleftrightarrow> length (fifo_data f) = 16 \<and>
     (let w = fifo_state f in
      \<not> (adc_empty w \<and> adc_full w) \<and> (adc_empty w \<or> adc_full w) = (adc_head w = adc_tail w))"

lemma adc_masks:
  "w AND 0xf = take_bit 4 (w :: u32)"
  "w AND 0x100 \<noteq> 0 \<longleftrightarrow> bit w 8" "w AND 0x1000 \<noteq> 0 \<longleftrightarrow> bit w 12"
proof -
  show "w AND 0xf = take_bit 4 w" by (simp add: take_bit_eq_mask mask_eq_exp_minus_1)
  have "w AND push_bit n 1 \<noteq> 0 \<longleftrightarrow> bit w n" for n
    by (metis and_exp_eq_0_iff_not_bit push_bit_of_1)
  from this[of 8] this[of 12]
  show "w AND 0x100 \<noteq> 0 \<longleftrightarrow> bit w 8" "w AND 0x1000 \<noteq> 0 \<longleftrightarrow> bit w 12"
    by (simp_all add: push_bit_of_1)
qed

lemma adc_tail_less: "adc_tail w < 16"
  using take_bit_nat_less_exp[of 4 "unat w"] by (simp add: adc_tail_def unsigned_take_bit_eq)

lemma adc_head_less: "adc_head w < 16"
  using take_bit_nat_less_exp[of 4 "unat (drop_bit 4 w)"] by (simp add: adc_head_def unsigned_take_bit_eq)

lemma unat_next: "unat (take_bit 4 (take_bit 4 w + 1 :: u32)) = (unat (take_bit 4 w) + 1) mod 16"
proof -
  have "unat (take_bit 4 w) < 16" using adc_tail_less[of w] by (simp add: adc_tail_def)
  then have "unat (take_bit 4 w + 1 :: u32) = unat (take_bit 4 w) + 1"
    by (simp add: unat_word_ariths)
  then show ?thesis by (simp only: unsigned_take_bit_eq) (simp only: take_bit_eq_mod, simp)
qed

text \<open>The status word after a read and after a write.\<close>

definition adc_popped :: "u32 \<Rightarrow> u32" where
  "adc_popped st =
     (let tail = st AND 0xf;
          st = (st AND NOT 0xf) OR ((tail + 1) AND 0xf);
          st = st AND NOT STELLARIS_ADC_FIFO_FULL
      in if tail + 1 = drop_bit 4 st AND 0xf then st OR STELLARIS_ADC_FIFO_EMPTY else st)"

definition adc_pushed :: "u32 \<Rightarrow> u32" where
  "adc_pushed st =
     (let head = (drop_bit 4 st AND 0xf) + 1 AND 0xf;
          st = st AND NOT STELLARIS_ADC_FIFO_EMPTY;
          st = (st AND NOT 0xf0) OR push_bit 4 head
      in if st AND 0xf = head then st OR STELLARIS_ADC_FIFO_FULL else st)"

lemma adc_consts:
  "(0xf :: u32) = mask 4" "(0xf0 :: u32) = push_bit 4 (mask 4)"
  "STELLARIS_ADC_FIFO_EMPTY = push_bit 8 1" "STELLARIS_ADC_FIFO_FULL = push_bit 12 1"
  by (simp_all add: mask_eq_exp_minus_1 STELLARIS_ADC_FIFO_EMPTY_def STELLARIS_ADC_FIFO_FULL_def
      push_bit_of_1)

text \<open>
  The two updates for a field width \<open>k\<close> and flag positions \<open>e\<close> and \<open>f\<close> above the fields.
\<close>

lemma popped_bits:
  fixes w x :: u32
  assumes "2 * k \<le> e" "2 * k \<le> f" "e \<noteq> f" "f < 32"
  defines "v \<equiv> ((w AND NOT (mask k)) OR take_bit k x) AND NOT (push_bit f 1)"
  shows "take_bit k v = take_bit k x" "take_bit k (drop_bit k v) = take_bit k (drop_bit k w)"
    "bit v e = bit w e" "\<not> bit v f"
  unfolding v_def using assms(1-4)
  by (auto intro!: bit_word_eqI simp: bit_simps dest: bit_imp_le_length)

lemma pushed_bits:
  fixes w x :: u32
  assumes "2 * k \<le> e" "2 * k \<le> f" "e \<noteq> f" "e < 32"
  defines "v \<equiv> ((w AND NOT (push_bit e 1)) AND NOT (push_bit k (mask k))) OR push_bit k (take_bit k x)"
  shows "take_bit k v = take_bit k w" "take_bit k (drop_bit k v) = take_bit k x"
    "\<not> bit v e" "bit v f = bit w f"
  unfolding v_def using assms(1-4)
  by (auto intro!: bit_word_eqI simp: bit_simps dest: bit_imp_le_length)

lemma flag_bits:
  fixes w :: u32
  assumes "2 * k \<le> n" "n < 32"
  shows "take_bit k (w OR push_bit n 1) = take_bit k w"
    "take_bit k (drop_bit k (w OR push_bit n 1)) = take_bit k (drop_bit k w)"
    "bit (w OR push_bit n 1) m = (bit w m \<or> m = n)"
  using assms by (auto intro!: bit_word_eqI simp: bit_simps dest: bit_imp_le_length)

lemmas adc_views = adc_tail_def adc_head_def adc_full_def adc_empty_def

lemma popped:
  "adc_tail (adc_popped w) = (adc_tail w + 1) mod 16" "adc_head (adc_popped w) = adc_head w"
  "\<not> adc_full (adc_popped w)"
  "adc_empty (adc_popped w) = (adc_empty w \<or> adc_tail w + 1 = adc_head w)"
proof -
  define x where "x = (take_bit 4 w + 1 :: u32)"
  define v where "v = ((w AND NOT (mask 4)) OR take_bit 4 x) AND NOT (push_bit 12 1)"
  note b = popped_bits[of 4 8 12 w x, folded v_def, simplified]
  have p: "adc_popped w = (if x = take_bit 4 (drop_bit 4 w) then v OR push_bit 8 1 else v)"
    unfolding adc_popped_def adc_consts Let_def take_bit_eq_mask[symmetric] x_def[symmetric]
      v_def[symmetric] b(2) ..
  have "unat x = adc_tail w + 1"
    using adc_tail_less[of w] by (simp add: x_def adc_tail_def unat_word_ariths)
  then have e: "x = take_bit 4 (drop_bit 4 w) \<longleftrightarrow> adc_tail w + 1 = adc_head w"
    by (metis adc_head_def word_unat_eq_iff)
  have t: "unat (take_bit 4 x) = (unat (take_bit 4 w) + 1) mod 16"
    unfolding x_def by (rule unat_next)
  note f = flag_bits[of 4 8 v, simplified]
  show "adc_tail (adc_popped w) = (adc_tail w + 1) mod 16" "adc_head (adc_popped w) = adc_head w"
    "\<not> adc_full (adc_popped w)"
    "adc_empty (adc_popped w) = (adc_empty w \<or> adc_tail w + 1 = adc_head w)"
    unfolding p e unfolding adc_views using b f t by simp_all
qed

lemma pushed:
  assumes "\<not> adc_full w"
  shows "adc_tail (adc_pushed w) = adc_tail w" "adc_head (adc_pushed w) = (adc_head w + 1) mod 16"
    "\<not> adc_empty (adc_pushed w)"
    "adc_full (adc_pushed w) = (adc_tail w = (adc_head w + 1) mod 16)"
proof -
  define x where "x = (take_bit 4 (drop_bit 4 w) + 1 :: u32)"
  define v where "v = ((w AND NOT (push_bit 8 1)) AND NOT (push_bit 4 (mask 4))) OR push_bit 4 (take_bit 4 x)"
  note b = pushed_bits[of 4 8 12 w x, folded v_def, simplified]
  have p: "adc_pushed w = (if take_bit 4 w = take_bit 4 x then v OR push_bit 12 1 else v)"
    unfolding adc_pushed_def adc_consts Let_def take_bit_eq_mask[symmetric] x_def[symmetric]
      v_def[symmetric] b(1) ..
  have t: "unat (take_bit 4 x) = (unat (take_bit 4 (drop_bit 4 w)) + 1) mod 16"
    unfolding x_def by (rule unat_next)
  then have e: "take_bit 4 w = take_bit 4 x \<longleftrightarrow> adc_tail w = (adc_head w + 1) mod 16"
    by (metis adc_head_def adc_tail_def word_unat_eq_iff)
  note f = flag_bits[of 4 12 v, simplified]
  show "adc_tail (adc_pushed w) = adc_tail w" "adc_head (adc_pushed w) = (adc_head w + 1) mod 16"
    "\<not> adc_empty (adc_pushed w)"
    "adc_full (adc_pushed w) = (adc_tail w = (adc_head w + 1) mod 16)"
    using assms unfolding p e unfolding adc_views using b f t by simp_all
qed

lemma stellaris_adc_fifo_read_eq:
  "stellaris_adc_fifo_read n s =
     (let f = adc_fifos s ! n in
      (fifo_data f ! adc_tail (fifo_state f),
       if adc_empty (fifo_state f) then s\<lparr>adc_ustat := adc_ustat s OR push_bit n 1\<rparr>
       else s\<lparr>adc_fifos := (adc_fifos s)[n := f\<lparr>fifo_state := adc_popped (fifo_state f)\<rparr>]\<rparr>))"
  by (simp add: stellaris_adc_fifo_read_def adc_popped_def Let_def adc_tail_def adc_empty_def
      adc_masks STELLARIS_ADC_FIFO_EMPTY_def)

lemma stellaris_adc_fifo_write_eq:
  "stellaris_adc_fifo_write n v s =
     (let f = adc_fifos s ! n; w = fifo_state f in
      if adc_full w then s\<lparr>adc_ostat := adc_ostat s OR push_bit n 1\<rparr>
      else s\<lparr>adc_fifos := (adc_fifos s)[n := \<lparr>fifo_state = adc_pushed w,
                                             fifo_data = (fifo_data f)[adc_head w := v]\<rparr>]\<rparr>)"
  by (simp add: stellaris_adc_fifo_write_def adc_pushed_def Let_def adc_head_def adc_full_def
      adc_masks STELLARIS_ADC_FIFO_FULL_def)

lemma next_mod: "t < 16 \<Longrightarrow> Suc t mod 16 = (if t = 15 then 0 else Suc t)" for t :: nat
  by (auto simp: mod_if)

lemma adc_head_count:
  assumes "wf_adc_fifo f"
  shows "adc_head (fifo_state f) = (adc_tail (fifo_state f) + adc_count (fifo_state f)) mod 16"
  using assms adc_tail_less[of "fifo_state f"] adc_head_less[of "fifo_state f"]
  by (auto simp: wf_adc_fifo_def adc_count_def Let_def mod_if)

lemma adc_count_pushed:
  assumes "wf_adc_fifo f" "\<not> adc_full (fifo_state f)"
  shows "adc_count (adc_pushed (fifo_state f)) = adc_count (fifo_state f) + 1"
    "adc_count (fifo_state f) < 16"
  using assms adc_tail_less[of "fifo_state f"] adc_head_less[of "fifo_state f"]
  by (auto simp: wf_adc_fifo_def adc_count_def Let_def pushed next_mod split: if_splits)

lemma adc_contents_push:
  fixes v :: u32
  assumes wf: "wf_adc_fifo f" and nf: "\<not> adc_full (fifo_state f)"
  defines "f' \<equiv> \<lparr>fifo_state = adc_pushed (fifo_state f),
                 fifo_data = (fifo_data f)[adc_head (fifo_state f) := v]\<rparr>"
  shows "adc_contents f' = adc_contents f @ [v]" "wf_adc_fifo f'"
proof -
  let ?t = "adc_tail (fifo_state f)" and ?h = "adc_head (fifo_state f)" and ?c = "adc_count (fifo_state f)"
  have h: "?h = (?t + ?c) mod 16" using wf by (rule adc_head_count)
  have l: "length (fifo_data f) = 16" using wf by (simp add: wf_adc_fifo_def)
  have c: "adc_count (adc_pushed (fifo_state f)) = ?c + 1" "?c < 16"
    using adc_count_pushed[OF wf nf] by simp_all
  have ne: "?h \<noteq> (?t + k) mod 16" if "k < ?c" for k
    unfolding h using that c(2) by (intro mod_add_neq[symmetric]) simp_all
  have "map (\<lambda>k. (fifo_data f)[?h := v] ! ((?t + k) mod 16)) [0..<?c] =
      map (\<lambda>k. fifo_data f ! ((?t + k) mod 16)) [0..<?c]"
    by (simp add: ne)
  moreover have "(fifo_data f)[?h := v] ! ((?t + ?c) mod 16) = v"
    using l h adc_head_less[of "fifo_state f"] by simp
  ultimately show "adc_contents f' = adc_contents f @ [v]"
    unfolding adc_contents_def f'_def adc_fifo.select_convs pushed(1)[OF nf] c(1) Suc_eq_plus1[symmetric]
      upt_Suc_append[OF le0] map_append list.map by (simp only: append_same_eq list.inject)
  show "wf_adc_fifo f'"
    using wf nf adc_head_less[of "fifo_state f"]
    by (simp add: wf_adc_fifo_def f'_def Let_def pushed) metis
qed

lemma adc_contents_pop:
  assumes wf: "wf_adc_fifo f" and ne: "\<not> adc_empty (fifo_state f)"
    and last: "\<not> (adc_tail (fifo_state f) = 15 \<and> adc_head (fifo_state f) = 0)"
  defines "f' \<equiv> f\<lparr>fifo_state := adc_popped (fifo_state f)\<rparr>"
  shows "adc_contents f = fifo_data f ! adc_tail (fifo_state f) # adc_contents f'" "wf_adc_fifo f'"
proof -
  let ?t = "adc_tail (fifo_state f)" and ?h = "adc_head (fifo_state f)" and ?c = "adc_count (fifo_state f)"
  note b = adc_tail_less[of "fifo_state f"] adc_head_less[of "fifo_state f"]
  have c: "?c = Suc (adc_count (adc_popped (fifo_state f)))"
    using wf ne last b
    by (auto simp: wf_adc_fifo_def adc_count_def Let_def popped next_mod split: if_splits)
  have m: "(Suc ?t mod 16 + k) mod 16 = Suc (?t + k) mod 16" for k
    by (metis add_Suc mod_add_left_eq)
  show "adc_contents f = fifo_data f ! ?t # adc_contents f'"
    unfolding adc_contents_def c f'_def upt_conv_Cons[OF zero_less_Suc]
    using b by (simp add: popped m map_Suc_upt[symmetric] del: upt_Suc)
  show "wf_adc_fifo f'"
  proof (cases "?t = 15")
    case True
    then show ?thesis
      using wf ne last b by (simp add: wf_adc_fifo_def f'_def Let_def popped)
  next
    case False
    then show ?thesis
      using wf ne b by (simp add: wf_adc_fifo_def f'_def Let_def popped next_mod) metis
  qed
qed

section \<open>Properties\<close>

text \<open>
  Writing a sample into a sequencer FIFO that is not full appends it; writing into a
  full one loses the sample and sets the overflow bit of that sequencer, nothing else.
\<close>

theorem adc_fifo_write_correct:
  assumes "n < length (adc_fifos s)" "wf_adc_fifo (adc_fifos s ! n)"
  shows "let s' = stellaris_adc_fifo_write n v s; f = adc_fifos s ! n; f' = adc_fifos s' ! n in
    if adc_full (fifo_state f) then s' = s\<lparr>adc_ostat := adc_ostat s OR push_bit n 1\<rparr>
    else adc_contents f' = adc_contents f @ [v] \<and> wf_adc_fifo f' \<and> adc_ostat s' = adc_ostat s"
  using assms adc_contents_push[of "adc_fifos s ! n" v]
  by (simp add: stellaris_adc_fifo_write_eq Let_def)

lemma init_fifo: "n < 4 \<Longrightarrow> adc_fifos stellaris_adc_init ! n = \<lparr>fifo_state = 0x100, fifo_data = replicate 16 0\<rparr>"
  by (simp add: stellaris_adc_init_def stellaris_adc_reset_def STELLARIS_ADC_FIFO_EMPTY_def)

lemma init_views: "adc_empty 0x100" "\<not> adc_full 0x100" "adc_tail 0x100 = 0" "adc_head 0x100 = 0"
  by (simp_all add: adc_views)

lemma init_fifo_wf: "wf_adc_fifo \<lparr>fifo_state = 0x100, fifo_data = replicate 16 0\<rparr>"
  by (simp add: wf_adc_fifo_def init_views)

theorem adc_fifo_write_correct_witness:
  "adc_contents (adc_fifos (stellaris_adc_fifo_write 2 0x203 stellaris_adc_init) ! 2) = [0x203]"
proof -
  have "2 < length (adc_fifos stellaris_adc_init)"
    by (simp add: stellaris_adc_init_def stellaris_adc_reset_def)
  moreover have "wf_adc_fifo (adc_fifos stellaris_adc_init ! 2)"
    by (simp add: init_fifo init_fifo_wf)
  ultimately show ?thesis
    using adc_fifo_write_correct[of 2 stellaris_adc_init "0x203"]
    by (simp add: Let_def init_fifo init_views adc_contents_def adc_count_def)
qed

text \<open>
  Reading a sequencer FIFO takes the oldest sample out; reading an empty one changes
  nothing but the underflow bit. The one exception is the last sample in the last slot
  of the ring.
\<close>

theorem adc_fifo_read_correct:
  assumes "n < length (adc_fifos s)" "wf_adc_fifo (adc_fifos s ! n)"
    and "\<not> (adc_tail (fifo_state (adc_fifos s ! n)) = 15 \<and> adc_head (fifo_state (adc_fifos s ! n)) = 0)"
  shows "let (v, s') = stellaris_adc_fifo_read n s; f = adc_fifos s ! n; f' = adc_fifos s' ! n in
    if adc_empty (fifo_state f) then s' = s\<lparr>adc_ustat := adc_ustat s OR push_bit n 1\<rparr>
    else adc_contents f = v # adc_contents f' \<and> wf_adc_fifo f' \<and> adc_ustat s' = adc_ustat s"
  using assms adc_contents_pop[of "adc_fifos s ! n"]
  by (simp add: stellaris_adc_fifo_read_eq Let_def)

definition adc_one_sample :: stellaris_adc_state where
  "adc_one_sample = stellaris_adc_fifo_write 0 0x205 stellaris_adc_init"

lemma adc_one_sample_fifo:
  "adc_fifos adc_one_sample ! 0 = \<lparr>fifo_state = adc_pushed 0x100, fifo_data = (replicate 16 0)[0 := 0x205]\<rparr>"
  by (simp add: adc_one_sample_def stellaris_adc_fifo_write_eq Let_def init_fifo init_views)
    (simp add: stellaris_adc_init_def stellaris_adc_reset_def)

theorem adc_fifo_read_correct_witness:
  "fst (stellaris_adc_fifo_read 0 adc_one_sample) = 0x205 \<and>
   adc_contents (adc_fifos (snd (stellaris_adc_fifo_read 0 adc_one_sample)) ! 0) = []"
proof -
  have l: "0 < length (adc_fifos adc_one_sample)"
    by (simp add: adc_one_sample_def stellaris_adc_fifo_write_eq Let_def init_fifo init_views)
      (simp add: stellaris_adc_init_def stellaris_adc_reset_def)
  have f: "adc_fifos stellaris_adc_init ! 0 = \<lparr>fifo_state = 0x100, fifo_data = replicate 16 0\<rparr>"
    by (rule init_fifo) simp
  have w: "wf_adc_fifo (adc_fifos adc_one_sample ! 0)"
    using adc_contents_push(2)[OF init_fifo_wf, where v = "0x205"] init_views
    by (simp add: adc_one_sample_fifo)
  have c: "adc_contents (adc_fifos adc_one_sample ! 0) = [0x205]"
    using adc_contents_push(1)[OF init_fifo_wf, where v = "0x205"] init_views
    by (simp add: adc_one_sample_fifo adc_contents_def adc_count_def)
  note v = pushed[OF init_views(2), unfolded init_views]
  have "\<not> (adc_tail (fifo_state (adc_fifos adc_one_sample ! 0)) = 15 \<and>
           adc_head (fifo_state (adc_fifos adc_one_sample ! 0)) = 0)"
    by (simp add: adc_one_sample_fifo v)
  from adc_fifo_read_correct[OF l w this] c show ?thesis
    by (simp add: Let_def split_beta adc_one_sample_fifo v)
qed

text \<open>
  When the last sample lies in the last slot of the ring, reading it leaves the FIFO
  marked as not empty although both pointers are equal: the next read answers an old
  slot instead of reporting the underflow.
\<close>

theorem adc_fifo_empty_missed:
  assumes "n < length (adc_fifos s)" "wf_adc_fifo (adc_fifos s ! n)"
    and "adc_tail (fifo_state (adc_fifos s ! n)) = 15" "adc_head (fifo_state (adc_fifos s ! n)) = 0"
  shows "length (adc_contents (adc_fifos s ! n)) = 1 \<and>
    (let s' = snd (stellaris_adc_fifo_read n s); w = fifo_state (adc_fifos s' ! n) in
     adc_head w = adc_tail w \<and> \<not> adc_empty w \<and> adc_ustat (snd (stellaris_adc_fifo_read n s')) = adc_ustat s)"
proof -
  let ?w = "fifo_state (adc_fifos s ! n)"
  have ne: "\<not> adc_empty ?w" "\<not> adc_full ?w"
    using assms by (auto simp: wf_adc_fifo_def Let_def)
  then have "length (adc_contents (adc_fifos s ! n)) = 1"
    using assms(3,4) by (simp add: adc_contents_def adc_count_def)
  then show ?thesis
    using assms ne by (simp add: stellaris_adc_fifo_read_eq Let_def popped)
qed

definition adc_wrapped :: stellaris_adc_state where
  "adc_wrapped = stellaris_adc_init\<lparr>adc_fifos :=
     replicate 4 \<lparr>fifo_state = 0x00f, fifo_data = replicate 16 0x201\<rparr>\<rparr>"

theorem adc_fifo_empty_missed_witness:
  "length (adc_contents (adc_fifos adc_wrapped ! 1)) = 1 \<and>
   adc_ustat (snd (stellaris_adc_fifo_read 1 (snd (stellaris_adc_fifo_read 1 adc_wrapped)))) = 0"
proof -
  have v: "\<not> adc_empty 0xf" "\<not> adc_full 0xf" "adc_tail 0xf = 15" "adc_head 0xf = 0"
    by (simp_all add: adc_views)
  have "1 < length (adc_fifos adc_wrapped)" "wf_adc_fifo (adc_fifos adc_wrapped ! 1)"
    "adc_tail (fifo_state (adc_fifos adc_wrapped ! 1)) = 15"
    "adc_head (fifo_state (adc_fifos adc_wrapped ! 1)) = 0"
    by (simp_all add: adc_wrapped_def wf_adc_fifo_def v)
  from adc_fifo_empty_missed[OF this] show ?thesis
    by (simp add: Let_def) (simp add: adc_wrapped_def stellaris_adc_init_def stellaris_adc_reset_def)
qed

end
