(* ===== verification/I2C_Bus.thy ===== *)
theory I2C_Bus
  imports Vemu_Prelude
begin

text \<open>
  The I2C bus of the emulator (\<^verbatim>\<open>hw/i2c.c\<close>, \<^verbatim>\<open>hw/i2c.h\<close>). A slave is its address, its
  private state of type \<open>'d\<close> and the three callbacks of its \<^verbatim>\<open>I2CSlaveInfo\<close>; the bus owns
  the list of its slaves, and a pointer to a slave is its index in that list.
\<close>

datatype i2c_event = I2C_START_RECV | I2C_START_SEND | I2C_FINISH | I2C_NACK

record 'd I2CSlaveInfo =
  on_event :: "i2c_event \<Rightarrow> 'd \<Rightarrow> 'd"
  on_recv :: "'d \<Rightarrow> i32 \<times> 'd"
  on_send :: "u8 \<Rightarrow> 'd \<Rightarrow> i32 \<times> 'd"

record 'd i2c_slave =
  slave_info :: "'d I2CSlaveInfo"
  slave_dev :: 'd
  slave_address :: u8

record 'd i2c_bus =
  bus_children :: "'d i2c_slave list"
  current_dev :: "nat option"
  saved_address :: u8

section \<open>Operations\<close>

definition i2c_init_bus :: "'d i2c_slave list \<Rightarrow> 'd i2c_bus" where
  "i2c_init_bus slaves = \<lparr>bus_children = slaves, current_dev = None, saved_address = 0\<rparr>"

definition i2c_set_slave_address :: "u8 \<Rightarrow> 'd i2c_slave \<Rightarrow> 'd i2c_slave" where
  "i2c_set_slave_address addr dev = dev\<lparr>slave_address := addr\<rparr>"

definition i2c_bus_busy :: "'d i2c_bus \<Rightarrow> bool" where
  "i2c_bus_busy bus = (current_dev bus \<noteq> None)"

text \<open>The first child with the address, as \<^verbatim>\<open>QLIST_FOREACH\<close> visits them.\<close>

primrec find_slave :: "u8 \<Rightarrow> nat \<Rightarrow> 'd i2c_slave list \<Rightarrow> nat option" where
  "find_slave addr i [] = None"
| "find_slave addr i (c # cs) = (if slave_address c = addr then Some i else find_slave addr (Suc i) cs)"

definition send_event :: "nat \<Rightarrow> i2c_event \<Rightarrow> 'd i2c_bus \<Rightarrow> 'd i2c_bus" where
  "send_event i ev bus =
     (let c = bus_children bus ! i in
      bus\<lparr>bus_children := (bus_children bus)[i := c\<lparr>slave_dev := on_event (slave_info c) ev (slave_dev c)\<rparr>]\<rparr>)"

definition i2c_start_transfer :: "u8 \<Rightarrow> bool \<Rightarrow> 'd i2c_bus \<Rightarrow> i32 \<times> 'd i2c_bus" where
  "i2c_start_transfer addr recv bus =
     (case find_slave addr 0 (bus_children bus) of
        None \<Rightarrow> (1, bus)
      | Some i \<Rightarrow>
          (0, send_event i (if recv then I2C_START_RECV else I2C_START_SEND) (bus\<lparr>current_dev := Some i\<rparr>)))"

definition i2c_end_transfer :: "'d i2c_bus \<Rightarrow> 'd i2c_bus" where
  "i2c_end_transfer bus =
     (case current_dev bus of
        None \<Rightarrow> bus
      | Some i \<Rightarrow> (send_event i I2C_FINISH bus)\<lparr>current_dev := None\<rparr>)"

definition i2c_send :: "u8 \<Rightarrow> 'd i2c_bus \<Rightarrow> i32 \<times> 'd i2c_bus" where
  "i2c_send data bus =
     (case current_dev bus of
        None \<Rightarrow> (- 1, bus)
      | Some i \<Rightarrow>
          let c = bus_children bus ! i; (r, d) = on_send (slave_info c) data (slave_dev c)
          in (r, bus\<lparr>bus_children := (bus_children bus)[i := c\<lparr>slave_dev := d\<rparr>]\<rparr>))"

definition i2c_recv :: "'d i2c_bus \<Rightarrow> i32 \<times> 'd i2c_bus" where
  "i2c_recv bus =
     (case current_dev bus of
        None \<Rightarrow> (- 1, bus)
      | Some i \<Rightarrow>
          let c = bus_children bus ! i; (r, d) = on_recv (slave_info c) (slave_dev c)
          in (r, bus\<lparr>bus_children := (bus_children bus)[i := c\<lparr>slave_dev := d\<rparr>]\<rparr>))"

definition i2c_nack :: "'d i2c_bus \<Rightarrow> 'd i2c_bus" where
  "i2c_nack bus =
     (case current_dev bus of
        None \<Rightarrow> bus
      | Some i \<Rightarrow> send_event i I2C_NACK bus)"

text \<open>The migration hooks: the current device travels as its address.\<close>

definition i2c_bus_pre_save :: "'d i2c_bus \<Rightarrow> 'd i2c_bus" where
  "i2c_bus_pre_save bus =
     bus\<lparr>saved_address := (case current_dev bus of Some i \<Rightarrow> slave_address (bus_children bus ! i) | None \<Rightarrow> - 1)\<rparr>"

definition i2c_bus_post_load :: "'d i2c_bus \<Rightarrow> 'd i2c_bus" where
  "i2c_bus_post_load bus = bus\<lparr>current_dev := None\<rparr>"

definition i2c_slave_post_load :: "nat \<Rightarrow> 'd i2c_bus \<Rightarrow> 'd i2c_bus" where
  "i2c_slave_post_load i bus =
     (if saved_address bus = slave_address (bus_children bus ! i)
      then bus\<lparr>current_dev := Some i\<rparr> else bus)"

section \<open>Facts about the bus\<close>

definition wf_bus :: "'d i2c_bus \<Rightarrow> bool" where
  "wf_bus bus \<longleftrightarrow> (case current_dev bus of None \<Rightarrow> True | Some i \<Rightarrow> i < length (bus_children bus))"

lemma find_slave_Some:
  "find_slave addr i cs = Some j \<Longrightarrow> i \<le> j \<and> j < i + length cs \<and> slave_address (cs ! (j - i)) = addr"
  by (induction cs arbitrary: i) (fastforce split: if_splits simp: nth_Cons')+

lemma find_slave_None: "find_slave addr i cs = None \<longleftrightarrow> addr \<notin> slave_address ` set cs"
  by (induction cs arbitrary: i) auto

lemma find_slave_first:
  "distinct (map slave_address cs) \<Longrightarrow> k < length cs \<Longrightarrow> find_slave (slave_address (cs ! k)) i cs = Some (i + k)"
  by (induction cs arbitrary: i k) (auto simp: nth_Cons' split: if_splits)

lemma current_dev_ops [simp]:
  "current_dev (send_event i ev bus) = current_dev bus"
  "current_dev (snd (i2c_send d bus)) = current_dev bus"
  "current_dev (snd (i2c_recv bus)) = current_dev bus"
  "current_dev (i2c_end_transfer bus) = None"
  by (auto simp: send_event_def i2c_send_def i2c_recv_def i2c_end_transfer_def Let_def split_beta
      split: option.split)

lemma start_transfer_busy:
  "i2c_start_transfer a r bus = (rc, bus') \<Longrightarrow>
     (rc \<noteq> 0 \<longrightarrow> bus' = bus \<and> a \<notin> slave_address ` set (bus_children bus)) \<and>
     (rc = 0 \<longrightarrow> i2c_bus_busy bus' \<and> a \<in> slave_address ` set (bus_children bus))"
  using find_slave_None[of a 0 "bus_children bus"]
  by (cases "find_slave a 0 (bus_children bus)") (auto simp: i2c_start_transfer_def i2c_bus_busy_def)

lemma wf_bus_ops:
  "wf_bus bus \<Longrightarrow> wf_bus (snd (i2c_start_transfer a r bus))"
  "wf_bus bus \<Longrightarrow> wf_bus (i2c_end_transfer bus)"
  "wf_bus bus \<Longrightarrow> wf_bus (snd (i2c_send d bus))"
  "wf_bus bus \<Longrightarrow> wf_bus (snd (i2c_recv bus))"
  "wf_bus bus \<Longrightarrow> wf_bus (i2c_nack bus)"
  by (auto simp: wf_bus_def i2c_start_transfer_def i2c_end_transfer_def i2c_send_def i2c_recv_def
      i2c_nack_def send_event_def Let_def split_beta dest: find_slave_Some split: option.splits)

text \<open>Sending bytes one after the other to the addressed slave.\<close>

primrec slave_sends :: "'d I2CSlaveInfo \<Rightarrow> u8 list \<Rightarrow> 'd \<Rightarrow> 'd" where
  "slave_sends info [] d = d"
| "slave_sends info (b # bs) d = slave_sends info bs (snd (on_send info b d))"

primrec i2c_sends :: "u8 list \<Rightarrow> 'd i2c_bus \<Rightarrow> 'd i2c_bus" where
  "i2c_sends [] bus = bus"
| "i2c_sends (b # bs) bus = i2c_sends bs (snd (i2c_send b bus))"

lemma i2c_sends_current:
  assumes "current_dev bus = Some i" "i < length (bus_children bus)"
  shows "i2c_sends bs bus = bus\<lparr>bus_children := (bus_children bus)[i :=
     (bus_children bus ! i)\<lparr>slave_dev := slave_sends (slave_info (bus_children bus ! i)) bs
        (slave_dev (bus_children bus ! i))\<rparr>]\<rparr>"
  using assms
  by (induction bs arbitrary: bus) (simp_all add: i2c_send_def Let_def split_beta)

lemma filter_eq_upt: "filter (\<lambda>j. j = i) [0..<n] = (if i < n then [i] else [])"
  by (induction n) auto

section \<open>Properties\<close>

text \<open>
  C34: a transfer reaches exactly the addressed slave: start, any number of data bytes and
  end run the slave's start callback, its send callback for each byte in order and its
  finish callback; every other slave is untouched and the bus is free afterwards.
\<close>

theorem i2c_transfer_delivers:
  assumes "distinct (map slave_address (bus_children bus))" "k < length (bus_children bus)"
    and "c = bus_children bus ! k"
  shows "let (rc, bus1) = i2c_start_transfer (slave_address c) False bus;
             bus2 = i2c_end_transfer (i2c_sends bytes bus1)
         in rc = 0 \<and> \<not> i2c_bus_busy bus2 \<and>
            bus_children bus2 = (bus_children bus)[k := c\<lparr>slave_dev :=
              on_event (slave_info c) I2C_FINISH (slave_sends (slave_info c) bytes
                (on_event (slave_info c) I2C_START_SEND (slave_dev c)))\<rparr>]"
proof -
  have f: "find_slave (slave_address c) 0 (bus_children bus) = Some k"
    using find_slave_first[OF assms(1,2), of 0] assms(3) by simp
  let ?b1 = "send_event k I2C_START_SEND (bus\<lparr>current_dev := Some k\<rparr>)"
  have "i2c_sends bytes ?b1 = ?b1\<lparr>bus_children := (bus_children ?b1)[k :=
     (bus_children ?b1 ! k)\<lparr>slave_dev := slave_sends (slave_info (bus_children ?b1 ! k)) bytes
        (slave_dev (bus_children ?b1 ! k))\<rparr>]\<rparr>"
    using assms(2) by (intro i2c_sends_current) (simp_all add: send_event_def Let_def)
  then show ?thesis
    using assms(2,3)
    by (simp add: i2c_start_transfer_def f[unfolded assms(3)] Let_def i2c_end_transfer_def i2c_bus_busy_def send_event_def)
qed

text \<open>A slave that records what happens to it.\<close>

definition logger :: "u8 list I2CSlaveInfo" where
  "logger = \<lparr>on_event = (\<lambda>ev d. d @ [if ev = I2C_FINISH then 0xfe else 0xff]),
             on_recv = (\<lambda>d. (0, d)), on_send = (\<lambda>b d. (0, d @ [b]))\<rparr>"

definition two_loggers :: "u8 list i2c_bus" where
  "two_loggers = i2c_init_bus
     [\<lparr>slave_info = logger, slave_dev = [], slave_address = 0x3d\<rparr>,
      \<lparr>slave_info = logger, slave_dev = [], slave_address = 0x48\<rparr>]"

theorem i2c_transfer_delivers_witness:
  "map slave_dev (bus_children (i2c_end_transfer (i2c_sends [1, 2] (snd (i2c_start_transfer 0x48 False two_loggers)))))
     = [[], [0xff, 1, 2, 0xfe]]"
proof -
  let ?c = "bus_children two_loggers ! 1"
  have "distinct (map slave_address (bus_children two_loggers))" "1 < length (bus_children two_loggers)"
    "?c = bus_children two_loggers ! 1"
    by (simp_all add: two_loggers_def i2c_init_bus_def)
  from i2c_transfer_delivers[OF this, of "[1, 2]"] show ?thesis
    by (simp add: Let_def split_beta) (simp add: two_loggers_def i2c_init_bus_def logger_def)
qed

text \<open>
  Saving and loading the bus keeps the current device: after the bus and then all
  slaves have been loaded, the device that was being addressed is current again,
  provided addresses are distinct and the address 255 is not used.
\<close>

theorem i2c_migration_roundtrip:
  assumes "distinct (map slave_address (bus_children bus))" "wf_bus bus"
    and "\<forall>c \<in> set (bus_children bus). slave_address c \<noteq> - 1"
  shows "current_dev (fold i2c_slave_post_load [0..<length (bus_children bus)]
           (i2c_bus_post_load (i2c_bus_pre_save bus))) = current_dev bus"
proof -
  let ?b = "i2c_bus_post_load (i2c_bus_pre_save bus)" and ?cs = "bus_children bus"
  have step: "fold i2c_slave_post_load is b =
      b\<lparr>current_dev := (case filter (\<lambda>i. slave_address (bus_children b ! i) = saved_address b) is of
                          [] \<Rightarrow> current_dev b | js \<Rightarrow> Some (last js))\<rparr>" for "is" and b :: "'a i2c_bus"
    by (induction "is" arbitrary: b) (auto simp: i2c_slave_post_load_def split: list.splits)
  show ?thesis
  proof (cases "current_dev bus")
    case None
    have "filter (\<lambda>i. slave_address (?cs ! i) = - 1) [0..<length ?cs] = []"
      using assms(3) by (auto simp: filter_empty_conv)
    then show ?thesis
      using None by (simp add: step i2c_bus_post_load_def i2c_bus_pre_save_def)
  next
    case (Some i)
    then have i: "i < length ?cs" using assms(2) by (simp add: wf_bus_def)
    have "filter (\<lambda>j. slave_address (?cs ! j) = slave_address (?cs ! i)) [0..<length ?cs]
        = filter (\<lambda>j. j = i) [0..<length ?cs]"
      using assms(1) i by (intro filter_cong) (auto simp: distinct_conv_nth)
    also have "\<dots> = [i]" using i by (simp add: filter_eq_upt)
    finally show ?thesis
      using Some by (simp add: step i2c_bus_post_load_def i2c_bus_pre_save_def)
  qed
qed

theorem i2c_migration_roundtrip_witness:
  "current_dev (fold i2c_slave_post_load [0..<2]
     (i2c_bus_post_load (i2c_bus_pre_save (two_loggers\<lparr>current_dev := Some 1\<rparr>)))) = Some 1"
proof -
  let ?b = "two_loggers\<lparr>current_dev := Some 1\<rparr>"
  have "distinct (map slave_address (bus_children ?b))" "wf_bus ?b"
    "\<forall>c \<in> set (bus_children ?b). slave_address c \<noteq> - 1" and l: "length (bus_children ?b) = 2"
    by (simp_all add: two_loggers_def i2c_init_bus_def wf_bus_def)
  from i2c_migration_roundtrip[OF this(1-3)] show ?thesis
    unfolding l by simp
qed

end
