(* ===== verification/Stellaris_I2C.thy ===== *)
theory Stellaris_I2C
  imports I2C_Bus
begin

text \<open>
  The I2C master of the Stellaris boards (\<^verbatim>\<open>hw/stellaris.c\<close>, the \<^verbatim>\<open>stellaris_i2c_*\<close>
  functions), driving the bus of \<open>I2C_Bus\<close>.
\<close>

record 'd stellaris_i2c_state =
  i2c_bus_of :: "'d i2c_bus"
  i2c_irq :: bool
  i2c_msa :: u32
  i2c_mcs :: u32
  i2c_mdr :: u32
  i2c_mtpr :: u32
  i2c_mimr :: u32
  i2c_mris :: u32
  i2c_mcr :: u32

definition STELLARIS_I2C_MCS_ERROR :: u32 where "STELLARIS_I2C_MCS_ERROR = 0x02"
definition STELLARIS_I2C_MCS_ARBLST :: u32 where "STELLARIS_I2C_MCS_ARBLST = 0x10"
definition STELLARIS_I2C_MCS_IDLE :: u32 where "STELLARIS_I2C_MCS_IDLE = 0x20"
definition STELLARIS_I2C_MCS_BUSBSY :: u32 where "STELLARIS_I2C_MCS_BUSBSY = 0x40"

lemmas mcs_defs = STELLARIS_I2C_MCS_ERROR_def STELLARIS_I2C_MCS_ARBLST_def
  STELLARIS_I2C_MCS_IDLE_def STELLARIS_I2C_MCS_BUSBSY_def

section \<open>Operations\<close>

definition stellaris_i2c_read :: "u32 \<Rightarrow> 'd stellaris_i2c_state \<Rightarrow> u32 result" where
  "stellaris_i2c_read offset s =
     (if offset = 0x00 then Inr (i2c_msa s)
      else if offset = 0x04 then Inr (i2c_mcs s OR STELLARIS_I2C_MCS_IDLE)
      else if offset = 0x08 then Inr (i2c_mdr s)
      else if offset = 0x0c then Inr (i2c_mtpr s)
      else if offset = 0x10 then Inr (i2c_mimr s)
      else if offset = 0x14 then Inr (i2c_mris s)
      else if offset = 0x18 then Inr (i2c_mris s AND i2c_mimr s)
      else if offset = 0x20 then Inr (i2c_mcr s)
      else Inl Hw_Error)"

definition stellaris_i2c_update :: "'d stellaris_i2c_state \<Rightarrow> 'd stellaris_i2c_state" where
  "stellaris_i2c_update s = s\<lparr>i2c_irq := i2c_mris s AND i2c_mimr s \<noteq> 0\<rparr>"

text \<open>The bus is grabbed if a transfer starts.\<close>

definition mcs_grab :: "u32 \<Rightarrow> 'd stellaris_i2c_state \<Rightarrow> 'd stellaris_i2c_state" where
  "mcs_grab val s =
     (if val AND 2 \<noteq> 0 \<and> i2c_mcs s AND STELLARIS_I2C_MCS_BUSBSY = 0 then
        let (rc, bus) = i2c_start_transfer (ucast (drop_bit 1 (i2c_msa s))) (i2c_msa s AND 1 \<noteq> 0) (i2c_bus_of s);
            s = s\<lparr>i2c_bus_of := bus\<rparr>
        in if rc \<noteq> 0 then s\<lparr>i2c_mcs := i2c_mcs s OR STELLARIS_I2C_MCS_ARBLST\<rparr>
           else s\<lparr>i2c_mcs := (i2c_mcs s AND NOT STELLARIS_I2C_MCS_ARBLST) OR STELLARIS_I2C_MCS_BUSBSY\<rparr>
      else s)"

text \<open>One byte is transferred.\<close>

definition mcs_transfer :: "u32 \<Rightarrow> 'd stellaris_i2c_state \<Rightarrow> 'd stellaris_i2c_state" where
  "mcs_transfer val s =
     (if val AND 1 \<noteq> 0 then
        let s = (if i2c_msa s AND 1 \<noteq> 0 then
                   let (r, bus) = i2c_recv (i2c_bus_of s)
                   in s\<lparr>i2c_bus_of := bus, i2c_mdr := r AND 0xff\<rparr>
                 else s\<lparr>i2c_bus_of := snd (i2c_send (ucast (i2c_mdr s)) (i2c_bus_of s))\<rparr>)
        in s\<lparr>i2c_mris := i2c_mris s OR 1\<rparr>
      else s)"

definition mcs_finish :: "u32 \<Rightarrow> 'd stellaris_i2c_state \<Rightarrow> 'd stellaris_i2c_state" where
  "mcs_finish val s =
     (if val AND 4 \<noteq> 0 then
        s\<lparr>i2c_bus_of := i2c_end_transfer (i2c_bus_of s),
          i2c_mcs := i2c_mcs s AND NOT STELLARIS_I2C_MCS_BUSBSY\<rparr>
      else s)"

definition write_mcs :: "u32 \<Rightarrow> 'd stellaris_i2c_state \<Rightarrow> 'd stellaris_i2c_state" where
  "write_mcs val s =
     (if i2c_mcr s AND 0x10 = 0 then s
      else
        let s = mcs_grab val s in
        if \<not> i2c_bus_busy (i2c_bus_of s) \<or> i2c_mcs s AND STELLARIS_I2C_MCS_BUSBSY = 0
        then s\<lparr>i2c_mcs := i2c_mcs s OR STELLARIS_I2C_MCS_ERROR\<rparr>
        else mcs_finish val (mcs_transfer val
               (s\<lparr>i2c_mcs := i2c_mcs s AND NOT STELLARIS_I2C_MCS_ERROR\<rparr>)))"

definition stellaris_i2c_write :: "u32 \<Rightarrow> u32 \<Rightarrow> 'd stellaris_i2c_state \<Rightarrow> 'd stellaris_i2c_state result" where
  "stellaris_i2c_write offset val s =
     rbind
       (if offset = 0x00 then Inr (s\<lparr>i2c_msa := val AND 0xff\<rparr>)
        else if offset = 0x04 then Inr (write_mcs val s)
        else if offset = 0x08 then Inr (s\<lparr>i2c_mdr := val AND 0xff\<rparr>)
        else if offset = 0x0c then Inr (s\<lparr>i2c_mtpr := val AND 0xff\<rparr>)
        else if offset = 0x10 then Inr (s\<lparr>i2c_mimr := 1\<rparr>)
        else if offset = 0x1c then Inr (s\<lparr>i2c_mris := i2c_mris s AND NOT val\<rparr>)
        else if offset = 0x20 then
          if val AND 1 \<noteq> 0 then Inl Hw_Error
          else if val AND 0x20 \<noteq> 0 then Inl Hw_Error
          else Inr (s\<lparr>i2c_mcr := val AND 0x31\<rparr>)
        else Inl Hw_Error)
       (\<lambda>s. Inr (stellaris_i2c_update s))"

definition stellaris_i2c_reset :: "'d stellaris_i2c_state \<Rightarrow> 'd stellaris_i2c_state" where
  "stellaris_i2c_reset s =
     (let s = (if i2c_mcs s AND STELLARIS_I2C_MCS_BUSBSY \<noteq> 0
               then s\<lparr>i2c_bus_of := i2c_end_transfer (i2c_bus_of s)\<rparr> else s)
      in stellaris_i2c_update
           (s\<lparr>i2c_msa := 0, i2c_mcs := 0, i2c_mdr := 0, i2c_mtpr := 1, i2c_mimr := 0,
              i2c_mris := 0, i2c_mcr := 0\<rparr>))"

definition stellaris_i2c_init :: "'d i2c_slave list \<Rightarrow> 'd stellaris_i2c_state" where
  "stellaris_i2c_init slaves =
     stellaris_i2c_reset \<lparr>i2c_bus_of = i2c_init_bus slaves, i2c_irq = False, i2c_msa = 0, i2c_mcs = 0,
       i2c_mdr = 0, i2c_mtpr = 0, i2c_mimr = 0, i2c_mris = 0, i2c_mcr = 0\<rparr>"

section \<open>The invariant of the master\<close>

text \<open>
  The master owns the bus exactly while its busy bit is set, and its interrupt line
  follows the masked raw status.
\<close>

definition i2c_inv :: "'d stellaris_i2c_state \<Rightarrow> bool" where
  "i2c_inv s \<longleftrightarrow> (i2c_mcs s AND STELLARIS_I2C_MCS_BUSBSY \<noteq> 0) = i2c_bus_busy (i2c_bus_of s)"

definition i2c_line :: "'d stellaris_i2c_state \<Rightarrow> bool" where
  "i2c_line s \<longleftrightarrow> i2c_irq s = (i2c_mris s AND i2c_mimr s \<noteq> 0)"

lemma busbsy_bit: "x AND STELLARIS_I2C_MCS_BUSBSY \<noteq> 0 \<longleftrightarrow> bit x 6"
  using and_exp_eq_0_iff_not_bit[of x 6] by (simp add: STELLARIS_I2C_MCS_BUSBSY_def)

lemma busbsy_bit_0: "x AND STELLARIS_I2C_MCS_BUSBSY = 0 \<longleftrightarrow> \<not> bit x 6"
  using busbsy_bit[of x] by blast

lemma busbsy_updates:
  "bit (x OR STELLARIS_I2C_MCS_ARBLST) 6 = bit x 6" "bit (x OR STELLARIS_I2C_MCS_ERROR) 6 = bit x 6"
  "bit (x AND NOT STELLARIS_I2C_MCS_ERROR) 6 = bit x 6" "bit (x OR STELLARIS_I2C_MCS_BUSBSY) 6"
  "\<not> bit (x AND NOT STELLARIS_I2C_MCS_BUSBSY) 6"
  by (simp_all add: mcs_defs bit_or_iff bit_and_iff bit_not_iff)

lemmas busbsy = busbsy_bit busbsy_bit_0 busbsy_updates

lemma i2c_inv_grab:
  assumes "i2c_inv s"
  shows "i2c_inv (mcs_grab v s)"
proof -
  obtain rc b where st: "i2c_start_transfer (ucast (drop_bit 1 (i2c_msa s))) (i2c_msa s AND 1 \<noteq> 0) (i2c_bus_of s) = (rc, b)"
    by fastforce
  from start_transfer_busy[OF st] assms show ?thesis
    by (auto simp: i2c_inv_def mcs_grab_def busbsy st[simplified])
qed

lemma i2c_inv_transfer: "i2c_inv s \<Longrightarrow> i2c_inv (mcs_transfer v s)"
  by (auto simp: i2c_inv_def mcs_transfer_def Let_def split_beta i2c_bus_busy_def)

lemma i2c_inv_finish: "i2c_inv s \<Longrightarrow> i2c_inv (mcs_finish v s)"
  by (auto simp: i2c_inv_def mcs_finish_def busbsy i2c_bus_busy_def)

lemma i2c_inv_write_mcs: "i2c_inv s \<Longrightarrow> i2c_inv (write_mcs v s)"
proof -
  assume "i2c_inv s"
  then have g: "i2c_inv (mcs_grab v s)" by (rule i2c_inv_grab)
  then have "i2c_inv ((mcs_grab v s)\<lparr>i2c_mcs := i2c_mcs (mcs_grab v s) AND NOT STELLARIS_I2C_MCS_ERROR\<rparr>)"
    "i2c_inv ((mcs_grab v s)\<lparr>i2c_mcs := i2c_mcs (mcs_grab v s) OR STELLARIS_I2C_MCS_ERROR\<rparr>)"
    by (simp_all add: i2c_inv_def busbsy)
  with \<open>i2c_inv s\<close> show ?thesis
    by (simp add: write_mcs_def Let_def i2c_inv_finish i2c_inv_transfer)
qed

lemma i2c_write_inv:
  assumes "i2c_inv s"
  shows "ensures (\<lambda>s'. i2c_inv s' \<and> i2c_line s') (stellaris_i2c_write off v s)"
proof -
  have u: "i2c_inv t \<Longrightarrow> i2c_inv (stellaris_i2c_update t) \<and> i2c_line (stellaris_i2c_update t)"
    for t :: "'a stellaris_i2c_state"
    by (simp add: i2c_inv_def i2c_line_def stellaris_i2c_update_def)
  show ?thesis
    unfolding stellaris_i2c_write_def ensures_rbind ensures_Inr
    by (rule ensures_mono[OF _ u], simp only: ensures_if ensures_Inr ensures_Inl)
      (use assms i2c_inv_write_mcs[OF assms, of v] in \<open>auto simp: i2c_inv_def\<close>)
qed

lemma i2c_reset_inv: "i2c_inv s \<Longrightarrow> i2c_inv (stellaris_i2c_reset s) \<and> i2c_line (stellaris_i2c_reset s)"
  by (auto simp: i2c_inv_def i2c_line_def stellaris_i2c_reset_def stellaris_i2c_update_def
      busbsy i2c_bus_busy_def Let_def)

inductive i2c_reachable :: "'d i2c_slave list \<Rightarrow> 'd stellaris_i2c_state \<Rightarrow> bool" for slaves where
  init: "i2c_reachable slaves (stellaris_i2c_init slaves)"
| guest_write: "i2c_reachable slaves s \<Longrightarrow> stellaris_i2c_write off v s = Inr s' \<Longrightarrow> i2c_reachable slaves s'"
| reset: "i2c_reachable slaves s \<Longrightarrow> i2c_reachable slaves (stellaris_i2c_reset s)"

lemma i2c_reachable_inv: "i2c_reachable slaves s \<Longrightarrow> i2c_inv s \<and> i2c_line s"
proof (induction rule: i2c_reachable.induct)
  case init
  show ?case unfolding stellaris_i2c_init_def
    by (rule i2c_reset_inv) (simp add: i2c_inv_def i2c_init_bus_def i2c_bus_busy_def)
next
  case (guest_write s off v s')
  then show ?case using i2c_write_inv[of s off v] by (blast dest: ensuresD)
next
  case (reset s)
  then show ?case using i2c_reset_inv by blast
qed

section \<open>Properties\<close>

text \<open>
  In every reachable state the master's busy bit is set exactly while a slave is
  addressed on the bus, and the interrupt line is high exactly when the interrupt is
  both raised and enabled.
\<close>

theorem i2c_master_invariant:
  assumes "i2c_reachable slaves s"
  shows "(i2c_mcs s AND STELLARIS_I2C_MCS_BUSBSY \<noteq> 0) = i2c_bus_busy (i2c_bus_of s) \<and>
    i2c_irq s = (i2c_mris s AND i2c_mimr s \<noteq> 0)"
  using i2c_reachable_inv[OF assms] by (simp add: i2c_inv_def i2c_line_def)

definition logger_slaves :: "u8 list i2c_slave list" where
  "logger_slaves = [\<lparr>slave_info = logger, slave_dev = [], slave_address = 0x3d\<rparr>]"

theorem i2c_master_invariant_witness:
  "i2c_reachable logger_slaves (stellaris_i2c_init logger_slaves) \<and>
   \<not> i2c_bus_busy (i2c_bus_of (stellaris_i2c_init logger_slaves)) \<and> \<not> i2c_irq (stellaris_i2c_init logger_slaves)"
  using i2c_master_invariant[OF i2c_reachable.init[of logger_slaves]] i2c_reachable.init[of logger_slaves]
  by (simp add: stellaris_i2c_init_def stellaris_i2c_reset_def stellaris_i2c_update_def)

text \<open>
  A single-byte write (the data register, then start, run and stop in one command)
  on an enabled, idle master delivers the byte to the addressed slave between its start
  and finish events, releases the bus, leaves no error and raises the interrupt.
\<close>

theorem i2c_send_byte:
  assumes "i2c_mcr s AND 0x10 \<noteq> 0" "i2c_mcs s AND STELLARIS_I2C_MCS_BUSBSY = 0" "i2c_msa s AND 1 = 0"
    and "find_slave (ucast (drop_bit 1 (i2c_msa s))) 0 (bus_children (i2c_bus_of s)) = Some k"
    and "c = bus_children (i2c_bus_of s) ! k"
  shows "\<exists>s1 s2. stellaris_i2c_write 0x08 v s = Inr s1 \<and> stellaris_i2c_write 0x04 7 s1 = Inr s2 \<and>
    bus_children (i2c_bus_of s2) = (bus_children (i2c_bus_of s))[k := c\<lparr>slave_dev :=
      on_event (slave_info c) I2C_FINISH (snd (on_send (slave_info c) (ucast v)
        (on_event (slave_info c) I2C_START_SEND (slave_dev c))))\<rparr>] \<and>
    \<not> i2c_bus_busy (i2c_bus_of s2) \<and> i2c_mcs s2 AND STELLARIS_I2C_MCS_BUSBSY = 0 \<and>
    i2c_mcs s2 AND STELLARIS_I2C_MCS_ERROR = 0 \<and> i2c_mris s2 AND 1 = 1"
proof -
  have k: "k < length (bus_children (i2c_bus_of s))" using find_slave_Some[OF assms(4)] by simp
  have b: "ucast (v AND 0xff) = (ucast v :: u8)"
    by (rule byte_mask)
  have o: "(x OR 1) AND 1 = (1 :: u32)" for x by (simp add: bit_eq_iff bit_simps)
  have e: "((x AND NOT STELLARIS_I2C_MCS_ERROR) AND NOT STELLARIS_I2C_MCS_BUSBSY) AND STELLARIS_I2C_MCS_ERROR = 0" for x
    by (simp add: mcs_defs and.assoc)
  define s1 where "s1 = stellaris_i2c_update (s\<lparr>i2c_mdr := v AND 0xff\<rparr>)"
  have s1: "i2c_mcr s1 = i2c_mcr s" "i2c_mcs s1 = i2c_mcs s" "i2c_msa s1 = i2c_msa s"
    "i2c_bus_of s1 = i2c_bus_of s" "i2c_mdr s1 = v AND 0xff" "i2c_mris s1 = i2c_mris s"
    by (simp_all add: s1_def stellaris_i2c_update_def)
  have w1: "stellaris_i2c_write 0x08 v s = Inr s1"
    by (simp add: stellaris_i2c_write_def s1_def)
  define b1 where "b1 = send_event k I2C_START_SEND ((i2c_bus_of s)\<lparr>current_dev := Some k\<rparr>)"
  define m1 where "m1 = (i2c_mcs s AND NOT STELLARIS_I2C_MCS_ARBLST) OR STELLARIS_I2C_MCS_BUSBSY"
  have g: "mcs_grab 7 s1 = s1\<lparr>i2c_bus_of := b1, i2c_mcs := m1\<rparr>"
    using assms(2,3) assms(4)[simplified]
    by (simp add: mcs_grab_def s1 i2c_start_transfer_def b1_def m1_def)
  define s2 where "s2 = s1\<lparr>i2c_bus_of := b1, i2c_mcs := m1 AND NOT STELLARIS_I2C_MCS_ERROR\<rparr>"
  have c1: "current_dev b1 = Some k" by (simp add: b1_def)
  have c: "write_mcs 7 s1 = mcs_finish 7 (mcs_transfer 7 s2)"
    using assms(1) c1 by (simp add: write_mcs_def s1 g Let_def i2c_bus_busy_def m1_def busbsy s2_def)
  define s3 where "s3 = s2\<lparr>i2c_bus_of := snd (i2c_send (ucast v) b1), i2c_mris := i2c_mris s OR 1\<rparr>"
  have t: "mcs_transfer 7 s2 = s3"
    using assms(3) by (simp add: mcs_transfer_def s2_def s3_def s1 b Let_def)
  have w2: "stellaris_i2c_write 0x04 7 s1 = Inr (stellaris_i2c_update (mcs_finish 7 s3))"
    by (simp add: stellaris_i2c_write_def c t)
  have d: "bus_children (i2c_end_transfer (snd (i2c_send (ucast v) b1))) =
    (bus_children (i2c_bus_of s))[k := c\<lparr>slave_dev :=
      on_event (slave_info c) I2C_FINISH (snd (on_send (slave_info c) (ucast v)
        (on_event (slave_info c) I2C_START_SEND (slave_dev c))))\<rparr>]"
    using k by (simp add: b1_def i2c_end_transfer_def i2c_send_def send_event_def Let_def split_beta assms(5))
  show ?thesis
    by (rule exI[of _ s1], rule exI[of _ "stellaris_i2c_update (mcs_finish 7 s3)"])
      (simp add: w1 w2 stellaris_i2c_update_def mcs_finish_def s3_def s2_def d i2c_bus_busy_def busbsy o e)
qed

theorem i2c_send_byte_witness:
  "\<exists>s2. rbind (stellaris_i2c_write 0x08 0x5a ((stellaris_i2c_init logger_slaves)\<lparr>i2c_mcr := 0x10, i2c_msa := 0x7a\<rparr>))
          (stellaris_i2c_write 0x04 7) = Inr s2 \<and>
     map slave_dev (bus_children (i2c_bus_of s2)) = [[0xff, 0x5a, 0xfe]] \<and> \<not> i2c_bus_busy (i2c_bus_of s2)"
proof -
  let ?s = "(stellaris_i2c_init logger_slaves)\<lparr>i2c_mcr := 0x10, i2c_msa := 0x7a\<rparr>"
  have c: "bus_children (i2c_bus_of ?s) = logger_slaves"
    by (simp add: stellaris_i2c_init_def stellaris_i2c_reset_def stellaris_i2c_update_def i2c_init_bus_def)
  have "i2c_mcr ?s AND 0x10 \<noteq> 0" "i2c_mcs ?s AND STELLARIS_I2C_MCS_BUSBSY = 0" "i2c_msa ?s AND 1 = 0"
    "find_slave (ucast (drop_bit 1 (i2c_msa ?s))) 0 (bus_children (i2c_bus_of ?s)) = Some 0"
    "logger_slaves ! 0 = bus_children (i2c_bus_of ?s) ! 0"
    unfolding c
    by (simp_all add: stellaris_i2c_init_def stellaris_i2c_reset_def stellaris_i2c_update_def logger_slaves_def)
  from i2c_send_byte[OF this, of "0x5a"] obtain s1 s2 where
    "stellaris_i2c_write 0x08 0x5a ?s = Inr s1" "stellaris_i2c_write 0x04 7 s1 = Inr s2"
    "map slave_dev (bus_children (i2c_bus_of s2)) = [[0xff, 0x5a, 0xfe]]" "\<not> i2c_bus_busy (i2c_bus_of s2)"
    unfolding c by (auto simp: logger_slaves_def logger_def)
  then show ?thesis by auto
qed

text \<open>
  The interrupt of the master can be enabled but not disabled again: writing any
  value to the mask register, zero included, enables it.
\<close>

theorem i2c_mask_stuck:
  "\<exists>s'. stellaris_i2c_write 0x10 v s = Inr s' \<and> stellaris_i2c_read 0x10 s' = Inr 1"
  by (simp add: stellaris_i2c_write_def stellaris_i2c_read_def stellaris_i2c_update_def)

end
