(* ===== verification/PL011.thy ===== *)
theory PL011
  imports Vemu_Interfaces
begin

text \<open>
  The PL011 UART (\<^verbatim>\<open>hw/pl011.c\<close>). The character device behind it is the list of the
  bytes written to it, if one is attached; the interrupt line is the level last driven.
  The receive buffer is an array of 16 words with a position and a count; writing
  outside it is a fault.
\<close>

record pl011_state =
  pl011_flags :: u32
  pl011_lcr :: u32
  pl011_cr :: u32
  pl011_dmacr :: u32
  int_enabled :: u32
  int_level :: u32
  read_fifo :: "u32 list"
  ilpr :: u32
  ibrd :: u32
  fbrd :: u32
  ifl :: u32
  read_pos :: nat
  read_count :: nat
  read_trigger :: nat
  chr_out :: "u8 list option"
  pl011_irq :: bool
  pl011_id :: "u8 list"

definition PL011_INT_TX :: u32 where "PL011_INT_TX = 0x20"
definition PL011_INT_RX :: u32 where "PL011_INT_RX = 0x10"
definition PL011_FLAG_RXFF :: u32 where "PL011_FLAG_RXFF = 0x40"
definition PL011_FLAG_RXFE :: u32 where "PL011_FLAG_RXFE = 0x10"
definition CHR_EVENT_BREAK :: i32 where "CHR_EVENT_BREAK = 0"

definition pl011_id_arm :: "u8 list" where
  "pl011_id_arm = [0x11, 0x10, 0x14, 0x00, 0x0d, 0xf0, 0x05, 0xb1]"

definition pl011_id_luminary :: "u8 list" where
  "pl011_id_luminary = [0x11, 0x00, 0x18, 0x01, 0x0d, 0xf0, 0x05, 0xb1]"

section \<open>Operations\<close>

definition pl011_update :: "pl011_state \<Rightarrow> pl011_state" where
  "pl011_update s = s\<lparr>pl011_irq := int_level s AND int_enabled s \<noteq> 0\<rparr>"

definition read_uartdr :: "pl011_state \<Rightarrow> (u32 \<times> pl011_state) result" where
  "read_uartdr s =
     (let s = s\<lparr>pl011_flags := pl011_flags s AND NOT PL011_FLAG_RXFF\<rparr> in
      rbind (aget (read_fifo s) (read_pos s)) (\<lambda>c.
      let s = (if 0 < read_count s
               then s\<lparr>read_count := read_count s - 1,
                      read_pos := (if read_pos s + 1 = 16 then 0 else read_pos s + 1)\<rparr>
               else s);
          s = (if read_count s = 0 then s\<lparr>pl011_flags := pl011_flags s OR PL011_FLAG_RXFE\<rparr> else s);
          s = (if read_count s + 1 = read_trigger s
               then s\<lparr>int_level := int_level s AND NOT PL011_INT_RX\<rparr> else s)
      in Inr (c, pl011_update s)))"

definition pl011_read :: "u32 \<Rightarrow> pl011_state \<Rightarrow> (u32 \<times> pl011_state) result" where
  "pl011_read offset s =
     (if 0xfe0 \<le> offset \<and> offset < 0x1000 then
        rbind (aget (pl011_id s) (unat (drop_bit 2 (offset - 0xfe0)))) (\<lambda>b. Inr (ucast b, s))
      else let r = drop_bit 2 offset in
        if r = 0 then read_uartdr s
        else if r = 1 then Inr (0, s)
        else if r = 6 then Inr (pl011_flags s, s)
        else if r = 8 then Inr (ilpr s, s)
        else if r = 9 then Inr (ibrd s, s)
        else if r = 10 then Inr (fbrd s, s)
        else if r = 11 then Inr (pl011_lcr s, s)
        else if r = 12 then Inr (pl011_cr s, s)
        else if r = 13 then Inr (ifl s, s)
        else if r = 14 then Inr (int_enabled s, s)
        else if r = 15 then Inr (int_level s, s)
        else if r = 16 then Inr (int_level s AND int_enabled s, s)
        else if r = 18 then Inr (pl011_dmacr s, s)
        else Inl Hw_Error)"

definition pl011_set_read_trigger :: "pl011_state \<Rightarrow> pl011_state" where
  "pl011_set_read_trigger s = s\<lparr>read_trigger := 1\<rparr>"

definition write_uartdr :: "u32 \<Rightarrow> pl011_state \<Rightarrow> pl011_state" where
  "write_uartdr val s =
     pl011_update (s\<lparr>chr_out := map_option (\<lambda>out. out @ [ucast val]) (chr_out s),
                     int_level := int_level s OR PL011_INT_TX\<rparr>)"

definition pl011_write :: "u32 \<Rightarrow> u32 \<Rightarrow> pl011_state \<Rightarrow> pl011_state result" where
  "pl011_write offset val s =
     (let r = drop_bit 2 offset in
      if r = 0 then Inr (write_uartdr val s)
      else if r = 1 then Inr (s\<lparr>pl011_cr := val\<rparr>)
      else if r = 6 then Inr s
      else if r = 8 then Inr (s\<lparr>ilpr := val\<rparr>)
      else if r = 9 then Inr (s\<lparr>ibrd := val\<rparr>)
      else if r = 10 then Inr (s\<lparr>fbrd := val\<rparr>)
      else if r = 11 then Inr (pl011_set_read_trigger (s\<lparr>pl011_lcr := val\<rparr>))
      else if r = 12 then Inr (s\<lparr>pl011_cr := val\<rparr>)
      else if r = 13 then Inr (pl011_set_read_trigger (s\<lparr>ifl := val\<rparr>))
      else if r = 14 then Inr (pl011_update (s\<lparr>int_enabled := val\<rparr>))
      else if r = 17 then Inr (pl011_update (s\<lparr>int_level := int_level s AND NOT val\<rparr>))
      else if r = 18 then
        if val AND 3 \<noteq> 0 then Inl Hw_Error else Inr (s\<lparr>pl011_dmacr := val\<rparr>)
      else Inl Hw_Error)"

definition pl011_can_receive :: "pl011_state \<Rightarrow> bool" where
  "pl011_can_receive s = (if pl011_lcr s AND 0x10 \<noteq> 0 then read_count s < 16 else read_count s < 1)"

definition pl011_put_fifo :: "u32 \<Rightarrow> pl011_state \<Rightarrow> pl011_state result" where
  "pl011_put_fifo val s =
     (let slot = read_pos s + read_count s;
          slot = (if 16 \<le> slot then slot - 16 else slot)
      in rbind (aset (read_fifo s) slot val) (\<lambda>buf.
      let s = s\<lparr>read_fifo := buf, read_count := read_count s + 1,
                pl011_flags := pl011_flags s AND NOT PL011_FLAG_RXFE\<rparr>;
          s = (if pl011_cr s AND 0x10 \<noteq> 0 \<or> read_count s = 16
               then s\<lparr>pl011_flags := pl011_flags s OR PL011_FLAG_RXFF\<rparr> else s)
      in Inr (if read_count s = read_trigger s
              then pl011_update (s\<lparr>int_level := int_level s OR PL011_INT_RX\<rparr>) else s)))"

definition pl011_receive :: "u8 \<Rightarrow> pl011_state \<Rightarrow> pl011_state result" where
  "pl011_receive byte s = pl011_put_fifo (ucast byte) s"

definition pl011_event :: "i32 \<Rightarrow> pl011_state \<Rightarrow> pl011_state result" where
  "pl011_event event s = (if event = CHR_EVENT_BREAK then pl011_put_fifo 0x400 s else Inr s)"

definition pl011_init :: "u8 list \<Rightarrow> bool \<Rightarrow> pl011_state" where
  "pl011_init idbytes has_chr =
     \<lparr>pl011_flags = 0x90, pl011_lcr = 0, pl011_cr = 0x300, pl011_dmacr = 0, int_enabled = 0, int_level = 0,
      read_fifo = replicate 16 0, ilpr = 0, ibrd = 0, fbrd = 0, ifl = 0x12, read_pos = 0, read_count = 0,
      read_trigger = 1, chr_out = (if has_chr then Some [] else None), pl011_irq = False,
      pl011_id = idbytes\<rparr>"

definition pl011_init_arm :: "bool \<Rightarrow> pl011_state" where
  "pl011_init_arm has_chr = pl011_init pl011_id_arm has_chr"

definition pl011_init_luminary :: "bool \<Rightarrow> pl011_state" where
  "pl011_init_luminary has_chr = pl011_init pl011_id_luminary has_chr"

section \<open>The receive buffer as a queue\<close>

definition rx_contents :: "pl011_state \<Rightarrow> u32 list" where
  "rx_contents s = map (\<lambda>k. read_fifo s ! ((read_pos s + k) mod 16)) [0..<read_count s]"

definition rx_ok :: "pl011_state \<Rightarrow> bool" where
  "rx_ok s \<longleftrightarrow> length (read_fifo s) = 16 \<and> read_pos s < 16 \<and> read_count s \<le> 16"

definition rx_full :: "pl011_state \<Rightarrow> bool" where
  "rx_full s \<longleftrightarrow> read_count s = 16"

text \<open>The operations on states in which they do not fault.\<close>

definition rx_enq :: "pl011_state \<Rightarrow> u32 \<Rightarrow> pl011_state" where
  "rx_enq s v = (case pl011_put_fifo v s of Inr s' \<Rightarrow> s' | Inl _ \<Rightarrow> s)"

definition rx_deq :: "pl011_state \<Rightarrow> pl011_state" where
  "rx_deq s = (case pl011_read 0 s of Inr (_, s') \<Rightarrow> s' | Inl _ \<Rightarrow> s)"

definition rx_front :: "pl011_state \<Rightarrow> u32" where
  "rx_front s = (case pl011_read 0 s of Inr (c, _) \<Rightarrow> c | Inl _ \<Rightarrow> 0)"

lemma slot_mod: "p < 16 \<Longrightarrow> c \<le> 16 \<Longrightarrow> (if 16 \<le> p + c then p + c - 16 else p + c) = (p + c) mod 16" for p c :: nat
  by (auto simp: mod_if)

lemma put_fifo_returns:
  assumes "rx_ok s"
  shows "\<exists>s'. pl011_put_fifo v s = Inr s' \<and>
    read_fifo s' = (read_fifo s)[(read_pos s + read_count s) mod 16 := v] \<and>
    read_pos s' = read_pos s \<and> read_count s' = read_count s + 1"
  using assms unfolding pl011_put_fifo_def Let_def rx_ok_def
  by (subst slot_mod) (simp_all add: pl011_update_def)

lemma rx_enq_fields:
  assumes "rx_ok s"
  shows "pl011_put_fifo v s = Inr (rx_enq s v)"
    "read_fifo (rx_enq s v) = (read_fifo s)[(read_pos s + read_count s) mod 16 := v]"
    "read_pos (rx_enq s v) = read_pos s" "read_count (rx_enq s v) = read_count s + 1"
  using put_fifo_returns[OF assms, of v] by (auto simp: rx_enq_def)

lemma rx_deq_fields:
  assumes "rx_ok s"
  shows "pl011_read 0 s = Inr (read_fifo s ! read_pos s, rx_deq s)"
    "rx_front s = read_fifo s ! read_pos s"
    "read_fifo (rx_deq s) = read_fifo s"
    "read_pos (rx_deq s) = (if 0 < read_count s then (read_pos s + 1) mod 16 else read_pos s)"
    "read_count (rx_deq s) = read_count s - 1"
  using assms
  by (simp_all add: rx_deq_def rx_front_def pl011_read_def read_uartdr_def rx_ok_def pl011_update_def
      Let_def mod_if)

lemma rx_contents_enq:
  assumes "rx_ok s" "\<not> rx_full s"
  shows "rx_contents (rx_enq s v) = rx_contents s @ [v]"
proof -
  let ?h = "(read_pos s + read_count s) mod 16"
  have c: "read_count s < 16" using assms by (simp add: rx_ok_def rx_full_def)
  have ne: "?h \<noteq> (read_pos s + k) mod 16" if "k < read_count s" for k
    using that c by (intro mod_add_neq[symmetric]) simp_all
  have "map (\<lambda>k. (read_fifo s)[?h := v] ! ((read_pos s + k) mod 16)) [0..<read_count s] = rx_contents s"
    by (simp add: rx_contents_def ne)
  moreover have "(read_fifo s)[?h := v] ! ?h = v" using assms(1) by (simp add: rx_ok_def)
  ultimately show ?thesis
    unfolding rx_contents_def rx_enq_fields[OF assms(1)] Suc_eq_plus1[symmetric]
      upt_Suc_append[OF le0] map_append list.map by simp
qed

lemma rx_contents_deq:
  assumes "rx_ok s" "rx_contents s \<noteq> []"
  shows "rx_contents s = rx_front s # rx_contents (rx_deq s)"
proof -
  from assms(2) obtain n where n: "read_count s = Suc n"
    by (cases "read_count s") (auto simp: rx_contents_def)
  have m: "((read_pos s + 1) mod 16 + k) mod 16 = (read_pos s + Suc k) mod 16" for k
    by (metis add.assoc mod_add_left_eq plus_1_eq_Suc)
  have p: "read_pos s mod 16 = read_pos s" using assms(1) by (simp add: rx_ok_def)
  have "[0..<Suc n] = 0 # map Suc [0..<n]" by (simp add: upt_conv_Cons map_Suc_upt del: upt_Suc)
  then have "rx_contents s = read_fifo s ! read_pos s #
      map (\<lambda>k. read_fifo s ! ((read_pos s + Suc k) mod 16)) [0..<n]"
    by (simp add: rx_contents_def n p del: upt_Suc)
  then show ?thesis
    using rx_deq_fields[OF assms(1)] by (simp add: rx_contents_def n m[simplified])
qed

interpretation rx: fifo rx_contents rx_enq rx_deq rx_front rx_full rx_ok
proof
  fix q v assume "rx_ok q" "\<not> rx_full q"
  then show "rx_contents (rx_enq q v) = rx_contents q @ [v]" by (rule rx_contents_enq)
next
  fix q assume "rx_ok q" "rx_contents q \<noteq> []"
  then show "rx_contents (rx_deq q) = tl (rx_contents q)" "rx_front q = hd (rx_contents q)"
    using rx_contents_deq[of q] by simp_all
next
  fix q v assume "rx_ok q" "\<not> rx_full q"
  then show "rx_ok (rx_enq q v)"
    using rx_enq_fields[of q v] by (simp add: rx_ok_def rx_full_def)
next
  fix q assume "rx_ok q" "rx_contents q \<noteq> []"
  then show "rx_ok (rx_deq q)"
    using rx_deq_fields[of q] by (auto simp: rx_ok_def)
qed

section \<open>Runs\<close>

primrec pl011_receives :: "u8 list \<Rightarrow> pl011_state \<Rightarrow> pl011_state result" where
  "pl011_receives [] s = Inr s"
| "pl011_receives (b # bs) s = rbind (pl011_receive b s) (pl011_receives bs)"

primrec pl011_reads :: "nat \<Rightarrow> pl011_state \<Rightarrow> (u32 list \<times> pl011_state) result" where
  "pl011_reads 0 s = Inr ([], s)"
| "pl011_reads (Suc n) s =
     rbind (pl011_read 0 s) (\<lambda>(c, s). rbind (pl011_reads n s) (\<lambda>(cs, s). Inr (c # cs, s)))"

primrec pl011_breaks :: "nat \<Rightarrow> pl011_state \<Rightarrow> pl011_state result" where
  "pl011_breaks 0 s = Inr s"
| "pl011_breaks (Suc n) s = rbind (pl011_event CHR_EVENT_BREAK s) (pl011_breaks n)"

lemma pl011_receives_contents:
  assumes "rx_ok s" "length (rx_contents s) + length bs \<le> 16"
  shows "\<exists>s'. pl011_receives bs s = Inr s' \<and> rx_ok s' \<and> rx_contents s' = rx_contents s @ map ucast bs"
  using assms
proof (induction bs arbitrary: s)
  case Nil
  then show ?case by simp
next
  case (Cons b bs)
  let ?s = "rx_enq s (ucast b)"
  have nf: "\<not> rx_full s" using Cons.prems(2) by (simp add: rx_full_def rx_contents_def)
  have "rx_ok ?s" "rx_contents ?s = rx_contents s @ [ucast b]"
    using Cons.prems(1) nf by (simp_all add: rx.invar_enq rx.contents_enq)
  with Cons.IH[of ?s] Cons.prems show ?case
    by (auto simp: pl011_receive_def rx_enq_fields(1))
qed

lemma pl011_reads_contents:
  assumes "rx_ok s" "n \<le> length (rx_contents s)"
  shows "\<exists>s'. pl011_reads n s = Inr (take n (rx_contents s), s') \<and> rx_ok s' \<and>
    rx_contents s' = drop n (rx_contents s)"
  using assms
proof (induction n arbitrary: s)
  case 0
  then show ?case by simp
next
  case (Suc n)
  then have ne: "rx_contents s \<noteq> []" by auto
  have d: "rx_contents s = rx_front s # rx_contents (rx_deq s)" "rx_ok (rx_deq s)"
    using rx_contents_deq[OF Suc.prems(1) ne] rx.invar_deq[OF Suc.prems(1) ne] .
  from d(1) have l: "length (rx_contents s) = Suc (length (rx_contents (rx_deq s)))"
    by (metis length_Cons)
  then obtain s' where s': "pl011_reads n (rx_deq s) = Inr (take n (rx_contents (rx_deq s)), s')"
    "rx_ok s'" "rx_contents s' = drop n (rx_contents (rx_deq s))"
    using Suc.IH[OF d(2)] Suc.prems(2) by auto
  have "pl011_read 0 s = Inr (rx_front s, rx_deq s)"
    using rx_deq_fields(1,2)[OF Suc.prems(1)] by simp
  then have "pl011_reads (Suc n) s = Inr (take (Suc n) (rx_contents s), s')"
    using s'(1) by (subst d(1)) simp
  moreover have "rx_contents s' = drop (Suc n) (rx_contents s)"
    using s'(3) by (subst d(1)) simp
  ultimately show ?case using s'(2) by blast
qed

lemma pl011_breaks_last:
  "pl011_breaks (Suc n) s = rbind (pl011_breaks n s) (pl011_event CHR_EVENT_BREAK)"
proof (induction n arbitrary: s)
  case 0
  show ?case by (simp add: rbind_def split: sum.split)
next
  case (Suc n)
  have "pl011_breaks (Suc n) = (\<lambda>x. rbind (pl011_breaks n x) (pl011_event CHR_EVENT_BREAK))"
    by (rule ext) (rule Suc.IH)
  then show ?case
    unfolding pl011_breaks.simps(2)[of "Suc n"] by (simp only: rbind_assoc[symmetric] pl011_breaks.simps(2)[symmetric])
qed

lemma pl011_breaks_count:
  assumes "length (read_fifo s) = 16" "read_pos s + read_count s + n \<le> 32"
  shows "\<exists>s'. pl011_breaks n s = Inr s' \<and> length (read_fifo s') = 16 \<and>
    read_pos s' = read_pos s \<and> read_count s' = read_count s + n"
  using assms
proof (induction n arbitrary: s)
  case 0
  then show ?case by simp
next
  case (Suc n)
  have "\<exists>s1. pl011_event CHR_EVENT_BREAK s = Inr s1 \<and> length (read_fifo s1) = 16 \<and>
      read_pos s1 = read_pos s \<and> read_count s1 = Suc (read_count s)"
    using Suc.prems by (auto simp: pl011_event_def pl011_put_fifo_def Let_def pl011_update_def)
  then obtain s1 where s1: "pl011_event CHR_EVENT_BREAK s = Inr s1" "length (read_fifo s1) = 16"
      "read_pos s1 = read_pos s" "read_count s1 = Suc (read_count s)" by blast
  then show ?case using Suc.IH[of s1] Suc.prems by auto
qed

text \<open>
  Reachable states: the guest reads and writes registers, and the character device
  delivers bytes when the UART accepts them and breaks when there is room.
\<close>

inductive pl011_reachable :: "pl011_state \<Rightarrow> bool" where
  init: "pl011_reachable (pl011_init idbytes has_chr)"
| guest_read: "pl011_reachable s \<Longrightarrow> pl011_read off s = Inr (v, s') \<Longrightarrow> pl011_reachable s'"
| guest_write: "pl011_reachable s \<Longrightarrow> pl011_write off v s = Inr s' \<Longrightarrow> pl011_reachable s'"
| byte: "pl011_reachable s \<Longrightarrow> pl011_can_receive s \<Longrightarrow> pl011_receive b s = Inr s' \<Longrightarrow> pl011_reachable s'"
| event: "pl011_reachable s \<Longrightarrow> read_count s < 16 \<Longrightarrow> pl011_event ev s = Inr s' \<Longrightarrow> pl011_reachable s'"

definition pl011_inv :: "pl011_state \<Rightarrow> bool" where
  "pl011_inv s \<longleftrightarrow> rx_ok s \<and> read_trigger s = 1 \<and> pl011_irq s = (int_level s AND int_enabled s \<noteq> 0) \<and>
     (pl011_flags s AND PL011_FLAG_RXFE \<noteq> 0) = (read_count s = 0)"

lemma rxfe_bit: "x AND PL011_FLAG_RXFE \<noteq> 0 \<longleftrightarrow> bit x 4"
  using and_exp_eq_0_iff_not_bit[of x 4] by (simp add: PL011_FLAG_RXFE_def)

lemma rxfe_updates:
  "bit (x AND NOT PL011_FLAG_RXFF) 4 = bit x 4" "bit (x OR PL011_FLAG_RXFF) 4 = bit x 4"
  "\<not> bit (x AND NOT PL011_FLAG_RXFE) 4" "bit (x OR PL011_FLAG_RXFE) 4"
  by (simp_all add: PL011_FLAG_RXFF_def PL011_FLAG_RXFE_def bit_or_iff bit_and_iff bit_not_iff)

lemmas pl011_inv_simps = pl011_inv_def rx_ok_def rxfe_bit rxfe_updates pl011_update_def

lemma pl011_inv_store:
  assumes "pl011_inv s" "read_count s < 16" "length buf = 16"
  shows "pl011_inv (let s = s\<lparr>read_fifo := buf, read_count := read_count s + 1,
                pl011_flags := pl011_flags s AND NOT PL011_FLAG_RXFE\<rparr>;
          s = (if b then s\<lparr>pl011_flags := pl011_flags s OR PL011_FLAG_RXFF\<rparr> else s)
      in if read_count s = read_trigger s
         then pl011_update (s\<lparr>int_level := int_level s OR PL011_INT_RX\<rparr>) else s)"
  using assms by (cases b) (simp_all add: pl011_inv_simps Let_def)

lemma pl011_inv_put:
  assumes "pl011_inv s" "read_count s < 16"
  shows "ensures pl011_inv (pl011_put_fifo v s)"
proof -
  have "length (read_fifo s) = 16" using assms(1) by (simp add: pl011_inv_def rx_ok_def)
  then show ?thesis
    unfolding pl011_put_fifo_def Let_def
    by (intro ensures_rbindI[where Q = "\<lambda>buf. length buf = 16"])
      (simp add: ensures_aset, simp only: ensures_Inr, rule pl011_inv_store[unfolded Let_def, OF assms])
qed

lemma pl011_inv_read_dr: "pl011_inv s \<Longrightarrow> ensures (\<lambda>(v, s'). pl011_inv s') (read_uartdr s)"
  by (auto simp: read_uartdr_def Let_def pl011_inv_simps)

lemma pl011_inv_read: "pl011_inv s \<Longrightarrow> ensures (\<lambda>(v, s'). pl011_inv s') (pl011_read off s)"
  using pl011_inv_read_dr[of s]
  by (simp only: pl011_read_def Let_def ensures_if ensures_rbind ensures_Inr ensures_Inl)
    (auto simp: ensures_def)

lemma pl011_inv_write: "pl011_inv s \<Longrightarrow> ensures pl011_inv (pl011_write off v s)"
  by (simp only: pl011_write_def Let_def ensures_if ensures_rbind ensures_Inr ensures_Inl)
    (auto simp: pl011_inv_simps write_uartdr_def pl011_set_read_trigger_def)

lemma pl011_reachable_inv: "pl011_reachable s \<Longrightarrow> pl011_inv s"
proof (induction rule: pl011_reachable.induct)
  case (init idbytes has_chr)
  show ?case by (simp add: pl011_inv_simps pl011_init_def)
next
  case (guest_read s off v s')
  then show ?case using pl011_inv_read[of s off] by (auto simp: ensures_def)
next
  case (guest_write s off v s')
  then show ?case using pl011_inv_write[of s off v] by (auto simp: ensures_def)
next
  case (byte s b s')
  then show ?case
    using pl011_inv_put[of s "ucast b"]
    by (auto simp: pl011_receive_def pl011_can_receive_def ensures_def split: if_splits)
next
  case (event s ev s')
  then show ?case using pl011_inv_put[of s "0x400"] by (auto simp: pl011_event_def ensures_def split: if_splits)
qed

section \<open>Properties\<close>



text \<open>
  In every reachable state the interrupt line is high exactly when a raised
  interrupt is enabled, the receive-empty flag is set exactly when the buffer is empty,
  and position and count stay inside the buffer.
\<close>

theorem pl011_invariant:
  assumes "pl011_reachable s"
  shows "pl011_irq s = (int_level s AND int_enabled s \<noteq> 0) \<and>
    (pl011_flags s AND PL011_FLAG_RXFE \<noteq> 0) = (read_count s = 0) \<and> read_pos s < 16 \<and> read_count s \<le> 16"
  using pl011_reachable_inv[OF assms] by (simp add: pl011_inv_def rx_ok_def)

theorem pl011_invariant_witness:
  "pl011_reachable (pl011_init_luminary True) \<and> \<not> pl011_irq (pl011_init_luminary True) \<and>
   pl011_flags (pl011_init_luminary True) AND PL011_FLAG_RXFE \<noteq> 0"
proof -
  have r: "pl011_reachable (pl011_init_luminary True)"
    unfolding pl011_init_luminary_def by (rule pl011_reachable.init)
  from pl011_invariant[OF r] r show ?thesis
    by (simp add: pl011_init_luminary_def pl011_init_def)
qed

text \<open>
  Breaks are stored without asking whether there is room. While the guest does not
  read, breaks first overwrite unread bytes and then write behind the receive buffer:
  the break that finds position and count at twice the buffer size is out of bounds.
\<close>

theorem pl011_break_overflow:
  assumes "rx_ok s"
  shows "pl011_breaks (33 - (read_pos s + read_count s)) s = Inl Out_Of_Bounds"
proof -
  let ?n = "32 - (read_pos s + read_count s)"
  have l: "read_pos s + read_count s \<le> 32" "length (read_fifo s) = 16"
    using assms by (auto simp: rx_ok_def)
  obtain s' where s': "pl011_breaks ?n s = Inr s'" "length (read_fifo s') = 16"
      "read_pos s' + read_count s' = 32"
    using pl011_breaks_count[of s ?n] l by auto
  then have "pl011_event CHR_EVENT_BREAK s' = Inl Out_Of_Bounds"
    by (simp add: pl011_event_def pl011_put_fifo_def Let_def)
  moreover have "33 - (read_pos s + read_count s) = Suc ?n" using l(1) by simp
  ultimately show ?thesis using s'(1) by (simp add: pl011_breaks_last del: pl011_breaks.simps(2))
qed

theorem pl011_break_overflow_witness:
  "pl011_breaks 33 (pl011_init_luminary True) = Inl Out_Of_Bounds"
  using pl011_break_overflow[of "pl011_init_luminary True"]
  by (simp add: rx_ok_def pl011_init_luminary_def pl011_init_def del: pl011_breaks.simps)

text \<open>
  With its FIFO disabled the UART holds a single byte and accepts no more, but it
  does not set the receive-full flag: the flag looks at the control register where the
  acceptance test looks at the line control register.
\<close>

theorem pl011_full_flag_missed:
  assumes "rx_ok s" "read_count s = 0" "pl011_lcr s AND 0x10 = 0" "pl011_cr s AND 0x10 = 0"
    and "pl011_flags s AND PL011_FLAG_RXFF = 0"
  shows "\<exists>s'. pl011_receive b s = Inr s' \<and> \<not> pl011_can_receive s' \<and> pl011_flags s' AND PL011_FLAG_RXFF = 0"
proof -
  have f: "(x AND NOT PL011_FLAG_RXFE) AND PL011_FLAG_RXFF = x AND PL011_FLAG_RXFF" for x
    by (simp add: PL011_FLAG_RXFE_def PL011_FLAG_RXFF_def and.assoc)
  have "pl011_receive b s = Inr (let s1 = s\<lparr>read_fifo := (read_fifo s)[read_pos s := ucast b],
      read_count := 1, pl011_flags := pl011_flags s AND NOT PL011_FLAG_RXFE\<rparr> in
      if read_trigger s = 1 then pl011_update (s1\<lparr>int_level := int_level s OR PL011_INT_RX\<rparr>) else s1)"
    using assms(1,2,4) by (simp add: pl011_receive_def pl011_put_fifo_def Let_def rx_ok_def)
  then show ?thesis
    using assms(3,5) by (simp add: pl011_can_receive_def pl011_update_def Let_def f)
qed

theorem pl011_full_flag_missed_witness:
  "\<exists>s'. pl011_receive 0x41 (pl011_init_luminary True) = Inr s' \<and> \<not> pl011_can_receive s' \<and>
     pl011_flags s' AND PL011_FLAG_RXFF = 0"
  by (rule pl011_full_flag_missed)
    (simp_all add: rx_ok_def pl011_init_luminary_def pl011_init_def PL011_FLAG_RXFF_def)

end
