(* ===== verification/Savevm_Words.thy ===== *)
theory Savevm_Words
  imports Vemu_Prelude
begin

text \<open>
  The big-endian words of the save-state streams (\<^verbatim>\<open>savevm.c\<close>). A stream that is written
  is the list of the bytes put into it; a stream that is read is the list of the bytes
  still to come, and reading past its end yields zero bytes. The buffering of
  \<^verbatim>\<open>QEMUFile\<close> is not modelled.
\<close>

type_synonym bytes = "u8 list"

definition put_byte :: "u32 \<Rightarrow> bytes \<Rightarrow> bytes" where
  "put_byte v f = f @ [ucast v]"

definition get_byte :: "bytes \<Rightarrow> u32 \<times> bytes" where
  "get_byte f = (case f of [] \<Rightarrow> (0, []) | b # bs \<Rightarrow> (ucast b, bs))"

definition qemu_put_be16 :: "u32 \<Rightarrow> bytes \<Rightarrow> bytes" where
  "qemu_put_be16 v f = put_byte v (put_byte (drop_bit 8 v) f)"

definition qemu_put_be32 :: "u32 \<Rightarrow> bytes \<Rightarrow> bytes" where
  "qemu_put_be32 v f = put_byte v (put_byte (drop_bit 8 v) (put_byte (drop_bit 16 v) (put_byte (drop_bit 24 v) f)))"

definition qemu_put_be64 :: "u64 \<Rightarrow> bytes \<Rightarrow> bytes" where
  "qemu_put_be64 v f = qemu_put_be32 (ucast v) (qemu_put_be32 (ucast (drop_bit 32 v)) f)"

definition qemu_get_be16 :: "bytes \<Rightarrow> u32 \<times> bytes" where
  "qemu_get_be16 f =
     (let (b1, f) = get_byte f; (b0, f) = get_byte f
      in (push_bit 8 b1 OR b0, f))"

definition qemu_get_be32 :: "bytes \<Rightarrow> u32 \<times> bytes" where
  "qemu_get_be32 f =
     (let (b3, f) = get_byte f; (b2, f) = get_byte f; (b1, f) = get_byte f; (b0, f) = get_byte f
      in (push_bit 24 b3 OR push_bit 16 b2 OR push_bit 8 b1 OR b0, f))"

definition qemu_get_be64 :: "bytes \<Rightarrow> u64 \<times> bytes" where
  "qemu_get_be64 f =
     (let (h, f) = qemu_get_be32 f; (l, f) = qemu_get_be32 f
      in (push_bit 32 (ucast h) OR ucast l, f))"

section \<open>Round trips\<close>

lemma get_byte_Cons [simp]: "get_byte (b # bs) = (ucast b, bs)"
  by (simp add: get_byte_def)

lemma be32_bytes:
  "qemu_put_be32 v f = f @ [ucast (drop_bit 24 v), ucast (drop_bit 16 v), ucast (drop_bit 8 v), ucast v]"
  by (simp add: qemu_put_be32_def put_byte_def)

lemma join_bytes:
  fixes v :: u32
  shows "push_bit 24 (ucast (ucast (drop_bit 24 v) :: u8)) OR push_bit 16 (ucast (ucast (drop_bit 16 v) :: u8))
    OR push_bit 8 (ucast (ucast (drop_bit 8 v) :: u8)) OR ucast (ucast v :: u8) = v" (is "?l = v")
proof (rule bit_word_eqI)
  fix n assume "n < LENGTH(32)"
  then consider "n < 8" | "8 \<le> n" "n < 16" | "16 \<le> n" "n < 24" | "24 \<le> n" "n < 32" by fastforce
  then show "bit ?l n = bit v n"
    by cases (auto simp: bit_simps)
qed

lemma get_be32_put: "qemu_get_be32 (qemu_put_be32 v [] @ rest) = (v, rest)"
  by (simp add: be32_bytes qemu_get_be32_def join_bytes)

lemma put_be32_append: "qemu_put_be32 v f = f @ qemu_put_be32 v []"
  by (simp add: be32_bytes)

text \<open>A sequence of words.\<close>

definition put_words :: "u32 list \<Rightarrow> bytes \<Rightarrow> bytes" where
  "put_words ws f = fold qemu_put_be32 ws f"

primrec get_words :: "nat \<Rightarrow> bytes \<Rightarrow> u32 list \<times> bytes" where
  "get_words 0 f = ([], f)"
| "get_words (Suc n) f = (let (w, f) = qemu_get_be32 f; (ws, f) = get_words n f in (w # ws, f))"

lemma put_words_append: "put_words ws f = f @ put_words ws []"
proof (induction ws arbitrary: f)
  case Nil
  then show ?case by (simp add: put_words_def)
next
  case (Cons w ws)
  have "put_words (w # ws) g = put_words ws (qemu_put_be32 w g)" for g by (simp add: put_words_def)
  then show ?case
    using Cons[of "qemu_put_be32 w f"] Cons[of "qemu_put_be32 w []"] put_be32_append[of w f] by simp
qed

lemma get_put_words: "get_words (length ws) (put_words ws [] @ rest) = (ws, rest)"
proof (induction ws)
  case Nil
  then show ?case by (simp add: put_words_def)
next
  case (Cons w ws)
  have "put_words (w # ws) [] = qemu_put_be32 w [] @ put_words ws []"
    using put_words_append[of ws "qemu_put_be32 w []"] by (simp add: put_words_def)
  then show ?case using Cons by (simp add: get_be32_put)
qed

lemma get_be64_put: "qemu_get_be64 (qemu_put_be64 v [] @ rest) = (v, rest)"
proof -
  have "qemu_put_be64 v [] = qemu_put_be32 (ucast (drop_bit 32 v)) [] @ qemu_put_be32 (ucast v) []"
    unfolding qemu_put_be64_def by (subst put_be32_append) simp
  moreover have "push_bit 32 (ucast (ucast (drop_bit 32 v) :: u32)) OR ucast (ucast v :: u32) = v"
    using join64_halves[of v] by (simp add: join64_def hi32_def lo32_def)
  ultimately show ?thesis by (simp add: qemu_get_be64_def get_be32_put)
qed

text \<open>
  A 32-bit and a 64-bit word written to a save-state stream are read back unchanged,
  and reading consumes exactly the bytes that were written.
\<close>

theorem savevm_words_roundtrip:
  "qemu_get_be32 (qemu_put_be32 v [] @ rest) = (v, rest) \<and>
   qemu_get_be64 (qemu_put_be64 w [] @ rest) = (w, rest)"
  by (simp add: get_be32_put get_be64_put)

end
