(* ===== verification/PL061.thy ===== *)
theory PL061
  imports Savevm_Words
begin

text \<open>
  The PL061 GPIO block (\<^verbatim>\<open>hw/pl061.c\<close>): eight pins with a data and a direction register,
  the lock that protects the commit register, and the save and load functions. The
  output lines keep the level last driven on them; a line that was never driven is low.
\<close>

record pl061_state =
  gpio_locked :: u32
  gpio_data :: u8
  old_data :: u8
  gpio_dir :: u8
  isense :: u8
  ibe :: u8
  iev :: u8
  gpio_im :: u8
  istate :: u8
  afsel :: u8
  dr2r :: u8
  dr4r :: u8
  dr8r :: u8
  odr :: u8
  pur :: u8
  pdr :: u8
  slr :: u8
  den :: u8
  gpio_cr :: u8
  float_high :: u8
  gpio_out :: "bool list"
  gpio_id :: "u8 list"

definition pl061_id_arm :: "u8 list" where
  "pl061_id_arm = [0x00, 0x00, 0x00, 0x00, 0x61, 0x10, 0x04, 0x00, 0x0d, 0xf0, 0x05, 0xb1]"

definition pl061_id_luminary :: "u8 list" where
  "pl061_id_luminary = [0x00, 0x00, 0x00, 0x00, 0x61, 0x00, 0x18, 0x01, 0x0d, 0xf0, 0x05, 0xb1]"

section \<open>Operations\<close>

definition pl061_update :: "pl061_state \<Rightarrow> pl061_state" where
  "pl061_update s =
     (let out = (gpio_data s AND gpio_dir s) OR NOT (gpio_dir s);
          changed = old_data s XOR out
      in if changed = 0 then s
         else s\<lparr>old_data := out,
                gpio_out := map (\<lambda>i. if changed AND push_bit i 1 \<noteq> 0 then out AND push_bit i 1 \<noteq> 0
                                     else gpio_out s ! i) [0..<8]\<rparr>)"

definition pl061_read :: "u32 \<Rightarrow> pl061_state \<Rightarrow> u32 result" where
  "pl061_read offset s =
     (if 0xfd0 \<le> offset \<and> offset < 0x1000 then
        rbind (aget (gpio_id s) (unat (drop_bit 2 (offset - 0xfd0)))) (\<lambda>b. Inr (ucast b))
      else if offset < 0x400 then Inr (ucast (gpio_data s) AND drop_bit 2 offset)
      else if offset = 0x400 then Inr (ucast (gpio_dir s))
      else if offset = 0x404 then Inr (ucast (isense s))
      else if offset = 0x408 then Inr (ucast (ibe s))
      else if offset = 0x40c then Inr (ucast (iev s))
      else if offset = 0x410 then Inr (ucast (gpio_im s))
      else if offset = 0x414 then Inr (ucast (istate s))
      else if offset = 0x418 then Inr (ucast (istate s OR gpio_im s))
      else if offset = 0x420 then Inr (ucast (afsel s))
      else if offset = 0x500 then Inr (ucast (dr2r s))
      else if offset = 0x504 then Inr (ucast (dr4r s))
      else if offset = 0x508 then Inr (ucast (dr8r s))
      else if offset = 0x50c then Inr (ucast (odr s))
      else if offset = 0x510 then Inr (ucast (pur s))
      else if offset = 0x514 then Inr (ucast (pdr s))
      else if offset = 0x518 then Inr (ucast (slr s))
      else if offset = 0x51c then Inr (ucast (den s))
      else if offset = 0x520 then Inr (gpio_locked s)
      else if offset = 0x524 then Inr (ucast (gpio_cr s))
      else Inl Hw_Error)"

definition pl061_write_data :: "u32 \<Rightarrow> u32 \<Rightarrow> pl061_state \<Rightarrow> pl061_state" where
  "pl061_write_data offset val s =
     (let m = ucast (drop_bit 2 offset) AND gpio_dir s
      in pl061_update (s\<lparr>gpio_data := (gpio_data s AND NOT m) OR (ucast val AND m)\<rparr>))"

definition pl061_write :: "u32 \<Rightarrow> u32 \<Rightarrow> pl061_state \<Rightarrow> pl061_state result" where
  "pl061_write offset val s =
     (if offset < 0x400 then Inr (pl061_write_data offset val s)
      else rbind
        (if offset = 0x400 then Inr (s\<lparr>gpio_dir := ucast val\<rparr>)
         else if offset = 0x404 then Inr (s\<lparr>isense := ucast val\<rparr>)
         else if offset = 0x408 then Inr (s\<lparr>ibe := ucast val\<rparr>)
         else if offset = 0x40c then Inr (s\<lparr>iev := ucast val\<rparr>)
         else if offset = 0x410 then Inr (s\<lparr>gpio_im := ucast val\<rparr>)
         else if offset = 0x41c then Inr (s\<lparr>istate := istate s AND ucast (NOT val)\<rparr>)
         else if offset = 0x420 then
           let m = gpio_cr s in Inr (s\<lparr>afsel := (afsel s AND NOT m) OR (ucast val AND m)\<rparr>)
         else if offset = 0x500 then Inr (s\<lparr>dr2r := ucast val\<rparr>)
         else if offset = 0x504 then Inr (s\<lparr>dr4r := ucast val\<rparr>)
         else if offset = 0x508 then Inr (s\<lparr>dr8r := ucast val\<rparr>)
         else if offset = 0x50c then Inr (s\<lparr>odr := ucast val\<rparr>)
         else if offset = 0x510 then Inr (s\<lparr>pur := ucast val\<rparr>)
         else if offset = 0x514 then Inr (s\<lparr>pdr := ucast val\<rparr>)
         else if offset = 0x518 then Inr (s\<lparr>slr := ucast val\<rparr>)
         else if offset = 0x51c then Inr (s\<lparr>den := ucast val\<rparr>)
         else if offset = 0x520 then Inr (s\<lparr>gpio_locked := if val \<noteq> 0xacce551 then 1 else 0\<rparr>)
         else if offset = 0x524 then Inr (if gpio_locked s = 0 then s\<lparr>gpio_cr := ucast val\<rparr> else s)
         else Inl Hw_Error)
        (\<lambda>s. Inr (pl061_update s)))"

definition pl061_reset :: "pl061_state \<Rightarrow> pl061_state" where
  "pl061_reset s = s\<lparr>gpio_locked := 1, gpio_cr := 0xff\<rparr>"

definition pl061_set_irq :: "nat \<Rightarrow> bool \<Rightarrow> pl061_state \<Rightarrow> pl061_state" where
  "pl061_set_irq irq level s =
     (let m = push_bit irq 1 in
      if gpio_dir s AND m = 0 then
        let s = s\<lparr>gpio_data := gpio_data s AND NOT m\<rparr>;
            s = (if level then s\<lparr>gpio_data := gpio_data s OR m\<rparr> else s)
        in pl061_update s
      else s)"

definition pl061_init :: "u8 list \<Rightarrow> pl061_state" where
  "pl061_init idbytes = pl061_reset
     \<lparr>gpio_locked = 0, gpio_data = 0, old_data = 0, gpio_dir = 0, isense = 0, ibe = 0, iev = 0,
      gpio_im = 0, istate = 0, afsel = 0, dr2r = 0, dr4r = 0, dr8r = 0, odr = 0, pur = 0, pdr = 0,
      slr = 0, den = 0, gpio_cr = 0, float_high = 0, gpio_out = replicate 8 False, gpio_id = idbytes\<rparr>"

section \<open>Saving and loading\<close>

definition pl061_save :: "pl061_state \<Rightarrow> bytes \<Rightarrow> bytes" where
  "pl061_save s =
     put_words [gpio_locked s, ucast (gpio_data s), ucast (old_data s), ucast (gpio_dir s), ucast (isense s),
       ucast (ibe s), ucast (iev s), ucast (gpio_im s), ucast (istate s), ucast (afsel s), ucast (dr2r s),
       ucast (dr4r s), ucast (dr8r s), ucast (odr s), ucast (pur s), ucast (pdr s), ucast (slr s),
       ucast (den s), ucast (gpio_cr s), ucast (float_high s)]"

text \<open>An unknown version is refused with \<^verbatim>\<open>-EINVAL\<close>, the value \<open>None\<close>.\<close>

definition pl061_load :: "u32 \<Rightarrow> bytes \<Rightarrow> pl061_state \<Rightarrow> (pl061_state \<times> bytes) option" where
  "pl061_load version_id f s =
     (if version_id \<noteq> 1 then None
      else let (ws, f) = get_words 20 f in
        Some (s\<lparr>gpio_locked := ws ! 0, gpio_data := ucast (ws ! 1), old_data := ucast (ws ! 2),
                gpio_dir := ucast (ws ! 3), isense := ucast (ws ! 4), ibe := ucast (ws ! 5),
                iev := ucast (ws ! 6), gpio_im := ucast (ws ! 7), istate := ucast (ws ! 8),
                afsel := ucast (ws ! 9), dr2r := ucast (ws ! 10), dr4r := ucast (ws ! 11),
                dr8r := ucast (ws ! 12), odr := ucast (ws ! 13), pur := ucast (ws ! 14),
                pdr := ucast (ws ! 15), slr := ucast (ws ! 16), den := ucast (ws ! 17),
                gpio_cr := ucast (ws ! 18), float_high := ucast (ws ! 19)\<rparr>, f))"

section \<open>Facts about the pins\<close>

definition pin_level :: "pl061_state \<Rightarrow> nat \<Rightarrow> bool" where
  "pin_level s i = (if bit (gpio_dir s) i then bit (gpio_data s) i else True)"

definition lines_ok :: "pl061_state \<Rightarrow> bool" where
  "lines_ok s \<longleftrightarrow> length (gpio_out s) = 8 \<and> (\<forall>i<8. gpio_out s ! i = bit (old_data s) i)"

lemma pl061_update_lines:
  assumes "lines_ok s"
  shows "lines_ok (pl061_update s)" "\<forall>i<8. gpio_out (pl061_update s) ! i = pin_level s i"
proof -
  let ?out = "(gpio_data s AND gpio_dir s) OR NOT (gpio_dir s)"
  have b: "bit ?out i = pin_level s i" if "i < 8" for i
    using that by (auto simp: pin_level_def bit_simps)
  have z: "bit (old_data s) i = bit ?out i" if "old_data s XOR ?out = 0" for i
    using that bit_xor_iff[of "old_data s" ?out i] by simp
  have "lines_ok (pl061_update s) \<and> (\<forall>i<8. gpio_out (pl061_update s) ! i = pin_level s i)"
  proof (cases "old_data s XOR ?out = 0")
    case True
    then show ?thesis using assms z[OF True] b by (simp add: pl061_update_def lines_ok_def)
  next
    case False
    then show ?thesis
      using assms b
      by (auto simp: pl061_update_def lines_ok_def Let_def and_exp_eq_0_iff_not_bit bit_xor_iff simp del: bit_or_iff)
  qed
  then show "lines_ok (pl061_update s)" "\<forall>i<8. gpio_out (pl061_update s) ! i = pin_level s i"
    by simp_all
qed

lemma lines_ok_frame:
  "lines_ok (s\<lparr>gpio_locked := w\<rparr>) = lines_ok s"
  "lines_ok (s\<lparr>gpio_data := d\<rparr>) = lines_ok s"
  "lines_ok (s\<lparr>gpio_dir := d\<rparr>) = lines_ok s"
  "lines_ok (s\<lparr>isense := d\<rparr>) = lines_ok s"
  "lines_ok (s\<lparr>ibe := d\<rparr>) = lines_ok s"
  "lines_ok (s\<lparr>iev := d\<rparr>) = lines_ok s"
  "lines_ok (s\<lparr>gpio_im := d\<rparr>) = lines_ok s"
  "lines_ok (s\<lparr>istate := d\<rparr>) = lines_ok s"
  "lines_ok (s\<lparr>afsel := d\<rparr>) = lines_ok s"
  "lines_ok (s\<lparr>dr2r := d\<rparr>) = lines_ok s"
  "lines_ok (s\<lparr>dr4r := d\<rparr>) = lines_ok s"
  "lines_ok (s\<lparr>dr8r := d\<rparr>) = lines_ok s"
  "lines_ok (s\<lparr>odr := d\<rparr>) = lines_ok s"
  "lines_ok (s\<lparr>pur := d\<rparr>) = lines_ok s"
  "lines_ok (s\<lparr>pdr := d\<rparr>) = lines_ok s"
  "lines_ok (s\<lparr>slr := d\<rparr>) = lines_ok s"
  "lines_ok (s\<lparr>den := d\<rparr>) = lines_ok s"
  "lines_ok (s\<lparr>gpio_cr := d\<rparr>) = lines_ok s"
  by (simp_all add: lines_ok_def)

lemma pl061_update_frame [simp]:
  "gpio_data (pl061_update s) = gpio_data s" "gpio_dir (pl061_update s) = gpio_dir s"
  by (simp_all add: pl061_update_def Let_def)

text \<open>After every access that updates the pins, each line shows its pin.\<close>

definition pins_shown :: "pl061_state \<Rightarrow> bool" where
  "pins_shown s \<longleftrightarrow> lines_ok s \<and> (\<forall>i<8. gpio_out s ! i = pin_level s i)"

lemma pins_shown_update: "lines_ok s \<Longrightarrow> pins_shown (pl061_update s)"
  using pl061_update_lines[of s] by (simp add: pins_shown_def pin_level_def)

lemma pl061_write_pins:
  assumes "lines_ok s"
  shows "ensures pins_shown (pl061_write off v s)"
  unfolding pl061_write_def ensures_if ensures_rbind ensures_Inr
proof (intro conjI impI)
  show "pins_shown (pl061_write_data off v s)"
    using assms by (simp add: pl061_write_data_def Let_def pins_shown_update lines_ok_frame)
qed (auto intro!: pins_shown_update simp: lines_ok_frame assms Let_def)

lemma pl061_set_irq_pins: "pins_shown s \<Longrightarrow> pins_shown (pl061_set_irq n level s)"
  by (auto simp: pl061_set_irq_def Let_def pins_shown_def[of s] lines_ok_frame intro!: pins_shown_update)

section \<open>Properties\<close>

text \<open>
  After every register write that returns, the output lines show the pins: a pin
  configured as output drives its data bit, an input pin floats high. External input
  changes keep this.
\<close>

theorem pl061_outputs_follow:
  assumes "lines_ok s" "pl061_write off v s = Inr s'"
  shows "pins_shown s' \<and> pins_shown (pl061_set_irq n level s')"
  using ensuresD[OF pl061_write_pins[OF assms(1)] assms(2)] by (simp add: pl061_set_irq_pins)

lemma pl061_init_lines: "lines_ok (pl061_init idbytes)"
  by (simp add: pl061_init_def pl061_reset_def lines_ok_def)

theorem pl061_outputs_follow_witness:
  "\<exists>s'. pl061_write 0x400 0x0f (pl061_init pl061_id_luminary) = Inr s' \<and>
     gpio_out s' = [False, False, False, False, True, True, True, True]"
proof -
  obtain s' where s': "pl061_write 0x400 0x0f (pl061_init pl061_id_luminary) = Inr s'"
    and f: "gpio_dir s' = 0x0f" "gpio_data s' = 0"
    by (simp add: pl061_write_def pl061_init_def pl061_reset_def)
  have "pins_shown s'" using pl061_outputs_follow[OF pl061_init_lines s', of 0 False] by simp
  then have l: "length (gpio_out s') = 8" and p: "\<forall>i<8. gpio_out s' ! i = pin_level s' i"
    unfolding pins_shown_def lines_ok_def by blast+
  have "gpio_out s' = map (\<lambda>i. gpio_out s' ! i) [0..<8]" using map_nth[of "gpio_out s'"] l by simp
  also have "\<dots> = map (pin_level s') [0..<8]" using p by simp
  also have "\<dots> = [False, False, False, False, True, True, True, True]"
    by (simp add: pin_level_def f upt_rec)
  finally show ?thesis using s' by blast
qed

text \<open>
  The data register is written through the address mask: of the eight bits exactly
  those that are both selected by the address and configured as outputs take the new
  value, and reading through the same address shows the selected bits only.
\<close>

theorem pl061_masked_write:
  assumes "off < 0x400"
  shows "\<exists>s'. pl061_write off v s = Inr s' \<and>
    (\<forall>i<8. bit (gpio_data s') i =
       (if bit (drop_bit 2 off) i \<and> bit (gpio_dir s) i then bit v i else bit (gpio_data s) i)) \<and>
    pl061_read off s' = Inr (ucast (gpio_data s') AND drop_bit 2 off)"
proof -
  have "\<not> 0xfd0 \<le> off" using assms by (simp add: word_le_nat_alt word_less_nat_alt)
  moreover have "bit (gpio_data (pl061_write_data off v s)) i =
      (if bit (drop_bit 2 off) i \<and> bit (gpio_dir s) i then bit v i else bit (gpio_data s) i)"
    if "i < 8" for i
    using that by (auto simp: pl061_write_data_def Let_def bit_simps)
  ultimately show ?thesis
    using assms by (simp add: pl061_write_def pl061_read_def)
qed

theorem pl061_masked_write_witness:
  "\<exists>s'. pl061_write 0x0c 0xff ((pl061_init pl061_id_luminary)\<lparr>gpio_dir := 0x06\<rparr>) = Inr s' \<and>
     bit (gpio_data s') 1 \<and> \<not> bit (gpio_data s') 0 \<and> \<not> bit (gpio_data s') 2"
proof -
  obtain s' where s': "pl061_write 0x0c 0xff ((pl061_init pl061_id_luminary)\<lparr>gpio_dir := 0x06\<rparr>) = Inr s'"
    and b: "\<forall>i<8. bit (gpio_data s') i = (if bit (drop_bit 2 (0x0c :: u32)) i \<and> bit (0x06 :: u8) i
       then bit (0xff :: u32) i else bit (gpio_data (pl061_init pl061_id_luminary)) i)"
    using pl061_masked_write[of "0x0c" "0xff" "(pl061_init pl061_id_luminary)\<lparr>gpio_dir := 0x06\<rparr>"] by auto
  have d: "gpio_data (pl061_init pl061_id_luminary) = 0" by (simp add: pl061_init_def pl061_reset_def)
  show ?thesis using s' spec[OF b, of 0] spec[OF b, of 1] spec[OF b, of 2] by (simp add: d)
qed

text \<open>
  Saving and loading restores the whole register state of the block, from any
  previous state; a stream of another version is refused.
\<close>

theorem pl061_save_load:
  "pl061_load 1 (pl061_save s [] @ rest) t =
     Some (s\<lparr>gpio_out := gpio_out t, gpio_id := gpio_id t\<rparr>, rest) \<and>
   pl061_load 2 f t = None"
proof -
  have u: "ucast (ucast (x :: u8) :: u32) = x" for x by (rule bit_word_eqI) (simp add: bit_simps)
  define ws where "ws = [gpio_locked s, ucast (gpio_data s), ucast (old_data s), ucast (gpio_dir s), ucast (isense s),
       ucast (ibe s), ucast (iev s), ucast (gpio_im s), ucast (istate s), ucast (afsel s), ucast (dr2r s),
       ucast (dr4r s), ucast (dr8r s), ucast (odr s), ucast (pur s), ucast (pdr s), ucast (slr s),
       ucast (den s), ucast (gpio_cr s), ucast (float_high s)]"
  have l: "length ws = 20" by (simp add: ws_def)
  have g: "get_words 20 (put_words ws [] @ rest) = (ws, rest)" using get_put_words[of ws rest] l by simp
  show ?thesis
    unfolding pl061_save_def ws_def[symmetric] pl061_load_def by (simp add: g Let_def) (simp add: ws_def u)
qed

text \<open>
  The masked interrupt status register is the bitwise or of the raw status and the
  mask, so every unmasked pin reads as interrupting although no interrupt is raised.
\<close>

theorem pl061_masked_status_or:
  "pl061_read 0x418 (s\<lparr>istate := 0\<rparr>) = Inr (ucast (gpio_im s))"
  by (simp add: pl061_read_def)

end
