(* ===== verification/PL022.thy ===== *)
theory PL022
  imports Vemu_Prelude
begin

text \<open>
  The PL022 synchronous serial port (\<^verbatim>\<open>hw/pl022.c\<close>) and the bus it drives (\<^verbatim>\<open>hw/ssi.c\<close>).
  A slave on the bus is its private state of type \<open>'d\<close> with its transfer callback.
\<close>

record 'd SSISlave =
  ssi_dev :: 'd
  ssi_callback :: "u32 \<Rightarrow> 'd \<Rightarrow> u32 \<times> 'd"

type_synonym 'd SSIBus = "'d SSISlave option"

definition ssi_transfer :: "'d SSIBus \<Rightarrow> u32 \<Rightarrow> u32 \<times> 'd SSIBus" where
  "ssi_transfer bus val =
     (case bus of
        None \<Rightarrow> (0, None)
      | Some slave \<Rightarrow>
          let (r, d) = ssi_callback slave val (ssi_dev slave) in (r, Some (slave\<lparr>ssi_dev := d\<rparr>)))"

record 'd pl022_state =
  ssp_cr0 :: u32
  ssp_cr1 :: u32
  ssp_bitmask :: u32
  ssp_sr :: u32
  ssp_cpsr :: u32
  ssp_is :: u32
  ssp_im :: u32
  tx_fifo_head :: nat
  rx_fifo_head :: nat
  tx_fifo_len :: nat
  rx_fifo_len :: nat
  tx_fifo :: "u16 list"
  rx_fifo :: "u16 list"
  ssp_irq :: bool
  ssp_bus :: "'d SSIBus"

definition PL022_CR1_LBM :: u32 where "PL022_CR1_LBM = 0x01"
definition PL022_CR1_SSE :: u32 where "PL022_CR1_SSE = 0x02"
definition PL022_SR_TFE :: u32 where "PL022_SR_TFE = 0x01"
definition PL022_SR_TNF :: u32 where "PL022_SR_TNF = 0x02"
definition PL022_SR_RNE :: u32 where "PL022_SR_RNE = 0x04"
definition PL022_SR_RFF :: u32 where "PL022_SR_RFF = 0x08"
definition PL022_SR_BSY :: u32 where "PL022_SR_BSY = 0x10"
definition PL022_INT_RX :: u32 where "PL022_INT_RX = 0x04"
definition PL022_INT_TX :: u32 where "PL022_INT_TX = 0x08"

definition pl022_id :: "u8 list" where
  "pl022_id = [0x22, 0x10, 0x04, 0x00, 0x0d, 0xf0, 0x05, 0xb1]"

section \<open>Operations\<close>

definition pl022_update :: "'d pl022_state \<Rightarrow> 'd pl022_state" where
  "pl022_update s =
     (let sr = (if tx_fifo_len s = 0 then PL022_SR_TFE else 0)
               OR (if tx_fifo_len s \<noteq> 8 then PL022_SR_TNF else 0)
               OR (if rx_fifo_len s \<noteq> 0 then PL022_SR_RNE else 0)
               OR (if rx_fifo_len s = 8 then PL022_SR_RFF else 0)
               OR (if tx_fifo_len s \<noteq> 0 then PL022_SR_BSY else 0);
          is = (if 4 \<le> rx_fifo_len s then PL022_INT_RX else 0)
               OR (if tx_fifo_len s \<le> 4 then PL022_INT_TX else 0)
      in s\<lparr>ssp_sr := sr, ssp_is := is, ssp_irq := is AND ssp_im s \<noteq> 0\<rparr>)"

text \<open>The body of the transfer loop: \<open>i\<close> is the next word to send, \<open>o\<close> the next free slot.\<close>

definition xfer_word :: "nat \<Rightarrow> nat \<Rightarrow> 'd pl022_state \<Rightarrow> 'd pl022_state" where
  "xfer_word i oidx s =
     (let val = ucast (tx_fifo s ! i);
          (val, bus) = (if ssp_cr1 s AND PL022_CR1_LBM \<noteq> 0 then (val, ssp_bus s)
                        else ssi_transfer (ssp_bus s) val)
      in s\<lparr>ssp_bus := bus, rx_fifo := (rx_fifo s)[oidx := ucast (val AND ssp_bitmask s)],
           tx_fifo_len := tx_fifo_len s - 1, rx_fifo_len := rx_fifo_len s + 1\<rparr>)"

lemma xfer_word_len: "tx_fifo_len (xfer_word i oidx s) = tx_fifo_len s - 1"
  by (simp add: xfer_word_def Let_def split_beta)

function pl022_xfer_loop :: "nat \<Rightarrow> nat \<Rightarrow> 'd pl022_state \<Rightarrow> nat \<times> 'd pl022_state" where
  "pl022_xfer_loop i oidx s =
     (if tx_fifo_len s \<noteq> 0 \<and> rx_fifo_len s < 8
      then pl022_xfer_loop ((i + 1) mod 8) ((oidx + 1) mod 8) (xfer_word i oidx s)
      else (oidx, s))"
  by pat_completeness auto
termination
  by (relation "measure (\<lambda>(i, oidx, s). tx_fifo_len s)") (auto simp: xfer_word_len)

declare pl022_xfer_loop.simps [simp del]

definition pl022_xfer :: "'d pl022_state \<Rightarrow> 'd pl022_state" where
  "pl022_xfer s =
     (if ssp_cr1 s AND PL022_CR1_SSE = 0 then pl022_update s
      else
        let i = nat ((int (tx_fifo_head s) - int (tx_fifo_len s)) mod 8);
            (oidx, s) = pl022_xfer_loop i (rx_fifo_head s) s
        in pl022_update (s\<lparr>rx_fifo_head := oidx\<rparr>))"

definition pl022_read :: "u32 \<Rightarrow> 'd pl022_state \<Rightarrow> (u32 \<times> 'd pl022_state) result" where
  "pl022_read offset s =
     (if 0xfe0 \<le> offset \<and> offset < 0x1000 then
        rbind (aget pl022_id (unat (drop_bit 2 (offset - 0xfe0)))) (\<lambda>b. Inr (ucast b, s))
      else if offset = 0x00 then Inr (ssp_cr0 s, s)
      else if offset = 0x04 then Inr (ssp_cr1 s, s)
      else if offset = 0x08 then
        if rx_fifo_len s \<noteq> 0 then
          Inr (ucast (rx_fifo s ! nat ((int (rx_fifo_head s) - int (rx_fifo_len s)) mod 8)),
               pl022_xfer (s\<lparr>rx_fifo_len := rx_fifo_len s - 1\<rparr>))
        else Inr (0, s)
      else if offset = 0x0c then Inr (ssp_sr s, s)
      else if offset = 0x10 then Inr (ssp_cpsr s, s)
      else if offset = 0x14 then Inr (ssp_im s, s)
      else if offset = 0x18 then Inr (ssp_is s, s)
      else if offset = 0x1c then Inr (ssp_im s AND ssp_is s, s)
      else if offset = 0x20 then Inr (0, s)
      else Inl Hw_Error)"

definition pl022_write :: "u32 \<Rightarrow> u32 \<Rightarrow> 'd pl022_state \<Rightarrow> 'd pl022_state result" where
  "pl022_write offset val s =
     (if offset = 0x00 then
        Inr (s\<lparr>ssp_cr0 := val, ssp_bitmask := push_bit (unat (val AND 15) + 1) 1 - 1\<rparr>)
      else if offset = 0x04 then Inr (pl022_xfer (s\<lparr>ssp_cr1 := val\<rparr>))
      else if offset = 0x08 then
        Inr (if tx_fifo_len s < 8
             then pl022_xfer (s\<lparr>tx_fifo := (tx_fifo s)[tx_fifo_head s := ucast (val AND ssp_bitmask s)],
                                tx_fifo_head := (tx_fifo_head s + 1) mod 8,
                                tx_fifo_len := tx_fifo_len s + 1\<rparr>)
             else s)
      else if offset = 0x10 then Inr (s\<lparr>ssp_cpsr := val AND 0xff\<rparr>)
      else if offset = 0x14 then Inr (pl022_update (s\<lparr>ssp_im := val\<rparr>))
      else if offset = 0x20 then if val \<noteq> 0 then Inl Hw_Error else Inr s
      else Inl Hw_Error)"

definition pl022_reset :: "'d pl022_state \<Rightarrow> 'd pl022_state" where
  "pl022_reset s = s\<lparr>rx_fifo_len := 0, tx_fifo_len := 0, ssp_im := 0, ssp_is := PL022_INT_TX,
                     ssp_sr := PL022_SR_TFE OR PL022_SR_TNF\<rparr>"

definition pl022_init :: "'d SSIBus \<Rightarrow> 'd pl022_state" where
  "pl022_init bus = pl022_reset
     \<lparr>ssp_cr0 = 0, ssp_cr1 = 0, ssp_bitmask = 0, ssp_sr = 0, ssp_cpsr = 0, ssp_is = 0, ssp_im = 0,
      tx_fifo_head = 0, rx_fifo_head = 0, tx_fifo_len = 0, rx_fifo_len = 0,
      tx_fifo = replicate 8 0, rx_fifo = replicate 8 0, ssp_irq = False, ssp_bus = bus\<rparr>"

section \<open>Rings\<close>

text \<open>The contents of a ring of 8 slots whose head is the next free one.\<close>

definition ring :: "'a list \<Rightarrow> nat \<Rightarrow> nat \<Rightarrow> 'a list" where
  "ring buf h len = map (\<lambda>k. buf ! ((h + 8 - len + k) mod 8)) [0..<len]"

lemma ring_length [simp]: "length (ring buf h len) = len"
  by (simp add: ring_def)

lemma ring_push:
  assumes "length buf = 8" "h < 8" "len < 8"
  shows "ring (buf[h := v]) ((h + 1) mod 8) (len + 1) = ring buf h len @ [v]"
proof -
  have s: "((h + 1) mod 8 + 8 - (len + 1) + k) mod 8 = (h + 8 - len + k) mod 8" for k
  proof -
    have "(h + 1) mod 8 + 8 - (len + 1) + k = (h + 1) mod 8 + (7 - len + k)" using assms(3) by simp
    also have "\<dots> mod 8 = (h + 1 + (7 - len + k)) mod 8" by (rule mod_add_left_eq)
    also have "h + 1 + (7 - len + k) = h + 8 - len + k" using assms(3) by simp
    finally show ?thesis .
  qed
  define a where "a = h + 8 - len"
  have l: "(a + len) mod 8 = h" using assms(2,3) by (simp add: a_def)
  have ne: "h \<noteq> (a + k) mod 8" if "k < len" for k
    using mod_add_neq[of k len 8 a] that assms(3) l by simp
  have "ring (buf[h := v]) ((h + 1) mod 8) (len + 1) = map (\<lambda>k. buf[h := v] ! ((a + k) mod 8)) [0..<Suc len]"
    unfolding ring_def s a_def by (simp only: Suc_eq_plus1)
  also have "\<dots> = map (\<lambda>k. buf[h := v] ! ((a + k) mod 8)) [0..<len] @ [v]"
    using l assms(1,2) by simp
  also have "map (\<lambda>k. buf[h := v] ! ((a + k) mod 8)) [0..<len] = ring buf h len"
    unfolding ring_def a_def[symmetric] using ne by (simp cong: map_cong)
  finally show ?thesis .
qed

lemma ring_pop:
  assumes "0 < len" "len \<le> 8"
  shows "ring buf h len = buf ! ((h + 8 - len) mod 8) # ring buf h (len - 1)"
proof -
  from assms obtain n where n: "len = Suc n" "n < 8" by (cases len) auto
  have u: "[0..<Suc n] = 0 # map Suc [0..<n]" by (simp add: upt_conv_Cons map_Suc_upt del: upt_Suc)
  have e: "h + 8 - Suc n + Suc k = h + 8 - n + k" for k using n(2) by simp
  show ?thesis unfolding ring_def n u by (simp only: list.map map_map comp_def e add_0_right diff_Suc_1)
qed

lemma ring_nth: "len \<le> 8 \<Longrightarrow> nat ((int h - int len) mod 8) = (h + 8 - len) mod 8"
proof -
  assume "len \<le> 8"
  then have "int (h + 8 - len) = int h - int len + 8" by simp
  then have "int ((h + 8 - len) mod 8) = (int h - int len) mod 8" by (simp add: zmod_int)
  then show ?thesis by simp
qed

section \<open>The port as two queues\<close>

text \<open>
  The abstract port: the words waiting to be sent, the words received, and the bus. The
  transfer engine moves words one by one until nothing is left to send or the receive
  queue holds eight words.
\<close>

function spec_xfer :: "bool \<Rightarrow> u32 \<Rightarrow> u16 list \<times> u16 list \<times> 'd SSIBus \<Rightarrow> u16 list \<times> u16 list \<times> 'd SSIBus" where
  "spec_xfer lbm bm (txs, rxs, bus) =
     (case txs of
        [] \<Rightarrow> (txs, rxs, bus)
      | w # ws \<Rightarrow>
          if length rxs < 8 then
            let (v, bus') = (if lbm then (ucast w, bus) else ssi_transfer bus (ucast w))
            in spec_xfer lbm bm (ws, rxs @ [ucast (v AND bm)], bus')
          else (txs, rxs, bus))"
  by pat_completeness auto
termination
  by (relation "measure (\<lambda>(lbm, bm, txs, rxs, bus). length txs)") auto

declare spec_xfer.simps [simp del]

definition ssp_abs :: "'d pl022_state \<Rightarrow> u16 list \<times> u16 list \<times> 'd SSIBus" where
  "ssp_abs s = (ring (tx_fifo s) (tx_fifo_head s) (tx_fifo_len s),
                ring (rx_fifo s) (rx_fifo_head s) (rx_fifo_len s), ssp_bus s)"

definition ssp_ok :: "'d pl022_state \<Rightarrow> bool" where
  "ssp_ok s \<longleftrightarrow> length (tx_fifo s) = 8 \<and> length (rx_fifo s) = 8 \<and> tx_fifo_head s < 8 \<and>
     rx_fifo_head s < 8 \<and> tx_fifo_len s \<le> 8 \<and> rx_fifo_len s \<le> 8"

lemma ssp_abs_update [simp]: "ssp_abs (pl022_update s) = ssp_abs s" "ssp_ok (pl022_update s) = ssp_ok s"
  by (simp_all add: ssp_abs_def ssp_ok_def pl022_update_def Let_def)

lemma xfer_loop_refines:
  assumes "ssp_ok s" "i = (tx_fifo_head s + 8 - tx_fifo_len s) mod 8" "oidx = rx_fifo_head s"
    and "pl022_xfer_loop i oidx t = (o', t')" "t = s\<lparr>rx_fifo_head := h\<rparr>"
  shows "ssp_ok (t'\<lparr>rx_fifo_head := o'\<rparr>) \<and>
    ssp_abs (t'\<lparr>rx_fifo_head := o'\<rparr>) = spec_xfer (ssp_cr1 s AND PL022_CR1_LBM \<noteq> 0) (ssp_bitmask s) (ssp_abs s) \<and>
    ssp_cr1 t' = ssp_cr1 s \<and> ssp_im t' = ssp_im s \<and> ssp_bitmask t' = ssp_bitmask s"
  using assms
proof (induction "tx_fifo_len s" arbitrary: s i oidx t h)
  case 0
  then have e: "(o', t') = (oidx, t)" by (subst (asm) pl022_xfer_loop.simps) simp
  have "ring (tx_fifo s) (tx_fifo_head s) (tx_fifo_len s) = []" using 0(1) by (simp add: ring_def)
  then show ?case using e 0 by (simp add: ssp_abs_def spec_xfer.simps ssp_ok_def)
next
  case (Suc n)
  show ?case
  proof (cases "rx_fifo_len s < 8")
    case False
    then have e: "(o', t') = (oidx, t)"
      using Suc.prems(4,5) by (subst (asm) pl022_xfer_loop.simps) simp
    have l: "length (ring (rx_fifo s) (rx_fifo_head s) (rx_fifo_len s)) = 8"
      using False Suc.prems(1) by (simp add: ssp_ok_def)
    show ?thesis
      using e Suc.prems l False
      by (auto simp: ssp_abs_def spec_xfer.simps[of _ _ "ring _ _ _"] ssp_ok_def split: list.split)
  next
    case True
    let ?w = "tx_fifo s ! i"
    let ?p = "if ssp_cr1 s AND PL022_CR1_LBM \<noteq> 0 then (ucast ?w, ssp_bus s) else ssi_transfer (ssp_bus s) (ucast ?w)"
    let ?v = "ucast (fst ?p AND ssp_bitmask s) :: u16"
    let ?s = "(xfer_word i oidx s)\<lparr>rx_fifo_head := (oidx + 1) mod 8\<rparr>"
    have ok: "ssp_ok ?s"
      using Suc.prems(1,3) True by (auto simp: ssp_ok_def xfer_word_def Let_def split_beta)
    have step: "pl022_xfer_loop ((i + 1) mod 8) ((oidx + 1) mod 8) (xfer_word i oidx t) = (o', t')"
      using Suc.prems(4,5) Suc.hyps(2) True by (subst (asm) pl022_xfer_loop.simps) simp
    have i': "(i + 1) mod 8 = (tx_fifo_head ?s + 8 - tx_fifo_len ?s) mod 8"
    proof -
      have "tx_fifo_head s + 8 - tx_fifo_len s + 1 = tx_fifo_head s + 8 - (tx_fifo_len s - 1)"
        using Suc.prems(1) Suc.hyps(2) unfolding ssp_ok_def by linarith
      moreover have "tx_fifo_head ?s = tx_fifo_head s" "tx_fifo_len ?s = tx_fifo_len s - 1"
        by (simp_all add: xfer_word_def Let_def split_beta)
      ultimately show ?thesis unfolding Suc.prems(2) by (metis mod_add_left_eq)
    qed
    have t': "xfer_word i oidx t = ?s\<lparr>rx_fifo_head := h\<rparr>"
      unfolding Suc.prems(5) by (simp add: xfer_word_def Let_def split_beta)
    have n': "n = tx_fifo_len ?s" using Suc.hyps(2) by (simp add: xfer_word_len)
    note IH = Suc.hyps(1)[OF n' ok i' _ step t']
    have tx: "ring (tx_fifo s) (tx_fifo_head s) (tx_fifo_len s) =
        ?w # ring (tx_fifo s) (tx_fifo_head s) (tx_fifo_len s - 1)"
      using ring_pop[of "tx_fifo_len s" "tx_fifo s"] Suc.prems(1,2) Suc.hyps(2) by (simp add: ssp_ok_def)
    have rx: "ring ((rx_fifo s)[oidx := ?v]) ((oidx + 1) mod 8) (rx_fifo_len s + 1) =
        ring (rx_fifo s) (rx_fifo_head s) (rx_fifo_len s) @ [?v]"
      using ring_push[of "rx_fifo s" oidx "rx_fifo_len s" ?v] Suc.prems(1,3) True by (simp add: ssp_ok_def)
    have a: "ssp_abs ?s = (ring (tx_fifo s) (tx_fifo_head s) (tx_fifo_len s - 1),
        ring (rx_fifo s) (rx_fifo_head s) (rx_fifo_len s) @ [?v], snd ?p)"
      using rx by (simp add: ssp_abs_def xfer_word_def Let_def split_beta)
    have "spec_xfer (ssp_cr1 s AND PL022_CR1_LBM \<noteq> 0) (ssp_bitmask s) (ssp_abs s) =
        spec_xfer (ssp_cr1 s AND PL022_CR1_LBM \<noteq> 0) (ssp_bitmask s) (ssp_abs ?s)"
      unfolding a ssp_abs_def[of s] tx
      using True by (subst spec_xfer.simps) (simp add: Let_def split_beta)
    moreover have "ssp_cr1 ?s = ssp_cr1 s" "ssp_bitmask ?s = ssp_bitmask s" "ssp_im ?s = ssp_im s"
      by (simp_all add: xfer_word_def Let_def split_beta)
    ultimately show ?thesis using IH by simp
  qed
qed

lemma pl022_xfer_refines:
  assumes "ssp_ok s" "ssp_cr1 s AND PL022_CR1_SSE \<noteq> 0"
  shows "ssp_ok (pl022_xfer s) \<and>
    ssp_abs (pl022_xfer s) = spec_xfer (ssp_cr1 s AND PL022_CR1_LBM \<noteq> 0) (ssp_bitmask s) (ssp_abs s) \<and>
    ssp_cr1 (pl022_xfer s) = ssp_cr1 s \<and> ssp_im (pl022_xfer s) = ssp_im s \<and>
    ssp_bitmask (pl022_xfer s) = ssp_bitmask s"
proof -
  obtain o' t' where l: "pl022_xfer_loop ((tx_fifo_head s + 8 - tx_fifo_len s) mod 8) (rx_fifo_head s) s = (o', t')"
    by fastforce
  have "pl022_xfer s = pl022_update (t'\<lparr>rx_fifo_head := o'\<rparr>)"
    using assms l by (simp add: pl022_xfer_def ring_nth ssp_ok_def)
  moreover have "s = s\<lparr>rx_fifo_head := rx_fifo_head s\<rparr>" by simp
  note xfer_loop_refines[OF assms(1) refl refl l this]
  ultimately show ?thesis by (simp add: pl022_update_def[of "t'\<lparr>rx_fifo_head := o'\<rparr>"] Let_def
        ssp_ok_def ssp_abs_def)
qed

lemma pl022_xfer_disabled: "ssp_cr1 s AND PL022_CR1_SSE = 0 \<Longrightarrow> pl022_xfer s = pl022_update s"
  by (simp add: pl022_xfer_def)

lemma pl022_xfer_ok: "ssp_ok s \<Longrightarrow> ssp_ok (pl022_xfer s)"
  using pl022_xfer_refines[of s] pl022_xfer_disabled[of s] by (cases "ssp_cr1 s AND PL022_CR1_SSE = 0") simp_all

section \<open>Reachable states\<close>

inductive pl022_reachable :: "'d pl022_state \<Rightarrow> bool" where
  init: "pl022_reachable (pl022_init bus)"
| guest_read: "pl022_reachable s \<Longrightarrow> pl022_read off s = Inr (v, s') \<Longrightarrow> pl022_reachable s'"
| guest_write: "pl022_reachable s \<Longrightarrow> pl022_write off v s = Inr s' \<Longrightarrow> pl022_reachable s'"

text \<open>The status registers are up to date.\<close>

definition status_ok :: "'d pl022_state \<Rightarrow> bool" where
  "status_ok s \<longleftrightarrow> pl022_update s = s"

lemma status_update [simp]: "status_ok (pl022_update s)"
  by (simp add: status_ok_def pl022_update_def Let_def)

lemma status_xfer [simp]: "status_ok (pl022_xfer s)"
  by (simp add: pl022_xfer_def Let_def split_beta)

lemma status_frame:
  "status_ok s \<Longrightarrow> status_ok (s\<lparr>ssp_cr0 := a, ssp_bitmask := b\<rparr>)" "status_ok s \<Longrightarrow> status_ok (s\<lparr>ssp_cpsr := c\<rparr>)"
proof -
  have "pl022_update (s\<lparr>ssp_cr0 := a, ssp_bitmask := b\<rparr>) = (pl022_update s)\<lparr>ssp_cr0 := a, ssp_bitmask := b\<rparr>"
    "pl022_update (s\<lparr>ssp_cpsr := c\<rparr>) = (pl022_update s)\<lparr>ssp_cpsr := c\<rparr>"
    by (cases s, simp add: pl022_update_def Let_def)+
  then show "status_ok s \<Longrightarrow> status_ok (s\<lparr>ssp_cr0 := a, ssp_bitmask := b\<rparr>)"
    "status_ok s \<Longrightarrow> status_ok (s\<lparr>ssp_cpsr := c\<rparr>)"
    by (simp_all add: status_ok_def)
qed

lemma pl022_write_inv:
  assumes "ssp_ok s" "status_ok s"
  shows "ensures (\<lambda>s'. ssp_ok s' \<and> status_ok s') (pl022_write off v s)"
proof -
  have f: "ssp_ok (s\<lparr>ssp_cr0 := v, ssp_bitmask := b\<rparr>)" "ssp_ok (s\<lparr>ssp_cpsr := v AND 0xff\<rparr>)"
    "ssp_ok (s\<lparr>ssp_im := v\<rparr>)" "ssp_ok (s\<lparr>ssp_cr1 := v\<rparr>)"
    "tx_fifo_len s < 8 \<Longrightarrow> ssp_ok (s\<lparr>tx_fifo := (tx_fifo s)[tx_fifo_head s := w],
       tx_fifo_head := Suc (tx_fifo_head s) mod 8, tx_fifo_len := Suc (tx_fifo_len s)\<rparr>)" for b w
    using assms(1) by (simp_all add: ssp_ok_def)
  show ?thesis
    unfolding pl022_write_def ensures_if ensures_Inr
    using assms by (auto simp: status_frame f pl022_xfer_ok)
qed

lemma pl022_read_inv:
  assumes "ssp_ok s" "status_ok s"
  shows "ensures (\<lambda>(v, s'). ssp_ok s' \<and> status_ok s') (pl022_read off s)"
proof -
  have "ssp_ok (s\<lparr>rx_fifo_len := rx_fifo_len s - 1\<rparr>)" using assms(1) by (auto simp: ssp_ok_def)
  then show ?thesis
    unfolding pl022_read_def ensures_if ensures_rbind ensures_Inr
    using assms by (auto simp: pl022_xfer_ok ensures_aget)
qed

lemma pl022_reachable_inv: "pl022_reachable s \<Longrightarrow> ssp_ok s \<and> status_ok s"
proof (induction rule: pl022_reachable.induct)
  case (init bus)
  show ?case
    by (simp add: ssp_ok_def status_ok_def pl022_init_def pl022_reset_def pl022_update_def Let_def)
next
  case (guest_read s off v s')
  then show ?case using pl022_read_inv[of s off] by (auto simp: ensures_def)
next
  case (guest_write s off v s')
  then show ?case using pl022_write_inv[of s off v] by (auto simp: ensures_def)
qed

section \<open>Loopback\<close>

definition looped :: "'d pl022_state \<Rightarrow> bool" where
  "looped s \<longleftrightarrow> ssp_ok s \<and> ssp_cr1 s AND PL022_CR1_SSE \<noteq> 0 \<and> ssp_cr1 s AND PL022_CR1_LBM \<noteq> 0 \<and> tx_fifo_len s = 0"

definition rx_words :: "'d pl022_state \<Rightarrow> u16 list" where
  "rx_words s = ring (rx_fifo s) (rx_fifo_head s) (rx_fifo_len s)"

lemma spec_xfer_loopback:
  "length rxs < 8 \<Longrightarrow> spec_xfer True bm ([w], rxs, bus) = ([], rxs @ [ucast (ucast w AND bm)], bus)"
  by (simp add: spec_xfer.simps)

lemma spec_xfer_Nil: "spec_xfer lbm bm ([], rxs, bus) = ([], rxs, bus)"
  by (simp add: spec_xfer.simps)

lemma mask_twice: "ucast ((ucast (ucast (v AND bm) :: u16) :: u32) AND bm) = (ucast (v AND bm) :: u16)"
  by (rule bit_word_eqI) (auto simp: bit_simps)

lemma looped_write:
  assumes "looped s" "rx_fifo_len s < 8"
  shows "\<exists>s'. pl022_write 0x08 v s = Inr s' \<and> looped s' \<and> ssp_bitmask s' = ssp_bitmask s \<and>
    rx_words s' = rx_words s @ [ucast (v AND ssp_bitmask s)]"
proof -
  let ?w = "ucast (v AND ssp_bitmask s) :: u16"
  let ?s = "s\<lparr>tx_fifo := (tx_fifo s)[tx_fifo_head s := ?w], tx_fifo_head := (tx_fifo_head s + 1) mod 8,
     tx_fifo_len := tx_fifo_len s + 1\<rparr>"
  have ok: "ssp_ok ?s" using assms(1) by (simp add: looped_def ssp_ok_def)
  have "ring (tx_fifo ?s) (tx_fifo_head ?s) (tx_fifo_len ?s) = [?w]"
    using ring_push[of "tx_fifo s" "tx_fifo_head s" 0 ?w] assms(1)
    by (simp add: looped_def ssp_ok_def ring_def[of _ _ 0])
  then have abs: "ssp_abs ?s = ([?w], rx_words s, ssp_bus s)"
    by (simp add: ssp_abs_def rx_words_def)
  have r: "length (rx_words s) < 8" using assms(2) by (simp add: rx_words_def)
  have "ssp_abs (pl022_xfer ?s) = ([], rx_words s @ [?w], ssp_bus s)"
    "ssp_ok (pl022_xfer ?s)" "ssp_cr1 (pl022_xfer ?s) = ssp_cr1 s" "ssp_bitmask (pl022_xfer ?s) = ssp_bitmask s"
    using pl022_xfer_refines[OF ok] assms(1)
    unfolding abs by (simp_all add: looped_def spec_xfer_loopback[OF r] mask_twice)
  then have "looped (pl022_xfer ?s)" "rx_words (pl022_xfer ?s) = rx_words s @ [?w]"
    using assms(1) by (auto simp: looped_def ssp_abs_def rx_words_def dest: arg_cong[of _ _ length])
  moreover have "pl022_write 0x08 v s = Inr (pl022_xfer ?s)"
    using assms(1) by (simp add: pl022_write_def looped_def)
  ultimately show ?thesis using \<open>ssp_bitmask (pl022_xfer ?s) = ssp_bitmask s\<close> by blast
qed

lemma looped_read:
  assumes "looped s" "rx_words s = w # ws"
  shows "\<exists>s'. pl022_read 0x08 s = Inr (ucast w, s') \<and> looped s' \<and> rx_words s' = ws"
proof -
  let ?s = "s\<lparr>rx_fifo_len := rx_fifo_len s - 1\<rparr>"
  have l: "0 < rx_fifo_len s" using assms(2) by (cases "rx_fifo_len s") (auto simp: rx_words_def ring_def)
  have l8: "rx_fifo_len s \<le> 8" using assms(1) by (simp add: looped_def ssp_ok_def)
  have h: "rx_fifo s ! ((rx_fifo_head s + 8 - rx_fifo_len s) mod 8) = w" "rx_words ?s = ws"
    using ring_pop[OF l l8, of "rx_fifo s" "rx_fifo_head s"] assms(2) by (simp_all add: rx_words_def)
  have ok: "ssp_ok ?s" using assms(1) by (auto simp: looped_def ssp_ok_def)
  have abs: "ssp_abs ?s = ([], ws, ssp_bus s)"
    using assms(1) h(2) by (simp add: ssp_abs_def rx_words_def looped_def ring_def[of _ _ 0])
  have "ssp_abs (pl022_xfer ?s) = ([], ws, ssp_bus s)" "ssp_ok (pl022_xfer ?s)"
    "ssp_cr1 (pl022_xfer ?s) = ssp_cr1 s"
    using pl022_xfer_refines[OF ok] assms(1) unfolding abs by (simp_all add: looped_def spec_xfer_Nil)
  then have "looped (pl022_xfer ?s)" "rx_words (pl022_xfer ?s) = ws"
    using assms(1) by (auto simp: looped_def ssp_abs_def rx_words_def dest: arg_cong[of _ _ length])
  moreover have "pl022_read 0x08 s = Inr (ucast w, pl022_xfer ?s)"
    using l h(1) l8 by (simp add: pl022_read_def ring_nth)
  ultimately show ?thesis by blast
qed

primrec pl022_writes :: "u32 list \<Rightarrow> 'd pl022_state \<Rightarrow> 'd pl022_state result" where
  "pl022_writes [] s = Inr s"
| "pl022_writes (v # vs) s = rbind (pl022_write 0x08 v s) (pl022_writes vs)"

primrec pl022_reads :: "nat \<Rightarrow> 'd pl022_state \<Rightarrow> (u32 list \<times> 'd pl022_state) result" where
  "pl022_reads 0 s = Inr ([], s)"
| "pl022_reads (Suc n) s =
     rbind (pl022_read 0x08 s) (\<lambda>(v, s). rbind (pl022_reads n s) (\<lambda>(vs, s). Inr (v # vs, s)))"

lemma looped_writes:
  assumes "looped s" "length (rx_words s) + length vs \<le> 8"
  shows "\<exists>s'. pl022_writes vs s = Inr s' \<and> looped s' \<and>
    rx_words s' = rx_words s @ map (\<lambda>v. ucast (v AND ssp_bitmask s)) vs"
  using assms
proof (induction vs arbitrary: s)
  case (Cons v vs)
  then have "rx_fifo_len s < 8" by (simp add: rx_words_def)
  from looped_write[OF Cons.prems(1) this, of v] obtain s1 where
    "pl022_write 0x08 v s = Inr s1" "looped s1" "ssp_bitmask s1 = ssp_bitmask s"
    "rx_words s1 = rx_words s @ [ucast (v AND ssp_bitmask s)]" by blast
  then show ?case using Cons.IH[of s1] Cons.prems(2) by auto
qed simp

lemma looped_reads:
  assumes "looped s"
  shows "\<exists>s'. pl022_reads (length (rx_words s)) s = Inr (map ucast (rx_words s), s') \<and> rx_words s' = []"
  using assms
proof (induction "rx_words s" arbitrary: s)
  case Nil
  then show ?case by simp
next
  case (Cons w ws)
  from looped_read[OF Cons.prems, of w ws] Cons.hyps(2) obtain s1 where
    s1: "pl022_read 0x08 s = Inr (ucast w, s1)" "looped s1" "rx_words s1 = ws" by auto
  then obtain s2 where "pl022_reads (length ws) s1 = Inr (map ucast ws, s2)" "rx_words s2 = []"
    using Cons.hyps(1)[of s1] by auto
  then show ?case using s1 by (simp add: Cons.hyps(2)[symmetric])
qed

section \<open>Properties\<close>

text \<open>
  C36: with the port enabled, the transfer engine on the two ring buffers refines the
  abstract port on queues: it sends the waiting words in order, stores each answer
  masked to the frame size behind the words received so far, and stops when nothing is
  left to send or eight words wait to be read, so the receive buffer never overflows.
\<close>

theorem pl022_transfer_refines:
  assumes "ssp_ok s" "ssp_cr1 s AND PL022_CR1_SSE \<noteq> 0"
  shows "ssp_ok (pl022_xfer s) \<and>
    ssp_abs (pl022_xfer s) = spec_xfer (ssp_cr1 s AND PL022_CR1_LBM \<noteq> 0) (ssp_bitmask s) (ssp_abs s)"
  using pl022_xfer_refines[OF assms] by simp

definition echo_plus_one :: "nat SSISlave" where
  "echo_plus_one = \<lparr>ssi_dev = 0, ssi_callback = (\<lambda>v d. (v + 1, Suc d))\<rparr>"

definition ssp_sample :: "nat pl022_state" where
  "ssp_sample = (pl022_init (Some echo_plus_one))\<lparr>ssp_cr1 := 2, ssp_bitmask := 0xff,
     tx_fifo := [7, 8, 0, 0, 0, 0, 0, 0], tx_fifo_head := 2, tx_fifo_len := 2\<rparr>"

theorem pl022_transfer_refines_witness:
  "ssp_abs (pl022_xfer ssp_sample) = ([], [8, 9], Some (echo_plus_one\<lparr>ssi_dev := 2\<rparr>))"
proof -
  have ok: "ssp_ok ssp_sample" "ssp_cr1 ssp_sample AND PL022_CR1_SSE \<noteq> 0"
    by (simp_all add: ssp_sample_def ssp_ok_def pl022_init_def pl022_reset_def PL022_CR1_SSE_def)
  have a: "ssp_abs ssp_sample = ([7, 8], [], Some echo_plus_one)"
    "ssp_cr1 ssp_sample AND PL022_CR1_LBM = 0" "ssp_bitmask ssp_sample = 0xff"
    by (simp_all add: ssp_sample_def ssp_abs_def ring_def pl022_init_def pl022_reset_def
        PL022_CR1_LBM_def upt_rec)
  show ?thesis
    using pl022_transfer_refines[OF ok] unfolding a
    by (simp add: spec_xfer.simps ssi_transfer_def echo_plus_one_def)
qed

text \<open>
  In loopback mode up to eight words written to an empty port are read back in
  order, each cut to the configured frame size.
\<close>

theorem pl022_loopback:
  assumes "ssp_ok s" "ssp_cr1 s AND PL022_CR1_SSE \<noteq> 0" "ssp_cr1 s AND PL022_CR1_LBM \<noteq> 0"
    and "tx_fifo_len s = 0" "rx_fifo_len s = 0" "length vs \<le> 8"
  shows "\<exists>s1 s2. pl022_writes vs s = Inr s1 \<and>
    pl022_reads (length vs) s1 = Inr (map (\<lambda>v. ucast (ucast (v AND ssp_bitmask s) :: u16)) vs, s2) \<and>
    rx_fifo_len s2 = 0"
proof -
  have l: "looped s" and e: "rx_words s = []"
    using assms by (simp_all add: looped_def rx_words_def ring_def)
  obtain s1 where s1: "pl022_writes vs s = Inr s1" "looped s1"
    "rx_words s1 = map (\<lambda>v. ucast (v AND ssp_bitmask s)) vs"
    using looped_writes[OF l, of vs] e assms(6) by auto
  obtain s2 where s2: "pl022_reads (length (rx_words s1)) s1 = Inr (map ucast (rx_words s1), s2)" "rx_words s2 = []"
    using looped_reads[OF s1(2)] by blast
  have "rx_fifo_len s2 = 0" using s2(2) by (simp add: rx_words_def ring_def)
  then show ?thesis using s1 s2(1) by (auto simp: comp_def)
qed

theorem pl022_loopback_witness:
  "\<exists>s1 s2. pl022_writes [0x123, 0x45] (ssp_sample\<lparr>ssp_cr1 := 3, tx_fifo_len := 0\<rparr>) = Inr s1 \<and>
     pl022_reads 2 s1 = Inr ([0x23, 0x45], s2) \<and> rx_fifo_len s2 = 0"
proof -
  let ?s = "ssp_sample\<lparr>ssp_cr1 := 3, tx_fifo_len := 0\<rparr>"
  have f: "ssp_ok ?s" "ssp_cr1 ?s AND PL022_CR1_SSE \<noteq> 0" "ssp_cr1 ?s AND PL022_CR1_LBM \<noteq> 0"
    "tx_fifo_len ?s = 0" "rx_fifo_len ?s = 0" "length [0x123, 0x45 :: u32] \<le> 8"
    by (simp_all add: ssp_sample_def ssp_ok_def pl022_init_def pl022_reset_def PL022_CR1_SSE_def PL022_CR1_LBM_def)
  have b: "ssp_bitmask ?s = 0xff" by (simp add: ssp_sample_def)
  have m: "map (\<lambda>v. ucast (ucast (v AND 0xff) :: u16)) [0x123, 0x45 :: u32] = [0x23, 0x45 :: u32]"
    and n: "length [0x123, 0x45 :: u32] = 2" by simp_all
  show ?thesis using pl022_loopback[OF f] unfolding b m n .
qed

text \<open>
  In every reachable state the status and raw interrupt registers and the interrupt
  line are those computed from the current buffer lengths, and all buffer indices are
  in range.
\<close>

theorem pl022_status_current:
  assumes "pl022_reachable s"
  shows "pl022_update s = s \<and> ssp_ok s"
  using pl022_reachable_inv[OF assms] by (simp add: status_ok_def)

theorem pl022_status_current_witness:
  "pl022_update (pl022_init (Some echo_plus_one)) = pl022_init (Some echo_plus_one)"
  using pl022_status_current[OF pl022_reachable.init[of "Some echo_plus_one"]] by simp

end
