(* ===== verification/PL190.thy ===== *)
theory PL190
  imports Vemu_Prelude
begin

text \<open>
  The PL190 vectored interrupt controller (\<^verbatim>\<open>hw/pl190.c\<close>). The two output lines keep
  the level last driven on them.
\<close>

definition PL190_NUM_PRIO :: nat where "PL190_NUM_PRIO = 17"

record pl190_state =
  vic_level :: u32
  soft_level :: u32
  irq_enable :: u32
  fiq_select :: u32
  vect_control :: "u8 list"
  vect_addr :: "u32 list"
  prio_mask :: "u32 list"
  vic_protected :: u32
  vic_priority :: nat
  prev_prio :: "nat list"
  vic_irq :: bool
  vic_fiq :: bool

definition pl190_id :: "u8 list" where
  "pl190_id = [0x90, 0x11, 0x04, 0x00, 0x0D, 0xf0, 0x05, 0xb1]"

section \<open>Operations\<close>

definition pl190_irq_level :: "pl190_state \<Rightarrow> u32" where
  "pl190_irq_level s = ((vic_level s OR soft_level s) AND irq_enable s) AND NOT (fiq_select s)"

definition pl190_update :: "pl190_state \<Rightarrow> pl190_state result" where
  "pl190_update s =
     rbind (aget (prio_mask s) (vic_priority s)) (\<lambda>m.
     Inr (s\<lparr>vic_irq := pl190_irq_level s AND m \<noteq> 0,
            vic_fiq := (vic_level s OR soft_level s) AND fiq_select s \<noteq> 0\<rparr>))"

definition pl190_set_irq :: "nat \<Rightarrow> bool \<Rightarrow> pl190_state \<Rightarrow> pl190_state result" where
  "pl190_set_irq irq level s =
     pl190_update (if level then s\<lparr>vic_level := vic_level s OR push_bit irq 1\<rparr>
                   else s\<lparr>vic_level := vic_level s AND NOT (push_bit irq 1)\<rparr>)"

text \<open>The loop of \<^verbatim>\<open>pl190_update_vectors\<close>: the mask before each vector, and after the last.\<close>

primrec vector_masks :: "u32 \<Rightarrow> u8 list \<Rightarrow> u32 list" where
  "vector_masks m [] = [m]"
| "vector_masks m (c # cs) =
     m # vector_masks (if c AND 0x20 \<noteq> 0 then m OR push_bit (unat (c AND 0x1f)) 1 else m) cs"

definition pl190_update_vectors :: "pl190_state \<Rightarrow> pl190_state result" where
  "pl190_update_vectors s =
     pl190_update (s\<lparr>prio_mask := vector_masks 0 (vect_control s) @ drop 17 (prio_mask s)\<rparr>)"

definition vect_search :: "u32 \<Rightarrow> u32 list \<Rightarrow> nat \<Rightarrow> nat" where
  "vect_search pending masks prio =
     (case find (\<lambda>i. pending AND masks ! i \<noteq> 0) [0..<prio] of Some i \<Rightarrow> i | None \<Rightarrow> prio)"

definition read_vectaddr :: "pl190_state \<Rightarrow> (u32 \<times> pl190_state) result" where
  "read_vectaddr s =
     (let i = vect_search (vic_level s OR soft_level s) (prio_mask s) (vic_priority s) in
      if i = PL190_NUM_PRIO then Inr (vect_addr s ! 16, s)
      else rbind
        (if i < vic_priority s
         then rbind (aset (prev_prio s) i (vic_priority s)) (\<lambda>ps.
              pl190_update (s\<lparr>prev_prio := ps, vic_priority := i\<rparr>))
         else Inr s)
        (\<lambda>s. rbind (aget (vect_addr s) (vic_priority s)) (\<lambda>a. Inr (a, s))))"

definition pl190_read :: "u32 \<Rightarrow> pl190_state \<Rightarrow> (u32 \<times> pl190_state) result" where
  "pl190_read offset s =
     (if 0xfe0 \<le> offset \<and> offset < 0x1000 then
        rbind (aget pl190_id (unat (drop_bit 2 (offset - 0xfe0)))) (\<lambda>b. Inr (ucast b, s))
      else if 0x100 \<le> offset \<and> offset < 0x140 then
        rbind (aget (vect_addr s) (unat (drop_bit 2 (offset - 0x100)))) (\<lambda>a. Inr (a, s))
      else if 0x200 \<le> offset \<and> offset < 0x240 then
        rbind (aget (vect_control s) (unat (drop_bit 2 (offset - 0x200)))) (\<lambda>c. Inr (ucast c, s))
      else let r = drop_bit 2 offset in
        if r = 0 then Inr (pl190_irq_level s, s)
        else if r = 1 then Inr ((vic_level s OR soft_level s) AND fiq_select s, s)
        else if r = 2 then Inr (vic_level s OR soft_level s, s)
        else if r = 3 then Inr (fiq_select s, s)
        else if r = 4 then Inr (irq_enable s, s)
        else if r = 6 then Inr (soft_level s, s)
        else if r = 8 then Inr (vic_protected s, s)
        else if r = 12 then read_vectaddr s
        else if r = 13 then Inr (vect_addr s ! 16, s)
        else Inl Hw_Error)"

definition vic_write_reg :: "u32 \<Rightarrow> u32 \<Rightarrow> pl190_state \<Rightarrow> pl190_state result" where
  "vic_write_reg r val s =
     (if r = 0 then Inr s
      else if r = 3 then Inr (s\<lparr>fiq_select := val\<rparr>)
      else if r = 4 then Inr (s\<lparr>irq_enable := irq_enable s OR val\<rparr>)
      else if r = 5 then Inr (s\<lparr>irq_enable := irq_enable s AND NOT val\<rparr>)
      else if r = 6 then Inr (s\<lparr>soft_level := soft_level s OR val\<rparr>)
      else if r = 7 then Inr (s\<lparr>soft_level := soft_level s AND NOT val\<rparr>)
      else if r = 8 then Inr (s\<lparr>vic_protected := val AND 1\<rparr>)
      else if r = 12 then
        if vic_priority s < PL190_NUM_PRIO
        then rbind (aget (prev_prio s) (vic_priority s)) (\<lambda>p. Inr (s\<lparr>vic_priority := p\<rparr>))
        else Inr s
      else if r = 13 then Inr (s\<lparr>vect_addr := (vect_addr s)[16 := val]\<rparr>)
      else if r = 0xc0 then if val \<noteq> 0 then Inl Hw_Error else Inr s
      else Inl Hw_Error)"

definition pl190_write :: "u32 \<Rightarrow> u32 \<Rightarrow> pl190_state \<Rightarrow> pl190_state result" where
  "pl190_write offset val s =
     (if 0x100 \<le> offset \<and> offset < 0x140 then
        rbind (aset (vect_addr s) (unat (drop_bit 2 (offset - 0x100))) val) (\<lambda>xs.
        pl190_update_vectors (s\<lparr>vect_addr := xs\<rparr>))
      else if 0x200 \<le> offset \<and> offset < 0x240 then
        rbind (aset (vect_control s) (unat (drop_bit 2 (offset - 0x200))) (ucast val)) (\<lambda>xs.
        pl190_update_vectors (s\<lparr>vect_control := xs\<rparr>))
      else rbind (vic_write_reg (drop_bit 2 offset) val s) pl190_update)"

definition pl190_reset :: "pl190_state \<Rightarrow> pl190_state result" where
  "pl190_reset s =
     pl190_update_vectors (s\<lparr>vect_addr := replicate 17 0, vect_control := replicate 16 0,
       prio_mask := (prio_mask s)[17 := 0xffffffff], vic_priority := PL190_NUM_PRIO\<rparr>)"

text \<open>The device is allocated with zeroed memory; the board resets it before it runs.\<close>

definition pl190_init :: pl190_state where
  "pl190_init = \<lparr>vic_level = 0, soft_level = 0, irq_enable = 0, fiq_select = 0,
     vect_control = replicate 16 0, vect_addr = replicate 17 0, prio_mask = replicate 18 0,
     vic_protected = 0, vic_priority = 0, prev_prio = replicate 17 0, vic_irq = False, vic_fiq = False\<rparr>"

section \<open>The priority masks\<close>

text \<open>The interrupt a vector serves, if the vector is enabled, as a mask.\<close>

definition vector_bit :: "u8 \<Rightarrow> u32" where
  "vector_bit c = (if c AND 0x20 \<noteq> 0 then push_bit (unat (c AND 0x1f)) 1 else 0)"

lemma length_vector_masks [simp]: "length (vector_masks m cs) = Suc (length cs)"
  by (induction cs arbitrary: m) simp_all

lemma vector_masks_nth:
  "i \<le> length cs \<Longrightarrow> vector_masks m cs ! i = m OR foldr (OR) (map vector_bit (take i cs)) 0"
proof (induction cs arbitrary: m i)
  case (Cons c cs)
  then show ?case
    by (cases i) (auto simp: vector_bit_def or.assoc)
qed simp

definition wf_vic :: "pl190_state \<Rightarrow> bool" where
  "wf_vic s \<longleftrightarrow> length (vect_control s) = 16 \<and> length (vect_addr s) = 17 \<and> length (prio_mask s) = 18 \<and>
     length (prev_prio s) = 17 \<and> vic_priority s \<le> 17 \<and> (\<forall>p \<in> set (prev_prio s). p \<le> 17) \<and>
     prio_mask s = vector_masks 0 (vect_control s) @ [0xffffffff]"

text \<open>The output lines show the pending interrupts.\<close>

definition vic_lines :: "pl190_state \<Rightarrow> bool" where
  "vic_lines s \<longleftrightarrow> vic_irq s = (pl190_irq_level s AND prio_mask s ! vic_priority s \<noteq> 0) \<and>
     vic_fiq s = ((vic_level s OR soft_level s) AND fiq_select s \<noteq> 0)"

lemma pl190_update_eq:
  "wf_vic s \<Longrightarrow> pl190_update s =
     Inr (s\<lparr>vic_irq := pl190_irq_level s AND prio_mask s ! vic_priority s \<noteq> 0,
            vic_fiq := (vic_level s OR soft_level s) AND fiq_select s \<noteq> 0\<rparr>)"
  by (simp add: pl190_update_def wf_vic_def)

lemma ensures_update: "wf_vic s \<Longrightarrow> ensures (\<lambda>s'. wf_vic s' \<and> vic_lines s') (pl190_update s)"
  by (simp add: pl190_update_eq) (simp add: wf_vic_def vic_lines_def pl190_irq_level_def)

lemma ensures_update_vectors:
  assumes "length (vect_control s) = 16" "length (vect_addr s) = 17" "length (prev_prio s) = 17"
    and "vic_priority s \<le> 17" "\<forall>p \<in> set (prev_prio s). p \<le> 17" "drop 17 (prio_mask s) = [0xffffffff]"
  shows "ensures (\<lambda>s'. wf_vic s' \<and> vic_lines s') (pl190_update_vectors s)"
  unfolding pl190_update_vectors_def using assms by (intro ensures_update) (simp add: wf_vic_def)

lemma vect_search_le: "vect_search p ms n \<le> n"
proof (cases "find (\<lambda>i. p AND ms ! i \<noteq> 0) [0..<n]")
  case (Some i)
  then have "i < n" by (auto simp: find_Some_iff)
  then show ?thesis by (simp add: vect_search_def Some)
qed (simp add: vect_search_def)

lemma wf_vic_enter:
  assumes "wf_vic s" "i < vic_priority s"
  shows "wf_vic (s\<lparr>prev_prio := (prev_prio s)[i := vic_priority s], vic_priority := i\<rparr>)"
  using assms by (auto simp: wf_vic_def dest: set_update_subset_insert[THEN subsetD])

text \<open>Reading \<^verbatim>\<open>VECTADDR\<close> never faults, and stacks the priority when it raises it.\<close>

lemma read_vectaddr_eq:
  assumes "wf_vic s"
  defines "i \<equiv> vect_search (vic_level s OR soft_level s) (prio_mask s) (vic_priority s)"
  shows "read_vectaddr s =
    (if i < vic_priority s then
       rbind (pl190_update (s\<lparr>prev_prio := (prev_prio s)[i := vic_priority s], vic_priority := i\<rparr>))
         (\<lambda>s'. Inr (vect_addr s ! i, s'))
     else Inr (vect_addr s ! (if i = 17 then 16 else i), s))"
proof -
  have i: "i \<le> vic_priority s" unfolding i_def by (rule vect_search_le)
  have l: "length (prev_prio s) = 17" "vic_priority s \<le> 17" "length (vect_addr s) = 17"
    using assms(1) by (simp_all add: wf_vic_def)
  show ?thesis
  proof (cases "i < vic_priority s")
    case True
    then show ?thesis
      using l by (simp add: read_vectaddr_def i_def[symmetric] PL190_NUM_PRIO_def
          pl190_update_eq[OF wf_vic_enter[OF assms(1) True]])
  next
    case False
    with i l show ?thesis
      by (auto simp: read_vectaddr_def i_def[symmetric] PL190_NUM_PRIO_def aget_def)
  qed
qed

lemma ensures_read_vectaddr:
  assumes "wf_vic s" "vic_lines s"
  shows "ensures (\<lambda>(v, s'). wf_vic s' \<and> vic_lines s') (read_vectaddr s)"
  using ensures_update[OF wf_vic_enter[OF assms(1)]] assms(2)
  by (auto simp: read_vectaddr_eq[OF assms(1)] assms ensures_rbind)

lemma ensures_vic_read:
  assumes "wf_vic s" "vic_lines s"
  shows "ensures (\<lambda>(v, s'). wf_vic s' \<and> vic_lines s') (pl190_read off s)"
  unfolding pl190_read_def Let_def ensures_if ensures_rbind ensures_Inr
  using assms ensures_read_vectaddr[OF assms] by (auto simp: ensures_aget)

lemma ensures_vic_write_reg: "wf_vic s \<Longrightarrow> ensures wf_vic (vic_write_reg r v s)"
  unfolding vic_write_reg_def ensures_if ensures_rbind ensures_Inr
  by (auto simp: wf_vic_def ensures_aget)

lemma ensures_vic_write:
  assumes "wf_vic s"
  shows "ensures (\<lambda>s'. wf_vic s' \<and> vic_lines s') (pl190_write off v s)"
proof -
  have l: "length (vect_control s) = 16" "length (vect_addr s) = 17" "length (prev_prio s) = 17"
    "vic_priority s \<le> 17" "\<forall>p \<in> set (prev_prio s). p \<le> 17" "drop 17 (prio_mask s) = [0xffffffff]"
    using assms by (simp_all add: wf_vic_def)
  have u: "ensures (\<lambda>s'. wf_vic s' \<and> vic_lines s') (rbind (vic_write_reg r v s) pl190_update)" for r
    using ensures_vic_write_reg[OF assms] by (rule ensures_rbindI) (rule ensures_update)
  show ?thesis
    unfolding pl190_write_def ensures_if ensures_rbind[of _ "aset _ _ _"] ensures_aset
    using l u by (auto intro!: ensures_update_vectors)
qed

lemma word_nonzero_iff_bit: "(w::u32) \<noteq> 0 \<longleftrightarrow> (\<exists>n < 32. bit w n)"
  by (auto simp: bit_eq_iff bit_imp_le_length)

lemma bit_foldr_or: "bit (foldr (OR) (ws::u32 list) 0) n \<longleftrightarrow> (\<exists>w \<in> set ws. bit w n)"
  by (induction ws) (auto simp: bit_or_iff)

lemma foldr_or_init: "foldr (OR) ws (w::u32) = foldr (OR) ws 0 OR w"
  by (induction ws) (simp_all add: or.assoc)

lemma prio_mask_bit:
  assumes "wf_vic s" "n < 32"
  shows "bit (prio_mask s ! vic_priority s) n \<longleftrightarrow>
    vic_priority s = 17 \<or> (\<exists>k < vic_priority s. bit (vector_bit (vect_control s ! k)) n)"
proof (cases "vic_priority s = 17")
  case True
  have "(0xffffffff :: u32) = - 1" by simp
  then have "bit (0xffffffff :: u32) n" using assms(2) by (simp only: bit_minus_1_iff) simp
  with True assms(1) show ?thesis by (simp add: wf_vic_def nth_append)
next
  case False
  then have "vic_priority s \<le> 16" "length (vect_control s) = 16" using assms(1) by (auto simp: wf_vic_def)
  with assms(1) False show ?thesis
    by (auto simp: wf_vic_def nth_append vector_masks_nth bit_foldr_or set_conv_nth)
qed

section \<open>Reachable states\<close>

lemma drop_bit_index:
  fixes off :: u32
  assumes "b \<le> off" "off < b + 64" "unat b + 64 < 2 ^ 32"
  shows "unat (drop_bit 2 (off - b)) < 16"
proof -
  have "unat (b + 64) = unat b + 64" using assms(3) by (subst unat_add_lem[THEN iffD1]) simp_all
  then have "unat off < unat b + 64" using assms(2) by (simp add: word_less_nat_alt)
  then have "unat (off - b) < 64" using assms(1) by (simp add: unat_sub word_le_nat_alt)
  then show ?thesis by (simp add: drop_bit_eq_div unat_div)
qed

inductive vic_reach :: "pl190_state \<Rightarrow> bool" where
  vic_start: "pl190_reset pl190_init = Inr s \<Longrightarrow> vic_reach s"
| vic_line: "vic_reach s \<Longrightarrow> pl190_set_irq i l s = Inr s' \<Longrightarrow> vic_reach s'"
| vic_read: "vic_reach s \<Longrightarrow> pl190_read off s = Inr (v, s') \<Longrightarrow> vic_reach s'"
| vic_write: "vic_reach s \<Longrightarrow> pl190_write off v s = Inr s' \<Longrightarrow> vic_reach s'"
| vic_reset: "vic_reach s \<Longrightarrow> pl190_reset s = Inr s' \<Longrightarrow> vic_reach s'"

lemma ensures_vic_reset:
  assumes "length (prio_mask s) = 18" "length (prev_prio s) = 17" "\<forall>p \<in> set (prev_prio s). p \<le> 17"
  shows "ensures (\<lambda>s'. wf_vic s' \<and> vic_lines s') (pl190_reset s)"
proof -
  have "drop 17 ((prio_mask s)[17 := 0xffffffff]) = [0xffffffff]"
    using assms(1) by (intro nth_equalityI) auto
  then show ?thesis
    unfolding pl190_reset_def using assms by (intro ensures_update_vectors) (simp_all add: PL190_NUM_PRIO_def)
qed

lemma vic_reach_wf: "vic_reach s \<Longrightarrow> wf_vic s \<and> vic_lines s"
proof (induction rule: vic_reach.induct)
  case (vic_start s)
  have "ensures (\<lambda>s'. wf_vic s' \<and> vic_lines s') (pl190_reset pl190_init)"
    by (rule ensures_vic_reset) (simp_all add: pl190_init_def)
  with vic_start show ?case by simp
next
  case (vic_line s i l s')
  then have "ensures (\<lambda>s'. wf_vic s' \<and> vic_lines s') (pl190_set_irq i l s)"
    unfolding pl190_set_irq_def by (intro ensures_update) (simp add: wf_vic_def)
  with vic_line show ?case by simp
next
  case (vic_read s off v s')
  with ensures_vic_read[of s off] show ?case by simp
next
  case (vic_write s off v s')
  with ensures_vic_write[of s off v] show ?case by simp
next
  case (vic_reset s s')
  with ensures_vic_reset[of s] show ?case by (simp add: wf_vic_def)
qed

lemma pl190_update_total: "wf_vic s \<Longrightarrow> pl190_update s \<noteq> Inl e"
  by (simp add: pl190_update_eq)

lemma pl190_write_fault:
  assumes wf: "wf_vic s" and e: "pl190_write off v s = Inl e"
  shows "e = Hw_Error"
proof -
  have l: "length (vect_addr s) = 17" "length (vect_control s) = 16" "length (prio_mask s) = 18"
    "vic_priority s \<le> 17" "length (prev_prio s) = 17"
    using wf by (simp_all add: wf_vic_def)
  have uv: "pl190_update_vectors (s\<lparr>vect_addr := xs\<rparr>) \<noteq> Inl e"
    "length ys = 16 \<Longrightarrow> pl190_update_vectors (s\<lparr>vect_control := ys\<rparr>) \<noteq> Inl e" for xs ys
    using l by (simp_all add: pl190_update_vectors_def pl190_update_def)
  have i: "0x100 \<le> off \<Longrightarrow> off < 0x140 \<Longrightarrow> unat (drop_bit 2 (off - 0x100)) < 17"
    "0x200 \<le> off \<Longrightarrow> off < 0x240 \<Longrightarrow> unat (drop_bit 2 (off - 0x200)) < 16"
    using drop_bit_index[of "0x100" off] drop_bit_index[of "0x200" off] by simp_all
  have r: "vic_write_reg (drop_bit 2 off) v s = Inl e'  \<Longrightarrow> e' = Hw_Error" for e'
    using l by (simp add: vic_write_reg_def PL190_NUM_PRIO_def split: if_splits)
  show ?thesis
  proof (cases "0x100 \<le> off \<and> off < 0x140 \<or> 0x200 \<le> off \<and> off < 0x240")
    case True
    then show ?thesis using e uv i l by (auto simp: pl190_write_def split: if_splits)
  next
    case False
    then have "rbind (vic_write_reg (drop_bit 2 off) v s) pl190_update = Inl e"
      using e by (simp add: pl190_write_def split: if_splits)
    moreover have "pl190_update s' \<noteq> Inl e" if "vic_write_reg (drop_bit 2 off) v s = Inr s'" for s'
      using ensures_vic_write_reg[OF wf, of "drop_bit 2 off" v] that by (simp add: pl190_update_total)
    ultimately show ?thesis using r by (cases "vic_write_reg (drop_bit 2 off) v s") auto
  qed
qed

text \<open>C37: in every state the interrupt controller can reach, the IRQ line is high exactly if an
  enabled, pending interrupt has a higher priority than the running handler, the FIQ line exactly if
  a pending interrupt is routed to it, and a register write never leaves the vector tables: the only
  fault is the one for unimplemented registers.\<close>

theorem pl190_lines_correct:
  assumes "vic_reach s"
  shows "vic_irq s = (\<exists>n < 32. bit (vic_level s OR soft_level s) n \<and> bit (irq_enable s) n \<and>
           \<not> bit (fiq_select s) n \<and>
           (vic_priority s = 17 \<or> (\<exists>k < vic_priority s. bit (vector_bit (vect_control s ! k)) n))) \<and>
    vic_fiq s = (\<exists>n < 32. bit (vic_level s OR soft_level s) n \<and> bit (fiq_select s) n) \<and>
    (pl190_write off v s = Inl e \<longrightarrow> e = Hw_Error)"
proof -
  have wf: "wf_vic s" and li: "vic_lines s" using vic_reach_wf[OF assms] by simp_all
  have "vic_irq s = (\<exists>n < 32. bit (vic_level s OR soft_level s) n \<and> bit (irq_enable s) n \<and>
           \<not> bit (fiq_select s) n \<and>
           (vic_priority s = 17 \<or> (\<exists>k < vic_priority s. bit (vector_bit (vect_control s ! k)) n)))"
    unfolding li[unfolded vic_lines_def, THEN conjunct1] word_nonzero_iff_bit
    by (simp add: pl190_irq_level_def bit_and_iff bit_not_iff prio_mask_bit[OF wf] cong: conj_cong)
  moreover have "vic_fiq s = (\<exists>n < 32. bit (vic_level s OR soft_level s) n \<and> bit (fiq_select s) n)"
    unfolding li[unfolded vic_lines_def, THEN conjunct2] word_nonzero_iff_bit
    by (simp add: bit_and_iff)
  ultimately show ?thesis using pl190_write_fault[OF wf] by blast
qed

text \<open>A controller with line 5 enabled, which then rises.\<close>

definition vic5 :: "pl190_state result" where
  "vic5 = rbind (rbind (pl190_reset pl190_init) (pl190_write 0x10 0x20)) (pl190_set_irq 5 True)"

lemma vic5_eq: "vic5 = Inr (pl190_init\<lparr>vic_level := 0x20, irq_enable := 0x20, vic_priority := 17,
   prio_mask := replicate 17 0 @ [0xffffffff], vic_irq := True\<rparr>)"
  by code_simp

lemma vic5_reach: "vic5 = Inr s \<Longrightarrow> vic_reach s"
  unfolding vic5_def rbind_eq_Inr_iff by (meson vic_start vic_line vic_write)

theorem pl190_lines_correct_witness:
  "\<exists>s. vic5 = Inr s \<and> vic_reach s \<and> vic_irq s \<and> \<not> vic_fiq s \<and> (pl190_write 0x300 1 s = Inl Hw_Error)"
  using pl190_lines_correct[OF vic5_reach[OF vic5_eq], where off = "0x300" and v = 1 and e = Hw_Error]
    vic5_reach[OF vic5_eq]
  unfolding vic5_eq by (simp add: pl190_write_def vic_write_reg_def pl190_init_def)

section \<open>Interrupt service\<close>

text \<open>Reading \<^verbatim>\<open>VECTADDR\<close> at the start of a handler and writing it at its end nest: the
  write restores the priority, the registers and both lines that held before the read.\<close>

theorem pl190_isr_nesting:
  assumes "vic_reach s" "pl190_read 0x30 s = Inr (a, s1)" "vic_priority s1 \<noteq> vic_priority s"
  shows "\<exists>ps. pl190_write 0x30 v s1 = Inr (s\<lparr>prev_prio := ps\<rparr>)"
proof -
  have wf: "wf_vic s" and li: "vic_lines s" using vic_reach_wf[OF assms(1)] by simp_all
  define i where "i = vect_search (vic_level s OR soft_level s) (prio_mask s) (vic_priority s)"
  define t where "t = s\<lparr>prev_prio := (prev_prio s)[i := vic_priority s], vic_priority := i\<rparr>"
  have "read_vectaddr s = Inr (a, s1)" using assms(2) by (simp add: pl190_read_def)
  then have i: "i < vic_priority s" and u: "pl190_update t = Inr s1"
    using assms(3) by (auto simp: read_vectaddr_eq[OF wf] i_def[symmetric] t_def[symmetric] rbind_eq_Inr_iff
        split: if_splits)
  have wt: "wf_vic t" unfolding t_def using wf_vic_enter[OF wf i] .
  obtain b c where s1: "s1 = t\<lparr>vic_irq := b, vic_fiq := c\<rparr>"
    using u[symmetric] by (simp add: pl190_update_eq[OF wt])
  have l: "i < 17" "length (prev_prio s) = 17" using wf i by (auto simp: wf_vic_def)
  define r where "r = s\<lparr>prev_prio := (prev_prio s)[i := vic_priority s], vic_irq := b, vic_fiq := c\<rparr>"
  have "vic_write_reg 12 v s1 = Inr r"
    unfolding s1 r_def using l by (simp add: vic_write_reg_def t_def PL190_NUM_PRIO_def)
  moreover have "wf_vic r"
    using wf wt i by (simp add: r_def t_def wf_vic_def)
  ultimately have "pl190_write 0x30 v s1 = Inr (s\<lparr>prev_prio := (prev_prio s)[i := vic_priority s]\<rparr>)"
    using li by (simp add: pl190_write_def pl190_update_eq)
      (simp add: r_def vic_lines_def pl190_irq_level_def)
  then show ?thesis ..
qed

text \<open>Vector 2 serves line 5 and line 5 is pending; its address is \<^verbatim>\<open>0xA0\<close>, that of vector 3 \<^verbatim>\<open>0xB0\<close>.\<close>

definition vic_vec2 :: "pl190_state result" where
  "vic_vec2 = rbind (rbind (rbind (rbind (rbind (pl190_reset pl190_init) (pl190_write 0x10 0x20))
     (pl190_write 0x208 0x25)) (pl190_write 0x108 0xA0)) (pl190_write 0x10c 0xB0)) (pl190_set_irq 5 True)"

definition vic_vec2_state :: pl190_state where
  "vic_vec2_state = pl190_init\<lparr>vic_level := 0x20, irq_enable := 0x20, vic_priority := 17,
     vect_control := (replicate 16 0)[2 := 0x25], vect_addr := (replicate 17 0)[2 := 0xA0, 3 := 0xB0],
     prio_mask := replicate 3 0 @ replicate 14 0x20 @ [0xffffffff], vic_irq := True\<rparr>"

lemma vic_vec2_eq: "vic_vec2 = Inr vic_vec2_state"
  by code_simp

lemma vic_vec2_reach: "vic_reach vic_vec2_state"
  using vic_vec2_eq unfolding vic_vec2_def rbind_eq_Inr_iff by (meson vic_start vic_line vic_write)

lemma vic_vec2_read: "pl190_read 0x30 vic_vec2_state =
    Inr (0xB0, vic_vec2_state\<lparr>prev_prio := (replicate 17 0)[3 := 17], vic_priority := 3\<rparr>)"
  by code_simp

theorem pl190_isr_nesting_witness:
  "\<exists>a s1 ps. pl190_read 0x30 vic_vec2_state = Inr (a, s1) \<and>
     pl190_write 0x30 0 s1 = Inr (vic_vec2_state\<lparr>prev_prio := ps\<rparr>)"
  using pl190_isr_nesting[OF vic_vec2_reach vic_vec2_read, of 0] vic_vec2_read
  by (simp add: vic_vec2_state_def)

lemma vect_search_first:
  assumes "k < n" "pend AND ms ! k \<noteq> 0" "\<And>j. j < k \<Longrightarrow> pend AND ms ! j = 0"
  shows "vect_search pend ms n = k"
proof -
  have "find (\<lambda>i. pend AND ms ! i \<noteq> 0) [0..<n] = Some k"
    using assms by (auto simp: find_Some_iff intro!: exI[of _ k])
  then show ?thesis by (simp add: vect_search_def)
qed

lemma prio_mask_Suc:
  assumes "wf_vic s" "k < 16"
  shows "prio_mask s ! Suc k = prio_mask s ! k OR vector_bit (vect_control s ! k)"
  using assms foldr_or_init[of "map vector_bit (take k (vect_control s))" "vector_bit (vect_control s ! k)"]
  by (simp add: wf_vic_def nth_append vector_masks_nth take_Suc_conv_app_nth)

lemma prio_mask_mono:
  assumes "wf_vic s" "j \<le> k" "k \<le> 16" "bit (prio_mask s ! j) n"
  shows "bit (prio_mask s ! k) n"
  using assms(2-) by (induction k rule: dec_induct) (auto simp: prio_mask_Suc[OF assms(1)] bit_or_iff)

text \<open>The vector search compares with the mask of the interrupts above a vector, which does not
  contain the vector itself. So with vector \<^verbatim>\<open>k\<close> the first one pending, the controller hands out the address
  of vector \<^verbatim>\<open>k + 1\<close>, and because it stops at that priority the interrupt being served keeps the IRQ
  line asserted.\<close>

theorem pl190_vector_off_by_one:
  assumes "vic_reach s" "vic_priority s = 17" "k < 16"
    and n: "vect_control s ! k AND 0x20 \<noteq> 0" "n = unat (vect_control s ! k AND 0x1f)"
    and pend: "bit (vic_level s OR soft_level s) n" "bit (irq_enable s) n" "\<not> bit (fiq_select s) n"
    and first: "\<forall>j < k. (vic_level s OR soft_level s) AND vector_bit (vect_control s ! j) = 0"
  shows "\<exists>s'. pl190_read 0x30 s = Inr (vect_addr s ! (k + 1), s') \<and> vic_priority s' = k + 1 \<and> vic_irq s'"
proof -
  have wf: "wf_vic s" using vic_reach_wf[OF assms(1)] by simp
  let ?p = "vic_level s OR soft_level s"
  have none: "?p AND prio_mask s ! j = 0" if "j \<le> k" for j
    using that
  proof (induction j)
    case 0
    then show ?case using wf by (simp add: wf_vic_def nth_append vector_masks_nth)
  next
    case (Suc j)
    then show ?case using first assms(3) by (simp add: prio_mask_Suc[OF wf] bit.conj_disj_distrib)
  qed
  have n32: "n < 32" using bit_imp_le_length[OF pend(2)] by simp
  have hit: "bit (prio_mask s ! Suc k) n"
    using n n32 assms(3) by (simp add: prio_mask_Suc[OF wf] bit_or_iff vector_bit_def bit_exp_iff)
  have "?p AND prio_mask s ! Suc k \<noteq> 0"
    unfolding word_nonzero_iff_bit using hit pend n32 by (auto simp: bit_and_iff)
  then have i: "vect_search ?p (prio_mask s) (vic_priority s) = Suc k"
    using none assms(2,3) by (intro vect_search_first) simp_all
  have line: "pl190_irq_level s AND prio_mask s ! Suc k \<noteq> 0"
    unfolding word_nonzero_iff_bit using hit pend n32
    by (auto simp: bit_and_iff pl190_irq_level_def bit_not_iff)
  define t where "t = s\<lparr>prev_prio := (prev_prio s)[Suc k := vic_priority s], vic_priority := Suc k\<rparr>"
  have t: "wf_vic t" unfolding t_def using wf_vic_enter[OF wf, of "Suc k"] assms(2,3) by simp
  have "pl190_irq_level t = pl190_irq_level s" "prio_mask t ! vic_priority t = prio_mask s ! Suc k"
    "vic_priority t = Suc k"
    by (simp_all add: t_def pl190_irq_level_def)
  moreover have "pl190_read 0x30 s = rbind (pl190_update t) (\<lambda>s'. Inr (vect_addr s ! Suc k, s'))"
    using assms(2,3) unfolding t_def by (simp add: pl190_read_def read_vectaddr_eq[OF wf] i[unfolded assms(2)])
  ultimately show ?thesis using line by (simp add: pl190_update_eq[OF t])
qed

theorem pl190_vector_off_by_one_witness:
  "\<exists>s'. pl190_read 0x30 vic_vec2_state = Inr (0xB0, s') \<and> vect_addr vic_vec2_state ! 2 = 0xA0 \<and> vic_irq s'"
proof -
  have "\<exists>s'. pl190_read 0x30 vic_vec2_state = Inr (vect_addr vic_vec2_state ! (2 + 1), s') \<and>
      vic_priority s' = 2 + 1 \<and> vic_irq s'"
    by (rule pl190_vector_off_by_one[OF vic_vec2_reach, where n = 5])
      (auto simp: vic_vec2_state_def pl190_init_def vector_bit_def less_2_cases_iff)
  then show ?thesis by (auto simp: vic_vec2_state_def)
qed

end
