(* ===== verification/PL031.thy ===== *)
theory PL031
  imports Vemu_Prelude "HOL-Library.Signed_Division"
begin

text \<open>
  The PL031 real-time clock (\<^verbatim>\<open>hw/pl031.c\<close>). The virtual clock is the argument \<open>now\<close>
  (nanoseconds, \<^verbatim>\<open>int64_t\<close>); the alarm timer is the time it is armed for, if any.
\<close>

record pl031_state =
  tick_offset :: u32
  rtc_mr :: u32
  rtc_lr :: u32
  rtc_cr :: u32
  rtc_im :: u32
  rtc_is :: u32
  rtc_timer :: "i64 option"
  rtc_irq :: bool

definition pl031_id :: "u8 list" where
  "pl031_id = [0x31, 0x10, 0x14, 0x00, 0x0d, 0xf0, 0x05, 0xb1]"

definition RTC_DR :: u32 where "RTC_DR = 0x00"
definition RTC_MR :: u32 where "RTC_MR = 0x04"
definition RTC_LR :: u32 where "RTC_LR = 0x08"
definition RTC_CR :: u32 where "RTC_CR = 0x0c"
definition RTC_IMSC :: u32 where "RTC_IMSC = 0x10"
definition RTC_RIS :: u32 where "RTC_RIS = 0x14"
definition RTC_MIS :: u32 where "RTC_MIS = 0x18"
definition RTC_ICR :: u32 where "RTC_ICR = 0x1c"

lemmas rtc_offsets = RTC_DR_def RTC_MR_def RTC_LR_def RTC_CR_def RTC_IMSC_def RTC_RIS_def
  RTC_MIS_def RTC_ICR_def

section \<open>Operations\<close>

definition pl031_update :: "pl031_state \<Rightarrow> pl031_state" where
  "pl031_update s = s\<lparr>rtc_irq := (rtc_is s AND rtc_im s \<noteq> 0)\<rparr>"

definition pl031_interrupt :: "pl031_state \<Rightarrow> pl031_state" where
  "pl031_interrupt s = pl031_update (s\<lparr>rtc_im := 1\<rparr>)"

text \<open>\<^verbatim>\<open>now / get_ticks_per_sec()\<close>, a signed division, added to a 32 bit offset.\<close>

definition pl031_get_count :: "i64 \<Rightarrow> pl031_state \<Rightarrow> u32" where
  "pl031_get_count now s = tick_offset s + word_of_int (sint now sdiv sint get_ticks_per_sec)"

definition pl031_set_alarm :: "i64 \<Rightarrow> pl031_state \<Rightarrow> pl031_state" where
  "pl031_set_alarm now s =
     (let ticks = tick_offset s + word_of_int (sint now sdiv sint get_ticks_per_sec);
          ticks = rtc_mr s - ticks
      in if ticks = 0 then pl031_interrupt (s\<lparr>rtc_timer := None\<rparr>)
         else s\<lparr>rtc_timer := Some (now + ucast ticks * get_ticks_per_sec)\<rparr>)"

definition pl031_read :: "i64 \<Rightarrow> u32 \<Rightarrow> pl031_state \<Rightarrow> u32 result" where
  "pl031_read now offset s =
     (if 0xfe0 \<le> offset \<and> offset < 0x1000 then
        rbind (aget pl031_id (unat (drop_bit 2 (offset - 0xfe0)))) (\<lambda>b. Inr (ucast b))
      else if offset = RTC_DR then Inr (pl031_get_count now s)
      else if offset = RTC_MR then Inr (rtc_mr s)
      else if offset = RTC_IMSC then Inr (rtc_im s)
      else if offset = RTC_RIS then Inr (rtc_is s)
      else if offset = RTC_LR then Inr (rtc_lr s)
      else if offset = RTC_CR then Inr 1
      else if offset = RTC_MIS then Inr (rtc_is s AND rtc_im s)
      else if offset = RTC_ICR then Inr 0
      else Inl Hw_Error)"

definition pl031_write :: "i64 \<Rightarrow> u32 \<Rightarrow> u32 \<Rightarrow> pl031_state \<Rightarrow> pl031_state result" where
  "pl031_write now offset val s =
     (if offset = RTC_LR then
        Inr (pl031_set_alarm now (s\<lparr>tick_offset := tick_offset s + (val - pl031_get_count now s)\<rparr>))
      else if offset = RTC_MR then Inr (pl031_set_alarm now (s\<lparr>rtc_mr := val\<rparr>))
      else if offset = RTC_IMSC then Inr (pl031_update (s\<lparr>rtc_im := val AND 1\<rparr>))
      else if offset = RTC_ICR then Inr (pl031_update (s\<lparr>rtc_is := 0\<rparr>))
      else if offset = RTC_CR then Inr s
      else if offset = RTC_DR \<or> offset = RTC_MIS \<or> offset = RTC_RIS then Inr s
      else Inl Hw_Error)"

text \<open>The start time comes from the host: \<open>start\<close> is \<^verbatim>\<open>mktimegm(&tm)\<close>.\<close>

definition pl031_init :: "u32 \<Rightarrow> pl031_state" where
  "pl031_init start = \<lparr>tick_offset = start, rtc_mr = 0, rtc_lr = 0, rtc_cr = 0, rtc_im = 0,
     rtc_is = 0, rtc_timer = None, rtc_irq = False\<rparr>"

text \<open>The alarm timer runs its call-back once the clock has reached the time it was armed for.\<close>

definition pl031_expire :: "i64 \<Rightarrow> pl031_state \<Rightarrow> pl031_state" where
  "pl031_expire now s =
     (case rtc_timer s of
        Some t \<Rightarrow> if sint t \<le> sint now then pl031_interrupt (s\<lparr>rtc_timer := None\<rparr>) else s
      | None \<Rightarrow> s)"

section \<open>The count and the alarm time\<close>

lemma sint_ticks_per_sec [simp]: "sint get_ticks_per_sec = 1000000000"
  by (simp add: get_ticks_per_sec_def)

lemma set_alarm_frame [simp]:
  "tick_offset (pl031_set_alarm now s) = tick_offset s"
  "rtc_mr (pl031_set_alarm now s) = rtc_mr s"
  "rtc_is (pl031_set_alarm now s) = rtc_is s"
  by (simp_all add: pl031_set_alarm_def pl031_interrupt_def pl031_update_def Let_def)

lemma get_count_cong: "tick_offset s = tick_offset t \<Longrightarrow> pl031_get_count now s = pl031_get_count now t"
  by (simp add: pl031_get_count_def)

lemma set_alarm_alt:
  "pl031_set_alarm now s =
     (if rtc_mr s = pl031_get_count now s then pl031_interrupt (s\<lparr>rtc_timer := None\<rparr>)
      else s\<lparr>rtc_timer := Some (now + ucast (rtc_mr s - pl031_get_count now s) * get_ticks_per_sec)\<rparr>)"
  by (simp add: pl031_set_alarm_def pl031_get_count_def Let_def)

text \<open>Whole seconds added to the clock are added to the count.\<close>

lemma get_count_add:
  assumes "0 \<le> sint now" "sint later = sint now + int n * 1000000000"
  shows "pl031_get_count later s = pl031_get_count now s + of_nat n"
proof -
  have "sint later sdiv 1000000000 = sint now sdiv 1000000000 + int n"
    using assms by (simp add: signed_divide_int_def sgn_if)
  then show ?thesis by (simp add: pl031_get_count_def add.assoc)
qed

lemma sint_add_seconds:
  fixes now :: i64
  assumes "0 \<le> sint now" "sint now + int (unat t) * 1000000000 < 2 ^ 63"
  shows "sint (now + ucast (t::u32) * get_ticks_per_sec) = sint now + int (unat t) * 1000000000"
proof -
  have "now + ucast t * get_ticks_per_sec = word_of_int (sint now + int (unat t) * 1000000000)"
    by (simp add: get_ticks_per_sec_def)
  moreover have "sint (word_of_int x :: i64) = x" if "0 \<le> x" "x < 2 ^ 63" for x
    using that by (simp add: sint_sbintrunc' signed_take_bit_int_eq_self)
  ultimately show ?thesis using assms by (simp only:)
qed

text \<open>Writing the load register sets the clock: the count reads back as written at the same
  instant, and \<open>n\<close> seconds later as the written value plus \<open>n\<close>.\<close>

theorem pl031_load_count:
  assumes "0 \<le> sint now" "sint later = sint now + int n * 1000000000"
  shows "\<exists>s'. pl031_write now RTC_LR v s = Inr s' \<and> pl031_read later RTC_DR s' = Inr (v + of_nat n)"
proof -
  define u where "u = s\<lparr>tick_offset := tick_offset s + (v - pl031_get_count now s)\<rparr>"
  have "pl031_get_count now u = v" by (simp add: u_def pl031_get_count_def)
  then have "pl031_get_count later (pl031_set_alarm now u) = v + of_nat n"
    using get_count_cong[of "pl031_set_alarm now u" u later] by (simp add: get_count_add[OF assms])
  then show ?thesis by (simp add: pl031_write_def pl031_read_def rtc_offsets u_def)
qed

theorem pl031_load_count_witness:
  "\<exists>s'. pl031_write 5 RTC_LR 100 (pl031_init 7) = Inr s' \<and> pl031_read 2000000005 RTC_DR s' = Inr 102"
  using pl031_load_count[of 5 2000000005 2 100 "pl031_init 7"] by simp



section \<open>The alarm interrupt\<close>

inductive rtc_reach :: "u32 \<Rightarrow> pl031_state \<Rightarrow> bool" for start where
  "rtc_reach start (pl031_init start)"
| "rtc_reach start s \<Longrightarrow> pl031_write now off v s = Inr s' \<Longrightarrow> rtc_reach start s'"
| "rtc_reach start s \<Longrightarrow> rtc_reach start (pl031_expire now s)"

lemma rtc_quiet: "rtc_reach start s \<Longrightarrow> rtc_is s = 0 \<and> \<not> rtc_irq s"
proof (induction rule: rtc_reach.induct)
  case 1
  then show ?case by (simp add: pl031_init_def)
next
  case (2 s now off v s')
  then show ?case
    by (auto simp: pl031_write_def set_alarm_alt pl031_interrupt_def pl031_update_def split: if_splits)
next
  case (3 s now)
  then show ?case
    by (auto simp: pl031_expire_def pl031_interrupt_def pl031_update_def split: option.splits)
qed

text \<open>The alarm handler sets the interrupt mask instead of the interrupt status, so the clock never
  raises its interrupt: in every reachable state, after any number of expired alarms, the line is low
  and the status registers read zero.\<close>

theorem pl031_alarm_never_rings:
  assumes "rtc_reach start s"
  shows "\<not> rtc_irq s \<and> pl031_read now RTC_RIS s = Inr 0 \<and> pl031_read now RTC_MIS s = Inr 0"
  using rtc_quiet[OF assms] by (simp add: pl031_read_def rtc_offsets)

text \<open>An alarm for the present second, with the interrupt enabled.\<close>

definition rtc_rung :: pl031_state where
  "rtc_rung = pl031_expire 9 (pl031_set_alarm 0 (pl031_init 3\<lparr>rtc_mr := 3\<rparr>))"

theorem pl031_alarm_never_rings_witness:
  "rtc_im rtc_rung = 1 \<and> rtc_mr rtc_rung = pl031_get_count 0 rtc_rung \<and> \<not> rtc_irq rtc_rung \<and>
   pl031_read 9 RTC_RIS rtc_rung = Inr 0"
proof -
  have "pl031_write 0 RTC_MR 3 (pl031_init 3) = Inr (pl031_set_alarm 0 (pl031_init 3\<lparr>rtc_mr := 3\<rparr>))"
    by (simp add: pl031_write_def rtc_offsets)
  then have "rtc_reach 3 rtc_rung" unfolding rtc_rung_def by (blast intro: rtc_reach.intros)
  from pl031_alarm_never_rings[OF this, of 9] show ?thesis
    by (simp add: rtc_rung_def pl031_expire_def pl031_set_alarm_def pl031_init_def pl031_interrupt_def
        pl031_update_def pl031_get_count_def)
qed

end
