(* ===== verification/VPB_SIC.thy ===== *)
theory VPB_SIC
  imports Vemu_Prelude
begin

text \<open>
  The secondary interrupt controller of the Versatile board (\<^verbatim>\<open>hw/versatilepb.c\<close>, the
  \<^verbatim>\<open>vpb_sic_*\<close> functions). \<^verbatim>\<open>parent\<close> holds the level last driven on each line to the
  primary controller.
\<close>

record vpb_sic_state =
  sic_level :: u32
  sic_mask :: u32
  pic_enable :: u32
  sic_parent :: "bool list"
  sic_irq :: nat

section \<open>Operations\<close>

definition vpb_sic_update :: "vpb_sic_state \<Rightarrow> vpb_sic_state result" where
  "vpb_sic_update s =
     rbind (aset (sic_parent s) (sic_irq s) (sic_level s AND sic_mask s \<noteq> 0)) (\<lambda>p.
     Inr (s\<lparr>sic_parent := p\<rparr>))"

text \<open>One round of the loop over the pass-through lines.\<close>

definition sic_pass :: "u32 \<Rightarrow> u32 \<Rightarrow> nat \<Rightarrow> bool list \<Rightarrow> bool list" where
  "sic_pass enable lvl i p =
     (if enable AND push_bit i 1 = 0 then p else p[i := (lvl AND push_bit i 1 \<noteq> 0)])"

definition sic_pass_lines :: "nat list" where
  "sic_pass_lines = [21..<31]"

definition vpb_sic_update_pic :: "vpb_sic_state \<Rightarrow> vpb_sic_state" where
  "vpb_sic_update_pic s =
     s\<lparr>sic_parent := fold (sic_pass (pic_enable s) (sic_level s)) sic_pass_lines (sic_parent s)\<rparr>"

definition vpb_sic_set_irq :: "nat \<Rightarrow> bool \<Rightarrow> vpb_sic_state \<Rightarrow> vpb_sic_state result" where
  "vpb_sic_set_irq irq level s =
     (let s = (if level then s\<lparr>sic_level := sic_level s OR push_bit irq 1\<rparr>
               else s\<lparr>sic_level := sic_level s AND NOT (push_bit irq 1)\<rparr>)
      in rbind (if pic_enable s AND push_bit irq 1 \<noteq> 0
                then rbind (aset (sic_parent s) irq level) (\<lambda>p. Inr (s\<lparr>sic_parent := p\<rparr>))
                else Inr s) vpb_sic_update)"

definition vpb_sic_read :: "u32 \<Rightarrow> vpb_sic_state \<Rightarrow> u32" where
  "vpb_sic_read offset s =
     (let r = drop_bit 2 offset in
      if r = 0 then sic_level s AND sic_mask s
      else if r = 1 then sic_level s
      else if r = 2 then sic_mask s
      else if r = 4 then sic_level s AND 1
      else if r = 8 then pic_enable s
      else 0)"

definition vpb_sic_write :: "u32 \<Rightarrow> u32 \<Rightarrow> vpb_sic_state \<Rightarrow> vpb_sic_state result" where
  "vpb_sic_write offset val s =
     (let r = drop_bit 2 offset in
      if r = 2 then vpb_sic_update (s\<lparr>sic_mask := sic_mask s OR val\<rparr>)
      else if r = 3 then vpb_sic_update (s\<lparr>sic_mask := sic_mask s AND NOT val\<rparr>)
      else if r = 4 then vpb_sic_update (if val \<noteq> 0 then s\<lparr>sic_mask := sic_mask s OR 1\<rparr> else s)
      else if r = 5 then vpb_sic_update (if val \<noteq> 0 then s\<lparr>sic_mask := sic_mask s AND NOT 1\<rparr> else s)
      else if r = 8 then
        vpb_sic_update (vpb_sic_update_pic (s\<lparr>pic_enable := pic_enable s OR (val AND 0x7fe00000)\<rparr>))
      else if r = 9 then
        vpb_sic_update (vpb_sic_update_pic (s\<lparr>pic_enable := pic_enable s AND NOT val\<rparr>))
      else Inr s)"

definition vpb_sic_init :: vpb_sic_state where
  "vpb_sic_init = \<lparr>sic_level = 0, sic_mask = 0, pic_enable = 0, sic_parent = replicate 32 False, sic_irq = 31\<rparr>"

section \<open>The lines to the primary controller\<close>

lemma sic_pass_alt:
  "i < 32 \<Longrightarrow> sic_pass en lv i p = (if bit en i then p[i := bit lv i] else p)"
  by (simp add: sic_pass_def and_exp_eq_0_iff_not_bit)

lemma length_pass_fold [simp]: "length (fold (sic_pass en lv) is p) = length p"
  by (induction "is" arbitrary: p) (simp_all add: sic_pass_def)

lemma pass_fold_nth:
  assumes "set is \<subseteq> {..<32}" "length p = 32" "j < 32"
  shows "fold (sic_pass en lv) is p ! j = (if j \<in> set is \<and> bit en j then bit lv j else p ! j)"
  using assms
proof (induction "is" arbitrary: p)
  case (Cons i "is")
  have "length (sic_pass en lv i p) = 32" using Cons.prems by (simp add: sic_pass_def)
  with Cons show ?case by (auto simp: sic_pass_alt nth_list_update)
qed simp

definition sic_inv :: "vpb_sic_state \<Rightarrow> bool" where
  "sic_inv s \<longleftrightarrow> length (sic_parent s) = 32 \<and> sic_irq s = 31 \<and> (\<forall>i<32. bit (pic_enable s) i \<longrightarrow> i \<in> {21..30}) \<and>
     (\<forall>i<31. bit (pic_enable s) i \<longrightarrow> sic_parent s ! i = bit (sic_level s) i)"

definition sic_line :: "vpb_sic_state \<Rightarrow> bool" where
  "sic_line s \<longleftrightarrow> sic_parent s ! 31 = (sic_level s AND sic_mask s \<noteq> 0)"

lemma sic_update_ok: "sic_inv s \<Longrightarrow> \<exists>s'. vpb_sic_update s = Inr s' \<and> sic_inv s' \<and> sic_line s' \<and>
    s' = s\<lparr>sic_parent := (sic_parent s)[31 := (sic_level s AND sic_mask s \<noteq> 0)]\<rparr>"
  by (auto simp: vpb_sic_update_def sic_inv_def sic_line_def nth_list_update)

lemma sic_update_ex: "sic_inv s \<Longrightarrow> \<exists>s'. vpb_sic_update s = Inr s' \<and> sic_inv s' \<and> sic_line s'"
  using sic_update_ok by blast

lemma picen_bits: "bit (0x7fe00000 :: u32) i \<longleftrightarrow> i \<in> {21..30}"
proof -
  have "(0x7fe00000 :: u32) = push_bit 21 (mask 10)" by (simp add: mask_eq_exp_minus_1)
  then have "bit (0x7fe00000 :: u32) i \<longleftrightarrow> bit (push_bit 21 (mask 10) :: u32) i" by simp
  also have "\<dots> \<longleftrightarrow> i \<in> {21..30}" by (auto simp only: bit_push_bit_iff bit_mask_iff) auto
  finally show ?thesis .
qed

lemma sic_inv_pic:
  assumes "length (sic_parent s) = 32" "sic_irq s = 31" "\<forall>i<32. bit (pic_enable s) i \<longrightarrow> i \<in> {21..30}"
  shows "sic_inv (vpb_sic_update_pic s)"
proof -
  have l: "set sic_pass_lines = {21..30}" unfolding sic_pass_lines_def set_upt by auto
  then have "set sic_pass_lines \<subseteq> {..<32}" by auto
  then show ?thesis using assms l by (auto simp: sic_inv_def vpb_sic_update_pic_def pass_fold_nth)
qed

lemma sic_write_ok:
  assumes "sic_inv s" "sic_line s"
  shows "\<exists>s'. vpb_sic_write off v s = Inr s' \<and> sic_inv s' \<and> sic_line s'"
proof -
  have l: "length (sic_parent s) = 32" "sic_irq s = 31" "\<forall>i<32. bit (pic_enable s) i \<longrightarrow> i \<in> {21..30}"
    using assms(1) by (simp_all add: sic_inv_def)
  have pb: "bit (v AND 0x7fe00000) i \<Longrightarrow> i \<in> {21..30}" for i by (simp only: bit_and_iff picen_bits)
  have m: "sic_inv (s\<lparr>sic_mask := k\<rparr>)" for k using assms(1) by (simp add: sic_inv_def)
  have "sic_inv (vpb_sic_update_pic (s\<lparr>pic_enable := pic_enable s OR (v AND 0x7fe00000)\<rparr>))"
    "sic_inv (vpb_sic_update_pic (s\<lparr>pic_enable := pic_enable s AND NOT v\<rparr>))"
    using l pb by (auto intro!: sic_inv_pic simp: bit_or_iff bit_and_iff[of _ "NOT v"] simp del: atLeastAtMost_iff)
  with m assms show ?thesis
    unfolding vpb_sic_write_def Let_def by (auto intro!: sic_update_ex)
qed

lemma sic_set_irq_ok:
  assumes "sic_inv s" "irq < 32"
  shows "\<exists>s'. vpb_sic_set_irq irq l s = Inr s' \<and> sic_inv s' \<and> sic_line s'"
proof -
  define t where "t = s\<lparr>sic_level := (if l then sic_level s OR push_bit irq 1 else sic_level s AND NOT (push_bit irq 1))\<rparr>"
  define u where "u = (if bit (pic_enable t) irq then t\<lparr>sic_parent := (sic_parent t)[irq := l]\<rparr> else t)"
  have lv: "bit (sic_level t) i = (if i = irq then l else bit (sic_level s) i)" if "i < 32" for i
    using that by (auto simp: t_def bit_or_iff bit_and_iff bit_not_iff bit_exp_iff)
  have f: "pic_enable t = pic_enable s" "sic_parent t = sic_parent s" "sic_irq t = sic_irq s"
    by (simp_all add: t_def)
  have "sic_inv u"
    using assms by (auto simp: sic_inv_def u_def f lv nth_list_update)
  moreover have "vpb_sic_set_irq irq l s = vpb_sic_update u"
    using assms by (simp add: vpb_sic_set_irq_def Let_def u_def t_def sic_inv_def and_exp_eq_0_iff_not_bit)
  ultimately show ?thesis using sic_update_ex by simp
qed

inductive sic_reach :: "vpb_sic_state \<Rightarrow> bool" where
  "sic_reach vpb_sic_init"
| "sic_reach s \<Longrightarrow> irq < 32 \<Longrightarrow> vpb_sic_set_irq irq l s = Inr s' \<Longrightarrow> sic_reach s'"
| "sic_reach s \<Longrightarrow> vpb_sic_write off v s = Inr s' \<Longrightarrow> sic_reach s'"

lemma sic_reach_inv: "sic_reach s \<Longrightarrow> sic_inv s \<and> sic_line s"
proof (induction rule: sic_reach.induct)
  case 1
  show ?case by (simp add: vpb_sic_init_def sic_inv_def sic_line_def)
next
  case (2 s irq l s')
  then show ?case using sic_set_irq_ok[of s irq l] by auto
next
  case (3 s off v s')
  then show ?case using sic_write_ok[of s off v] by auto
qed

section \<open>Properties\<close>

text \<open>In every reachable state the line to the primary controller shows whether an enabled interrupt is
  pending, every enabled pass-through line shows its input, and no register write or input change faults.\<close>

theorem sic_lines_follow:
  assumes "sic_reach s"
  shows "sic_parent s ! 31 = (sic_level s AND sic_mask s \<noteq> 0) \<and>
    (\<forall>i<31. bit (pic_enable s) i \<longrightarrow> sic_parent s ! i = bit (sic_level s) i) \<and>
    (\<exists>s'. vpb_sic_write off v s = Inr s') \<and> (irq < 32 \<longrightarrow> (\<exists>s'. vpb_sic_set_irq irq l s = Inr s'))"
proof -
  have i: "sic_inv s" "sic_line s" using sic_reach_inv[OF assms] by simp_all
  then show ?thesis using sic_write_ok[OF i, of off v] sic_set_irq_ok[OF i(1), of irq l]
    unfolding sic_inv_def sic_line_def by blast
qed

text \<open>Line 22 is passed through and rises.\<close>

definition sic22 :: vpb_sic_state where
  "sic22 = \<lparr>sic_level = 0x400000, sic_mask = 0, pic_enable = 0x400000,
     sic_parent = (replicate 32 False)[22 := True], sic_irq = 31\<rparr>"

lemma sic22_reach: "sic_reach sic22"
proof -
  have "vpb_sic_write 0x20 0x400000 vpb_sic_init = Inr (vpb_sic_init\<lparr>pic_enable := 0x400000\<rparr>)" by code_simp
  then have "sic_reach (vpb_sic_init\<lparr>pic_enable := 0x400000\<rparr>)" by (blast intro: sic_reach.intros)
  moreover have "vpb_sic_set_irq 22 True (vpb_sic_init\<lparr>pic_enable := 0x400000\<rparr>) = Inr sic22" by code_simp
  ultimately show ?thesis using sic_reach.intros(2)[of _ 22 True sic22] by simp
qed

theorem sic_lines_follow_witness:
  "bit (pic_enable sic22) 22 \<and> sic_parent sic22 ! 22 = bit (sic_level sic22) 22 \<and> \<not> sic_parent sic22 ! 31"
  using sic_lines_follow[OF sic22_reach, of 0 0 0 True] by (simp add: sic22_def)

text \<open>A pass-through line that is disabled while it is high stays high: after \<^verbatim>\<open>PICENCLR\<close> the controller
  no longer drives it, also when its input falls.\<close>

theorem sic_passthrough_stuck:
  assumes "sic_reach s" "21 \<le> i" "i \<le> 30" "sic_parent s ! i" "bit v i"
  shows "\<exists>s1 s2. vpb_sic_write 0x24 v s = Inr s1 \<and> vpb_sic_set_irq i False s1 = Inr s2 \<and>
    \<not> bit (sic_level s2) i \<and> sic_parent s2 ! i"
proof -
  have i: "sic_inv s" "sic_line s" using sic_reach_inv[OF assms(1)] by simp_all
  define t where "t = vpb_sic_update_pic (s\<lparr>pic_enable := pic_enable s AND NOT v\<rparr>)"
  have l: "length (sic_parent s) = 32" "sic_irq s = 31" using i by (simp_all add: sic_inv_def)
  have "set sic_pass_lines \<subseteq> {..<32}" by (auto simp: sic_pass_lines_def)
  then have t: "sic_parent t ! i" "\<not> bit (pic_enable t) i" "length (sic_parent t) = 32" "sic_irq t = 31"
    using assms l by (simp_all add: t_def vpb_sic_update_pic_def pass_fold_nth bit_and_iff bit_not_iff)
  have w: "vpb_sic_write 0x24 v s = vpb_sic_update t" by (simp add: vpb_sic_write_def t_def)
  define s1 where "s1 = t\<lparr>sic_parent := (sic_parent t)[31 := (sic_level t AND sic_mask t \<noteq> 0)]\<rparr>"
  have s1: "vpb_sic_update t = Inr s1" using t by (simp add: vpb_sic_update_def s1_def)
  have p: "pic_enable s1 AND push_bit i 1 = 0" "sic_parent s1 ! i" "length (sic_parent s1) = 32" "sic_irq s1 = 31"
    using t assms by (simp_all add: s1_def and_exp_eq_0_iff_not_bit)
  obtain s2 where "vpb_sic_set_irq i False s1 = Inr s2" "sic_level s2 = sic_level s1 AND NOT (push_bit i 1)"
    "sic_parent s2 = (sic_parent s1)[31 := (sic_level s2 AND sic_mask s2 \<noteq> 0)]"
    using p by (auto simp: vpb_sic_set_irq_def vpb_sic_update_def)
  then show ?thesis
    using w s1 p assms by (auto simp: bit_and_iff bit_not_iff bit_exp_iff)
qed

theorem sic_passthrough_stuck_witness:
  "\<exists>s1 s2. vpb_sic_write 0x24 0x400000 sic22 = Inr s1 \<and> vpb_sic_set_irq 22 False s1 = Inr s2 \<and>
    \<not> bit (sic_level s2) 22 \<and> sic_parent s2 ! 22"
  by (rule sic_passthrough_stuck[OF sic22_reach]) (simp_all add: sic22_def)

text \<open>The software interrupt registers change the enable mask instead of the level, so no register write
  ever changes the raw status.\<close>

lemma sic_softint_lost:
  assumes "vpb_sic_write off v s = Inr s'"
  shows "vpb_sic_read 4 s' = vpb_sic_read 4 s \<and> vpb_sic_read 0x10 s' = vpb_sic_read 0x10 s"
  using assms by (auto simp: vpb_sic_write_def vpb_sic_read_def Let_def vpb_sic_update_def vpb_sic_update_pic_def
      rbind_eq_Inr_iff split: if_splits)

end
