(* ===== verification/Ptimer.thy ===== *)
theory Ptimer
  imports Vemu_Interfaces
begin

text \<open>
  The periodic count-down timer that device models share (\<^verbatim>\<open>hw/ptimer.c\<close>). The bottom half is
  absent or carries its scheduled flag; the \<^verbatim>\<open>QEMUTimer\<close> is the time it is armed for. The virtual
  clock is the argument \<open>now\<close>. A division by zero is \<^const>\<open>Undefined\<close>.
\<close>

record ptimer_state =
  pt_enabled :: u8
  pt_limit :: u64
  pt_delta :: u64
  pt_period_frac :: u32
  pt_period :: i64
  pt_last_event :: i64
  pt_next_event :: i64
  pt_bh :: "bool option"
  pt_timer :: "i64 option"

section \<open>Operations\<close>

definition ptimer_trigger :: "ptimer_state \<Rightarrow> ptimer_state" where
  "ptimer_trigger s = s\<lparr>pt_bh := map_option (\<lambda>_. True) (pt_bh s)\<rparr>"

definition ptimer_reload :: "ptimer_state \<Rightarrow> ptimer_state" where
  "ptimer_reload s =
     (let s = (if pt_delta s = 0 then (ptimer_trigger s)\<lparr>pt_delta := pt_limit s\<rparr> else s) in
      if pt_delta s = 0 \<or> pt_period s = 0 then s\<lparr>pt_enabled := 0\<rparr>
      else
        let last = pt_next_event s;
            nxt = last + pt_delta s * pt_period s;
            nxt = (if pt_period_frac s \<noteq> 0 then nxt + drop_bit 32 (ucast (pt_period_frac s) * pt_delta s) else nxt)
        in s\<lparr>pt_last_event := last, pt_next_event := nxt, pt_timer := Some nxt\<rparr>)"

definition ptimer_tick :: "ptimer_state \<Rightarrow> ptimer_state" where
  "ptimer_tick s =
     (let s = (ptimer_trigger s)\<lparr>pt_delta := 0\<rparr> in
      if pt_enabled s = 2 then s\<lparr>pt_enabled := 0\<rparr> else ptimer_reload s)"

definition clz64 :: "u64 \<Rightarrow> nat" where
  "clz64 w = length (takeWhile (\<lambda>i. \<not> bit w i) (rev [0..<64]))"

text \<open>The 64 bit division by the period in 64.32 fixed point.\<close>

definition scaled_period :: "nat \<Rightarrow> i64 \<Rightarrow> u32 \<Rightarrow> u64" where
  "scaled_period shift period frac =
     (let dv = push_bit shift period in
      if 32 \<le> shift then dv OR push_bit (shift - 32) (ucast frac)
      else
        let dv = (if shift \<noteq> 0 then dv OR ucast (drop_bit (32 - shift) frac) else dv)
        in if push_bit shift frac \<noteq> 0 then dv + 1 else dv)"

definition fixed_point_div :: "u64 \<Rightarrow> i64 \<Rightarrow> u32 \<Rightarrow> u64 result" where
  "fixed_point_div rm period frac =
     (let shift = min (clz64 rm) (clz64 period);
          dv = scaled_period shift period frac
      in if dv = 0 then Inl Undefined else Inr (push_bit shift rm div dv))"

definition ptimer_get_count :: "i64 \<Rightarrow> ptimer_state \<Rightarrow> u64 result" where
  "ptimer_get_count now s =
     (if pt_enabled s \<noteq> 0 then
        if 0 < sint (now - pt_next_event s) \<or> pt_period s = 0 then Inr 0
        else fixed_point_div (pt_next_event s - now) (pt_period s) (pt_period_frac s)
      else Inr (pt_delta s))"

definition ptimer_set_count :: "i64 \<Rightarrow> u64 \<Rightarrow> ptimer_state \<Rightarrow> ptimer_state" where
  "ptimer_set_count now count s =
     (let s = s\<lparr>pt_delta := count\<rparr> in
      if pt_enabled s \<noteq> 0 then ptimer_reload (s\<lparr>pt_next_event := now\<rparr>) else s)"

definition ptimer_run :: "i64 \<Rightarrow> bool \<Rightarrow> ptimer_state \<Rightarrow> ptimer_state" where
  "ptimer_run now oneshot s =
     (if pt_enabled s \<noteq> 0 then s
      else if pt_period s = 0 then s
      else ptimer_reload (s\<lparr>pt_enabled := (if oneshot then 2 else 1), pt_next_event := now\<rparr>))"

definition ptimer_stop :: "i64 \<Rightarrow> ptimer_state \<Rightarrow> ptimer_state result" where
  "ptimer_stop now s =
     (if pt_enabled s = 0 then Inr s
      else rbind (ptimer_get_count now s) (\<lambda>c. Inr (s\<lparr>pt_delta := c, pt_timer := None, pt_enabled := 0\<rparr>)))"

definition ptimer_set_period :: "i64 \<Rightarrow> i64 \<Rightarrow> ptimer_state \<Rightarrow> ptimer_state" where
  "ptimer_set_period now period s =
     (let s = s\<lparr>pt_period := period, pt_period_frac := 0\<rparr> in
      if pt_enabled s \<noteq> 0 then ptimer_reload (s\<lparr>pt_next_event := now\<rparr>) else s)"

definition ptimer_set_freq :: "i64 \<Rightarrow> u32 \<Rightarrow> ptimer_state \<Rightarrow> ptimer_state result" where
  "ptimer_set_freq now freq s =
     (if freq = 0 then Inl Undefined
      else
        let s = s\<lparr>pt_period := 1000000000 div ucast freq,
                   pt_period_frac := ucast (push_bit 32 1000000000 div (ucast freq :: u64))\<rparr>
        in Inr (if pt_enabled s \<noteq> 0 then ptimer_reload (s\<lparr>pt_next_event := now\<rparr>) else s))"

definition ptimer_set_limit :: "i64 \<Rightarrow> u64 \<Rightarrow> bool \<Rightarrow> ptimer_state \<Rightarrow> ptimer_state" where
  "ptimer_set_limit now limit reload s =
     (let s = s\<lparr>pt_limit := limit\<rparr>;
          s = (if reload then s\<lparr>pt_delta := limit\<rparr> else s)
      in if pt_enabled s \<noteq> 0 \<and> reload then ptimer_reload (s\<lparr>pt_next_event := now\<rparr>) else s)"

definition ptimer_init :: "bool option \<Rightarrow> ptimer_state" where
  "ptimer_init bh = \<lparr>pt_enabled = 0, pt_limit = 0, pt_delta = 0, pt_period_frac = 0, pt_period = 0,
     pt_last_event = 0, pt_next_event = 0, pt_bh = bh, pt_timer = None\<rparr>"

section \<open>Leading zeros\<close>

lemma takeWhile_rev_upt:
  "length (takeWhile (\<lambda>i. \<not> P i) (rev [0..<n])) = (if \<exists>i<n. P i then n - Suc (Max {i. i < n \<and> P i}) else n)"
proof (induction n)
  case (Suc n)
  show ?case
  proof (cases "P n")
    case True
    then have "Max {i. i < Suc n \<and> P i} = n" by (intro Max_eqI) auto
    with True show ?thesis by auto
  next
    case False
    then have "{i. i < Suc n \<and> P i} = {i. i < n \<and> P i}" by (auto simp: less_Suc_eq)
    moreover have "(\<exists>i<Suc n. P i) = (\<exists>i<n. P i)" using False by (auto simp: less_Suc_eq)
    moreover have "Max {i. i < n \<and> P i} < n" if "\<exists>i<n. P i" using that by (subst Max_less_iff) auto
    ultimately show ?thesis using Suc False by (auto simp: Suc_diff_Suc)
  qed
qed simp

lemma unat_less_exp_clz: "unat w < 2 ^ (64 - clz64 w)"
proof -
  have "\<not> bit w i" if "64 - clz64 w \<le> i" "i < 64" for i
  proof
    assume b: "bit w i"
    let ?S = "{i. i < 64 \<and> bit w i}"
    have "finite ?S" "i \<in> ?S" using b that by auto
    then have "i \<le> Max ?S" by (rule Max_ge)
    moreover have "clz64 w = 64 - Suc (Max ?S)" using b that by (auto simp: clz64_def takeWhile_rev_upt)
    moreover have "Max ?S < 64" using \<open>finite ?S\<close> \<open>i \<in> ?S\<close> by (subst Max_less_iff) auto
    ultimately show False using that by simp
  qed
  then have "take_bit (64 - clz64 w) w = w"
    by (intro bit_word_eqI) (auto simp: bit_take_bit_iff not_le[symmetric])
  then show ?thesis
    by (metis unsigned_take_bit_eq take_bit_nat_less_exp)
qed

lemma clz64_le: "clz64 w \<le> 64"
  using length_takeWhile_le[of _ "rev [0..<64]"] by (simp add: clz64_def)

lemma clz64_less: "w \<noteq> 0 \<Longrightarrow> clz64 w < 64"
proof -
  assume "w \<noteq> 0"
  then have "\<exists>i<64. bit w i" using bit_imp_le_length by (fastforce simp: bit_eq_iff)
  then show ?thesis by (auto simp: clz64_def takeWhile_rev_upt)
qed

lemma pow_split: "j \<le> k \<Longrightarrow> (2::nat) ^ k = 2 ^ j * 2 ^ (k - j)"
  by (simp flip: power_add)

text \<open>Shifting by no more than the leading zeros loses nothing.\<close>

lemma unat_push_bit_clz:
  assumes "k \<le> clz64 w"
  shows "unat (push_bit k w) = unat w * 2 ^ k"
proof -
  have "unat w * 2 ^ k < 2 ^ (64 - clz64 w) * 2 ^ k" using unat_less_exp_clz[of w] by simp
  also have "\<dots> \<le> 2 ^ 64"
    using assms clz64_le[of w] power_increasing[of "64 - clz64 w + k" 64 "2::nat"] by (simp flip: power_add)
  finally show ?thesis
    by (simp add: unsigned_push_bit_eq take_bit_nat_eq_self push_bit_eq_mult[of k "unat w"])
qed

section \<open>The fixed-point division\<close>

lemma unat_or_disjoint:
  fixes a b :: u64
  assumes "\<And>n. bit a n \<Longrightarrow> k \<le> n" "\<And>n. bit b n \<Longrightarrow> n < k" "unat a + unat b < 2 ^ 64"
  shows "unat (a OR b) = unat a + unat b"
proof -
  have "a + b = a OR b" using assms(1,2) by (intro disjunctive_add) fastforce
  then show ?thesis using assms(3) unat_add_lem[of a b] by simp
qed

lemma unat32_less: "unat (w::u32) < 2 ^ 32"
  using unsigned_less[of w, where ?'a = nat] by simp

lemma unat_ucast_64: "unat (ucast (w::u32) :: u64) = unat w"
proof -
  have "unat w < 2 ^ 64" using unat32_less[of w] by simp
  then show ?thesis by (simp add: unsigned_ucast_eq take_bit_nat_eq_self)
qed

lemma scaled_period_high:
  assumes "32 \<le> k" "k \<le> clz64 p" "k < 64"
  shows "unat (scaled_period k p f) = unat p * 2 ^ k + unat f * 2 ^ (k - 32)"
proof -
  let ?f = "push_bit (k - 32) (ucast f) :: u64"
  have lt: "unat f * 2 ^ (k - 32) < 2 ^ k"
    unfolding pow_split[OF assms(1)] using unat32_less[of f] by simp
  also have "(2::nat) ^ k \<le> 2 ^ 64" using assms(3) by (intro power_increasing) simp_all
  finally have f: "unat ?f = unat f * 2 ^ (k - 32)"
    by (simp add: unsigned_push_bit_eq take_bit_nat_eq_self push_bit_eq_mult[of _ "unat f"] unat_ucast_64)
  have p: "unat (push_bit k p) = unat p * 2 ^ k" using assms(2) by (rule unat_push_bit_clz)
  have "unat p * 2 ^ k + 2 ^ k \<le> 2 ^ 64"
  proof -
    have "Suc (unat p) * 2 ^ k \<le> 2 ^ (64 - clz64 p) * 2 ^ k" using unat_less_exp_clz[of p] by (intro mult_right_mono) auto
    also have "\<dots> \<le> 2 ^ 64"
      using assms(2) clz64_le[of p] power_increasing[of "64 - clz64 p + k" 64 "2::nat"] by (simp flip: power_add)
    finally show ?thesis by simp
  qed
  then have "unat (push_bit k p) + unat ?f < 2 ^ 64" using p f lt by linarith
  moreover have "n < k" if "bit ?f n" for n
    using that assms(1) bit_imp_le_length[of f "n - (k - 32)"] by (auto simp: bit_simps)
  ultimately have "unat (push_bit k p OR ?f) = unat (push_bit k p) + unat ?f"
    by (intro unat_or_disjoint[where k = k]) (auto simp: bit_simps)
  then show ?thesis using assms(1) by (simp add: scaled_period_def p f)
qed

lemma scaled_period_low:
  assumes "k < 32" "k \<le> clz64 p" "unat p < 2 ^ 32"
  shows "unat (scaled_period k p f) =
    unat p * 2 ^ k + unat f div 2 ^ (32 - k) + (if unat f * 2 ^ k mod 2 ^ 32 = 0 then 0 else 1)"
proof -
  let ?f = "ucast (drop_bit (32 - k) f) :: u64"
  have f: "unat ?f = unat f div 2 ^ (32 - k)"
  proof -
    have "unat f div 2 ^ (32 - k) < 2 ^ 64" 
      by (rule le_less_trans[OF div_le_dividend]) (use unat32_less[of f] in simp)
    then show ?thesis using unat32_less[of f] by (simp add: unat_ucast_64 unsigned_drop_bit_eq drop_bit_eq_div[of _ "unat f"] take_bit_nat_eq_self)
  qed
  have "(2::nat) ^ 32 = 2 ^ k * 2 ^ (32 - k)" using assms(1) by (intro pow_split) simp
  then have lt: "unat f div 2 ^ (32 - k) < 2 ^ k" using unat32_less[of f] by (simp add: less_mult_imp_div_less)
  have p: "unat (push_bit k p) = unat p * 2 ^ k" using assms(2) by (rule unat_push_bit_clz)
  have k: "(2::nat) ^ k \<le> 2 ^ 31" using assms(1) by (intro power_increasing) simp_all
  have "unat p * 2 ^ k + 2 ^ k \<le> 2 ^ 32 * 2 ^ k"
    using mult_right_mono[of "Suc (unat p)" "2 ^ 32" "2 ^ k"] assms(3) by simp
  also have "\<dots> \<le> 2 ^ 32 * 2 ^ 31" using k by simp
  finally have b: "unat p * 2 ^ k + 2 ^ k < 2 ^ 64 - 1" by simp
  have z: "(push_bit k f = 0) = (unat f * 2 ^ k mod 2 ^ 32 = 0)"
    by (simp add: unat_eq_zero[symmetric] unsigned_push_bit_eq push_bit_eq_mult[of k "unat f"] take_bit_eq_mod
        del: unat_eq_zero)
  have d: "unat (if k \<noteq> 0 then push_bit k p OR ?f else push_bit k p) = unat p * 2 ^ k + unat f div 2 ^ (32 - k)"
  proof (cases "k = 0")
    case True
    then show ?thesis using unat32_less[of f] by simp
  next
    case False
    have "unat (push_bit k p OR ?f) = unat (push_bit k p) + unat ?f"
    proof (rule unat_or_disjoint[where k = k])
      show "n < k" if "bit ?f n" for n
        using that assms(1) bit_imp_le_length[of f "32 - k + n"] by (auto simp: bit_simps)
      show "unat (push_bit k p) + unat ?f < 2 ^ 64" using p f lt b by linarith
    qed (simp add: bit_simps)
    then show ?thesis using False p f by simp
  qed
  have "unat (w + 1) = unat w + 1" if "unat w < 2 ^ 64 - 1" for w :: u64
    using that unat_add_lem[of w 1] by simp
  then show ?thesis
    using d z b lt assms(1) by (simp add: scaled_period_def Let_def)
qed

text \<open>Both cases: the scaled divisor is the exact period, scaled and rounded up.\<close>

lemma scaled_period_bound:
  assumes "k \<le> clz64 p" "p \<noteq> 0" "unat p < 2 ^ 32"
  shows "(unat p * 2 ^ 32 + unat f) * 2 ^ k \<le> unat (scaled_period k p f) * 2 ^ 32"
proof (cases "32 \<le> k")
  case True
  have "k < 64" using assms(1) clz64_less[OF assms(2)] by simp
  have "(2::nat) ^ k = 2 ^ 32 * 2 ^ (k - 32)" by (rule pow_split[OF True])
  then show ?thesis
    using scaled_period_high[OF True assms(1) \<open>k < 64\<close>, of f] by (simp add: algebra_simps)
next
  case False
  let ?g = "2 ^ (32 - k) :: nat"
  have e: "(2::nat) ^ 32 = 2 ^ k * ?g" using False by (intro pow_split) simp
  have "unat f * 2 ^ k \<le> (unat f div ?g + (if unat f * 2 ^ k mod 2 ^ 32 = 0 then 0 else 1)) * 2 ^ 32"
  proof -
    have q: "unat f div ?g = unat f * 2 ^ k div 2 ^ 32" unfolding e by (simp add: mult.commute)
    have "unat f * 2 ^ k = unat f * 2 ^ k div 2 ^ 32 * 2 ^ 32 + unat f * 2 ^ k mod 2 ^ 32" by simp
    moreover have "unat f * 2 ^ k mod 2 ^ 32 < 2 ^ 32" by simp
    ultimately show ?thesis unfolding q by (auto simp: algebra_simps)
  qed
  then show ?thesis
    using scaled_period_low[of k p f] False assms by (simp add: algebra_simps)
qed

lemma scaled_period_exact:
  assumes "k \<le> clz64 p" "p \<noteq> 0" "unat p < 2 ^ 32"
  shows "unat (scaled_period k p 0) = unat p * 2 ^ k"
  using assms clz64_less[OF assms(2)] scaled_period_high[of k p 0] scaled_period_low[of k p 0]
  by (cases "32 \<le> k") simp_all

lemma scale_bound:
  fixes c d r q a b :: nat
  assumes "c * d \<le> r * q" "a * q \<le> d * b" "0 < q"
  shows "c * a \<le> r * b"
proof -
  have "c * a * q \<le> c * d * b" using assms(2) by (simp add: mult.assoc mult_le_mono2)
  also have "\<dots> \<le> r * q * b" using assms(1) by (rule mult_le_mono1)
  finally show ?thesis using assms(3) by (simp add: ac_simps)
qed

lemma fixed_point_div_ok:
  assumes "p \<noteq> 0" "unat p < 2 ^ 32"
  shows "\<exists>c. fixed_point_div r p f = Inr c \<and> unat c * (unat p * 2 ^ 32 + unat f) \<le> unat r * 2 ^ 32"
proof -
  define k where "k = min (clz64 r) (clz64 p)"
  define d where "d = scaled_period k p f"
  define c where "c = push_bit k r div d"
  have k: "k \<le> clz64 p" "k \<le> clz64 r" by (simp_all add: k_def)
  have b: "(unat p * 2 ^ 32 + unat f) * 2 ^ k \<le> unat d * 2 ^ 32"
    unfolding d_def by (rule scaled_period_bound[OF k(1) assms])
  have "0 < unat p" using assms(1) by (simp add: unat_gt_0)
  then have "0 < (unat p * 2 ^ 32 + unat f) * 2 ^ k" by simp
  then have "0 < unat d * 2 ^ 32" using b by linarith
  then have "d \<noteq> 0" by auto
  then have "fixed_point_div r p f = Inr c"
    by (simp add: fixed_point_div_def Let_def c_def k_def[symmetric] d_def[symmetric])
  moreover have "unat c * unat d \<le> unat r * 2 ^ k"
    using unat_push_bit_clz[OF k(2)] div_times_less_eq_dividend[of "unat (push_bit k r)" "unat d"]
    by (simp add: c_def unat_div)
  then have "unat c * (unat p * 2 ^ 32 + unat f) \<le> unat r * 2 ^ 32"
    using b by (rule scale_bound) simp
  ultimately show ?thesis by blast
qed

lemma fixed_point_div_exact:
  assumes "p \<noteq> 0" "unat p < 2 ^ 32"
  shows "fixed_point_div r p 0 = Inr (r div p)"
proof -
  define k where "k = min (clz64 r) (clz64 p)"
  have k: "k \<le> clz64 p" "k \<le> clz64 r" by (simp_all add: k_def)
  have d: "unat (scaled_period k p 0) = unat p * 2 ^ k" by (rule scaled_period_exact[OF k(1) assms])
  have "0 < unat p" using assms(1) by (simp add: unat_gt_0)
  then have "scaled_period k p 0 \<noteq> 0" using d by auto
  moreover have "push_bit k r div scaled_period k p 0 = r div p"
    by (simp add: word_unat_eq_iff unat_div d unat_push_bit_clz[OF k(2)])
  ultimately show ?thesis by (simp add: fixed_point_div_def Let_def k_def[symmetric])
qed

section \<open>The contract of a count-down timer\<close>

text \<open>What a device relies on: stopping keeps the count, and setting the limit of a stopped timer sets the
  count if asked to and leaves it otherwise.\<close>

locale countdown =
  fixes count :: "i64 \<Rightarrow> 's \<Rightarrow> u64 result"
    and stop :: "i64 \<Rightarrow> 's \<Rightarrow> 's result"
    and set_limit :: "i64 \<Rightarrow> u64 \<Rightarrow> bool \<Rightarrow> 's \<Rightarrow> 's"
    and running :: "'s \<Rightarrow> bool"
    and ok :: "'s \<Rightarrow> bool"
  assumes stop_keeps: "ok s \<Longrightarrow> \<exists>s' c. stop now s = Inr s' \<and> count now s = Inr c \<and>
      count later s' = Inr c \<and> \<not> running s' \<and> ok s'"
    and limit_stopped: "ok s \<Longrightarrow> \<not> running s \<Longrightarrow>
      \<not> running (set_limit now l r s) \<and> ok (set_limit now l r s) \<and>
      count later (set_limit now l r s) = (if r then Inr l else count later s)"
begin

text \<open>Pausing and reloading a timer never faults; the new count is the limit or the count at the pause.\<close>

lemma pause_reload:
  assumes "ok s"
  shows "\<exists>s' c. stop now s = Inr s' \<and> count now s = Inr c \<and>
    count later (set_limit now' l r s') = Inr (if r then l else c) \<and>
    \<not> running (set_limit now' l r s') \<and> ok (set_limit now' l r s')"
proof -
  obtain s' c where s': "stop now s = Inr s'" "count now s = Inr c" "count later s' = Inr c" "\<not> running s'" "ok s'"
    using stop_keeps[OF assms] by blast
  then show ?thesis using limit_stopped[OF s'(5,4), of now' l r later] by auto
qed

end

definition pt_running :: "ptimer_state \<Rightarrow> bool" where
  "pt_running s \<longleftrightarrow> pt_enabled s \<noteq> 0"

text \<open>A running timer has a period that fits 32 bits, which every frequency gives.\<close>

definition pt_ok :: "ptimer_state \<Rightarrow> bool" where
  "pt_ok s \<longleftrightarrow> (pt_running s \<longrightarrow> pt_period s \<noteq> 0 \<and> unat (pt_period s) < 2 ^ 32)"

lemma get_count_total: "pt_ok s \<Longrightarrow> \<exists>c. ptimer_get_count now s = Inr c"
  using fixed_point_div_ok[of "pt_period s" "pt_next_event s - now" "pt_period_frac s"]
  by (auto simp: ptimer_get_count_def pt_ok_def pt_running_def)

lemma get_count_stopped [simp]: "\<not> pt_running s \<Longrightarrow> ptimer_get_count now s = Inr (pt_delta s)"
  by (simp add: pt_running_def ptimer_get_count_def)

interpretation pt: countdown ptimer_get_count ptimer_stop ptimer_set_limit pt_running pt_ok
proof
  fix s now later assume "pt_ok s"
  from get_count_total[OF this] obtain c where "ptimer_get_count now s = Inr c" by blast
  then show "\<exists>s' c. ptimer_stop now s = Inr s' \<and> ptimer_get_count now s = Inr c \<and>
      ptimer_get_count later s' = Inr c \<and> \<not> pt_running s' \<and> pt_ok s'"
    by (cases "pt_enabled s = 0") (auto simp: ptimer_stop_def pt_running_def pt_ok_def ptimer_get_count_def)
next
  fix s now l r later assume "pt_ok s" "\<not> pt_running s"
  then show "\<not> pt_running (ptimer_set_limit now l r s) \<and> pt_ok (ptimer_set_limit now l r s) \<and>
      ptimer_get_count later (ptimer_set_limit now l r s) = (if r then Inr l else ptimer_get_count later s)"
    by (auto simp: ptimer_set_limit_def Let_def pt_running_def pt_ok_def ptimer_get_count_def)
qed

lemma pt_ok_reload: "unat (pt_period s) < 2 ^ 32 \<Longrightarrow> pt_ok (ptimer_reload s)"
  by (simp add: ptimer_reload_def Let_def ptimer_trigger_def pt_ok_def pt_running_def)

lemma pt_period_reload [simp]: "pt_period (ptimer_reload s) = pt_period s"
  by (simp add: ptimer_reload_def Let_def ptimer_trigger_def)

section \<open>Properties\<close>

text \<open>C39: the 64 bit division of \<^verbatim>\<open>ptimer_get_count\<close> rounds down: with a period below \<open>2\<^sup>3\<^sup>2\<close> nanoseconds
  (every frequency gives one) it never divides by zero, and the count times the exact period, a 64.32 fixed
  point number, is at most the time left.\<close>

theorem ptimer_count_rounds_down:
  assumes "pt_enabled s \<noteq> 0" "pt_period s \<noteq> 0" "unat (pt_period s) < 2 ^ 32"
    and "sint (now - pt_next_event s) \<le> 0"
  shows "\<exists>c. ptimer_get_count now s = Inr c \<and>
    unat c * (unat (pt_period s) * 2 ^ 32 + unat (pt_period_frac s)) \<le> unat (pt_next_event s - now) * 2 ^ 32"
  using fixed_point_div_ok[OF assms(2,3), of "pt_next_event s - now" "pt_period_frac s"] assms
  by (auto simp: ptimer_get_count_def)

text \<open>A timer of 3906 Hz, the slowest rate of the dual timer, with the given time of the next event.\<close>

definition slow_timer :: "i64 \<Rightarrow> ptimer_state" where
  "slow_timer ev = (ptimer_init None)\<lparr>pt_enabled := 1, pt_period := 256016, pt_period_frac := 1653771329,
     pt_next_event := ev\<rparr>"

theorem ptimer_count_rounds_down_witness:
  "\<exists>c. ptimer_get_count 0 (slow_timer 1000000) = Inr c \<and> unat c * (256016 * 2 ^ 32 + 1653771329) \<le> 1000000 * 2 ^ 32"
proof -
  have "sint (0 - pt_next_event (slow_timer 1000000)) \<le> 0" by (simp add: slow_timer_def)
  then show ?thesis
    using ptimer_count_rounds_down[of "slow_timer 1000000" 0] by (simp add: slow_timer_def)
qed

text \<open>With a whole number of nanoseconds per tick the scaled division is the plain quotient of the time
  left by the period.\<close>

theorem ptimer_count_exact:
  assumes "pt_enabled s \<noteq> 0" "pt_period s \<noteq> 0" "unat (pt_period s) < 2 ^ 32" "pt_period_frac s = 0"
    and "sint (now - pt_next_event s) \<le> 0"
  shows "ptimer_get_count now s = Inr ((pt_next_event s - now) div pt_period s)"
  using fixed_point_div_exact[OF assms(2,3)] assms by (simp add: ptimer_get_count_def)

theorem ptimer_count_exact_witness:
  "ptimer_get_count 500 ((ptimer_init None)\<lparr>pt_enabled := 1, pt_period := 1000, pt_next_event := 4000\<rparr>) = Inr 3"
  using ptimer_count_exact[of "(ptimer_init None)\<lparr>pt_enabled := 1, pt_period := 1000, pt_next_event := 4000\<rparr>" 500]
  by (simp add: ptimer_init_def)

text \<open>The rounding can make the timer go backwards, which the comment of \<^verbatim>\<open>ptimer_get_count\<close> excludes: the
  precision of the divisor depends on the time left, and at 3906 Hz the count of a timer grows by one
  when one nanosecond passes.\<close>

theorem ptimer_goes_backwards:
  "ptimer_set_freq 0 3906 (ptimer_init None) =
     Inr ((ptimer_init None)\<lparr>pt_period := 256016, pt_period_frac := 1653771329\<rparr>) \<and>
   ptimer_get_count 0 (slow_timer 281474976710656) = Inr 1099441258 \<and>
   ptimer_get_count 1 (slow_timer 281474976710656) = Inr 1099441259"
  by code_simp

end
