(* ===== verification/ARM_Timer.thy ===== *)
theory ARM_Timer
  imports Ptimer
begin

text \<open>
  The PrimeCell timers (\<^verbatim>\<open>hw/arm_timer.c\<close>): one timer over the count-down timer, the SP804 dual
  timer and the Integrator timer module. A line is the level last driven on it; the second step
  of an expiry is the bottom half that \<^verbatim>\<open>ptimer_trigger\<close> schedules.
\<close>

record arm_timer_state =
  at_timer :: ptimer_state
  at_control :: u32
  at_limit :: u32
  at_freq :: i32
  int_level :: u32
  at_irq :: bool

definition TIMER_CTRL_ONESHOT :: u32 where "TIMER_CTRL_ONESHOT = 0x01"
definition TIMER_CTRL_32BIT :: u32 where "TIMER_CTRL_32BIT = 0x02"
definition TIMER_CTRL_IE :: u32 where "TIMER_CTRL_IE = 0x20"
definition TIMER_CTRL_PERIODIC :: u32 where "TIMER_CTRL_PERIODIC = 0x40"
definition TIMER_CTRL_ENABLE :: u32 where "TIMER_CTRL_ENABLE = 0x80"

lemmas timer_ctrl = TIMER_CTRL_ONESHOT_def TIMER_CTRL_32BIT_def TIMER_CTRL_IE_def
  TIMER_CTRL_PERIODIC_def TIMER_CTRL_ENABLE_def

section \<open>One timer\<close>

definition arm_timer_update :: "arm_timer_state \<Rightarrow> arm_timer_state" where
  "arm_timer_update s = s\<lparr>at_irq := (int_level s \<noteq> 0 \<and> at_control s AND TIMER_CTRL_IE \<noteq> 0)\<rparr>"

definition arm_timer_read :: "i64 \<Rightarrow> u32 \<Rightarrow> arm_timer_state \<Rightarrow> u32 result" where
  "arm_timer_read now offset s =
     (let r = drop_bit 2 offset in
      if r = 0 \<or> r = 6 then Inr (at_limit s)
      else if r = 1 then rbind (ptimer_get_count now (at_timer s)) (\<lambda>c. Inr (ucast c))
      else if r = 2 then Inr (at_control s)
      else if r = 4 then Inr (int_level s)
      else if r = 5 then Inr (if at_control s AND TIMER_CTRL_IE = 0 then 0 else int_level s)
      else Inl Hw_Error)"

definition arm_timer_recalibrate :: "i64 \<Rightarrow> bool \<Rightarrow> arm_timer_state \<Rightarrow> arm_timer_state" where
  "arm_timer_recalibrate now reload s =
     (let limit = (if at_control s AND (TIMER_CTRL_PERIODIC OR TIMER_CTRL_ONESHOT) = 0
                   then if at_control s AND TIMER_CTRL_32BIT \<noteq> 0 then 0xffffffff else 0xffff
                   else at_limit s)
      in s\<lparr>at_timer := ptimer_set_limit now (ucast limit) reload (at_timer s)\<rparr>)"

definition write_timer_control :: "i64 \<Rightarrow> u32 \<Rightarrow> arm_timer_state \<Rightarrow> arm_timer_state result" where
  "write_timer_control now val s =
     rbind (if at_control s AND TIMER_CTRL_ENABLE \<noteq> 0
            then rbind (ptimer_stop now (at_timer s)) (\<lambda>t. Inr (s\<lparr>at_timer := t\<rparr>)) else Inr s) (\<lambda>s.
     let s = s\<lparr>at_control := val\<rparr>;
         dvd2 = drop_bit 2 val AND 3;
         freq = (if dvd2 = 1 then signed_drop_bit 4 (at_freq s)
                 else if dvd2 = 2 then signed_drop_bit 8 (at_freq s) else at_freq s);
         s = arm_timer_recalibrate now (at_control s AND TIMER_CTRL_ENABLE \<noteq> 0) s
     in rbind (ptimer_set_freq now freq (at_timer s)) (\<lambda>t.
        Inr (s\<lparr>at_timer := (if at_control s AND TIMER_CTRL_ENABLE \<noteq> 0
               then ptimer_run now (at_control s AND TIMER_CTRL_ONESHOT \<noteq> 0) t else t)\<rparr>)))"

definition arm_timer_write :: "i64 \<Rightarrow> u32 \<Rightarrow> u32 \<Rightarrow> arm_timer_state \<Rightarrow> arm_timer_state result" where
  "arm_timer_write now offset val s =
     (let r = drop_bit 2 offset in
      rbind (if r = 0 then Inr (arm_timer_recalibrate now True (s\<lparr>at_limit := val\<rparr>))
             else if r = 1 then Inr s
             else if r = 2 then write_timer_control now val s
             else if r = 3 then Inr (s\<lparr>int_level := 0\<rparr>)
             else if r = 6 then Inr (arm_timer_recalibrate now False (s\<lparr>at_limit := val\<rparr>))
             else Inl Hw_Error)
        (\<lambda>s. Inr (arm_timer_update s)))"

definition arm_timer_tick :: "arm_timer_state \<Rightarrow> arm_timer_state" where
  "arm_timer_tick s = arm_timer_update (s\<lparr>int_level := 1\<rparr>)"

definition arm_timer_init :: "u32 \<Rightarrow> arm_timer_state" where
  "arm_timer_init freq = \<lparr>at_timer = ptimer_init (Some False), at_control = TIMER_CTRL_IE, at_limit = 0,
     at_freq = freq, int_level = 0, at_irq = False\<rparr>"

text \<open>What the main loop does for a timer: an expired \<^verbatim>\<open>QEMUTimer\<close> runs \<^verbatim>\<open>ptimer_tick\<close>, a scheduled
  bottom half runs \<^verbatim>\<open>arm_timer_tick\<close>.\<close>

definition arm_timer_expire :: "i64 \<Rightarrow> arm_timer_state \<Rightarrow> arm_timer_state" where
  "arm_timer_expire now s =
     (case pt_timer (at_timer s) of
        Some t \<Rightarrow> if sint t \<le> sint now then s\<lparr>at_timer := ptimer_tick ((at_timer s)\<lparr>pt_timer := None\<rparr>)\<rparr> else s
      | None \<Rightarrow> s)"

definition arm_timer_bh :: "arm_timer_state \<Rightarrow> arm_timer_state" where
  "arm_timer_bh s =
     (if pt_bh (at_timer s) = Some True
      then arm_timer_tick (s\<lparr>at_timer := (at_timer s)\<lparr>pt_bh := Some False\<rparr>\<rparr>) else s)"

section \<open>The dual timer\<close>

record sp804_state =
  sp_timer :: "arm_timer_state list"
  sp_level :: "bool list"
  sp_irq :: bool

definition sp804_set_irq :: "nat \<Rightarrow> bool \<Rightarrow> sp804_state \<Rightarrow> sp804_state result" where
  "sp804_set_irq irq level s =
     rbind (aset (sp_level s) irq level) (\<lambda>ls. Inr (s\<lparr>sp_level := ls, sp_irq := ls ! 0 \<or> ls ! 1\<rparr>))"

definition sp804_read :: "i64 \<Rightarrow> u32 \<Rightarrow> sp804_state \<Rightarrow> u32 result" where
  "sp804_read now offset s =
     (if offset < 0x20 then arm_timer_read now offset (sp_timer s ! 0)
      else arm_timer_read now (offset - 0x20) (sp_timer s ! 1))"

text \<open>A timer whose line was driven forwards the level to the dual timer.\<close>

definition sp804_drive :: "nat \<Rightarrow> arm_timer_state \<Rightarrow> sp804_state \<Rightarrow> sp804_state result" where
  "sp804_drive n t s = sp804_set_irq n (at_irq t) (s\<lparr>sp_timer := (sp_timer s)[n := t]\<rparr>)"

definition sp804_write :: "i64 \<Rightarrow> u32 \<Rightarrow> u32 \<Rightarrow> sp804_state \<Rightarrow> sp804_state result" where
  "sp804_write now offset val s =
     (if offset < 0x20 then rbind (arm_timer_write now offset val (sp_timer s ! 0)) (\<lambda>t. sp804_drive 0 t s)
      else rbind (arm_timer_write now (offset - 0x20) val (sp_timer s ! 1)) (\<lambda>t. sp804_drive 1 t s))"

definition sp804_init :: sp804_state where
  "sp804_init = \<lparr>sp_timer = [arm_timer_init 1000000, arm_timer_init 1000000], sp_level = [False, False], sp_irq = False\<rparr>"

section \<open>The Integrator timer module\<close>

record icp_pit_state =
  icp_timer :: "arm_timer_state list"

definition icp_pit_read :: "i64 \<Rightarrow> u32 \<Rightarrow> icp_pit_state \<Rightarrow> u32 result" where
  "icp_pit_read now offset s =
     (let n = unat (drop_bit 8 offset) in
      if 3 < n then Inl Hw_Error
      else rbind (aget (icp_timer s) n) (\<lambda>t. arm_timer_read now (offset AND 0xff) t))"

definition icp_pit_write :: "i64 \<Rightarrow> u32 \<Rightarrow> u32 \<Rightarrow> icp_pit_state \<Rightarrow> icp_pit_state result" where
  "icp_pit_write now offset val s =
     (let n = unat (drop_bit 8 offset) in
      if 3 < n then Inl Hw_Error
      else rbind (aget (icp_timer s) n) (\<lambda>t. rbind (arm_timer_write now (offset AND 0xff) val t) (\<lambda>t.
           Inr (s\<lparr>icp_timer := (icp_timer s)[n := t]\<rparr>))))"

definition icp_pit_init :: icp_pit_state where
  "icp_pit_init = \<lparr>icp_timer = [arm_timer_init 40000000, arm_timer_init 1000000, arm_timer_init 1000000]\<rparr>"

section \<open>Invariants of one timer\<close>

definition at_line :: "arm_timer_state \<Rightarrow> bool" where
  "at_line s \<longleftrightarrow> at_irq s = (int_level s \<noteq> 0 \<and> at_control s AND TIMER_CTRL_IE \<noteq> 0)"

definition at_ok :: "arm_timer_state \<Rightarrow> bool" where
  "at_ok s \<longleftrightarrow> pt_ok (at_timer s) \<and> unat (pt_period (at_timer s)) < 2 ^ 32 \<and> at_freq s \<in> {1000000, 40000000}"

text \<open>A timer that is fit for the operations of \<^verbatim>\<open>arm_timer_write\<close>.\<close>

definition pt_fit :: "ptimer_state \<Rightarrow> bool" where
  "pt_fit t \<longleftrightarrow> pt_ok t \<and> unat (pt_period t) < 2 ^ 32"

lemma reload_period_0 [simp]: "pt_period s = 0 \<Longrightarrow> pt_enabled (ptimer_reload s) = 0"
  by (simp add: ptimer_reload_def Let_def ptimer_trigger_def)

lemma pt_fit_reload: "unat (pt_period s) < 2 ^ 32 \<Longrightarrow> pt_fit (ptimer_reload s)"
  by (simp add: pt_fit_def pt_ok_reload)

lemma pt_fit_set_limit: "pt_fit t \<Longrightarrow> pt_fit (ptimer_set_limit now l r t)"
  by (auto simp: ptimer_set_limit_def Let_def pt_fit_def pt_ok_reload pt_ok_def pt_running_def)

lemma pt_fit_run: "pt_fit t \<Longrightarrow> pt_fit (ptimer_run now os t)"
  by (auto simp: ptimer_run_def pt_fit_def pt_ok_reload)

lemma pt_fit_stop: "pt_fit t \<Longrightarrow> ptimer_stop now t = Inr t' \<Longrightarrow> pt_fit t'"
  by (auto simp: ptimer_stop_def pt_fit_def pt_ok_def pt_running_def rbind_eq_Inr_iff split: if_splits)

lemma pt_fit_tick: "pt_fit t \<Longrightarrow> pt_fit (ptimer_tick (t\<lparr>pt_timer := None\<rparr>))"
  by (auto simp: ptimer_tick_def Let_def ptimer_trigger_def pt_fit_def pt_ok_reload pt_ok_def pt_running_def)

lemma period_less: "unat (1000000000 div ucast (freq::u32) :: u64) < 2 ^ 32"
proof -
  have "unat (1000000000 div ucast freq :: u64) \<le> 1000000000" by (simp add: unat_div)
  then show ?thesis by simp
qed

lemma pt_fit_set_freq:
  assumes "pt_fit t" "freq \<noteq> 0"
  shows "\<exists>t'. ptimer_set_freq now freq t = Inr t' \<and> pt_fit t' \<and> (\<not> pt_running t \<longrightarrow> \<not> pt_running t' \<and> pt_delta t' = pt_delta t)"
  using assms period_less[of freq]
  by (auto simp: ptimer_set_freq_def Let_def pt_fit_def pt_ok_reload pt_ok_def pt_running_def)

lemma at_ok_fit: "at_ok s \<longleftrightarrow> pt_fit (at_timer s) \<and> at_freq s \<in> {1000000, 40000000}"
  by (auto simp: at_ok_def pt_fit_def)

lemma divided_freq_nonzero:
  "f \<in> {1000000, 40000000} \<Longrightarrow> signed_drop_bit 4 (f::i32) \<noteq> 0 \<and> signed_drop_bit 8 f \<noteq> 0 \<and> f \<noteq> 0"
  by (auto; code_simp)

lemma recalibrate_fit:
  "pt_fit (at_timer s) \<Longrightarrow> pt_fit (at_timer (arm_timer_recalibrate now r s))"
  by (simp add: arm_timer_recalibrate_def Let_def pt_fit_set_limit)

lemma recalibrate_frame [simp]:
  "at_control (arm_timer_recalibrate now r s) = at_control s" "at_freq (arm_timer_recalibrate now r s) = at_freq s"
  "int_level (arm_timer_recalibrate now r s) = int_level s"
  by (simp_all add: arm_timer_recalibrate_def Let_def)

lemma update_line [simp]: "at_line (arm_timer_update s)" "at_ok (arm_timer_update s) = at_ok s"
  by (simp_all add: at_line_def arm_timer_update_def at_ok_def)

lemma write_timer_control_ok:
  assumes "at_ok s"
  shows "\<exists>s'. write_timer_control now v s = Inr s' \<and> at_ok s'"
proof -
  obtain t where t: "ptimer_stop now (at_timer s) = Inr t"
    using pt.stop_keeps[of "at_timer s"] assms by (auto simp: at_ok_def)
  define u where "u = (if at_control s AND TIMER_CTRL_ENABLE \<noteq> 0 then s\<lparr>at_timer := t\<rparr> else s)\<lparr>at_control := v\<rparr>"
  have u: "pt_fit (at_timer u)" "at_freq u \<in> {1000000, 40000000}" "at_control u = v"
    using assms pt_fit_stop[OF _ t] by (simp_all add: u_def at_ok_fit)
  define r where "r = arm_timer_recalibrate now (v AND TIMER_CTRL_ENABLE \<noteq> 0) u"
  define f where "f = (if drop_bit 2 v AND 3 = 1 then signed_drop_bit 4 (at_freq u)
                 else if drop_bit 2 v AND 3 = 2 then signed_drop_bit 8 (at_freq u) else at_freq u)"
  have "f \<noteq> 0" using divided_freq_nonzero[OF u(2)] by (simp add: f_def)
  moreover have "pt_fit (at_timer r)" using u(1) by (simp add: r_def recalibrate_fit)
  ultimately obtain w where w: "ptimer_set_freq now f (at_timer r) = Inr w" "pt_fit w"
    using pt_fit_set_freq by blast
  have "write_timer_control now v s = Inr (r\<lparr>at_timer := (if v AND TIMER_CTRL_ENABLE \<noteq> 0
               then ptimer_run now (v AND TIMER_CTRL_ONESHOT \<noteq> 0) w else w)\<rparr>)"
    using w(1) by (auto simp: write_timer_control_def t Let_def u_def r_def f_def split: if_splits)
  then show ?thesis using w(2) u by (auto simp: at_ok_fit pt_fit_run r_def)
qed

lemma arm_timer_write_ok:
  assumes "at_ok s"
  shows "(\<exists>s'. arm_timer_write now off v s = Inr s' \<and> at_ok s' \<and> at_line s') \<or> arm_timer_write now off v s = Inl Hw_Error"
proof -
  have "at_ok (arm_timer_recalibrate now r (s\<lparr>at_limit := v\<rparr>))" for r
    using assms by (simp add: at_ok_fit recalibrate_fit)
  moreover have "at_ok (s\<lparr>int_level := 0\<rparr>)" using assms by (simp add: at_ok_def)
  moreover obtain w where "write_timer_control now v s = Inr w" "at_ok w" using write_timer_control_ok[OF assms] by blast
  ultimately show ?thesis using assms by (simp add: arm_timer_write_def Let_def)
qed

lemma arm_timer_loop_ok:
  assumes "at_ok s"
  shows "at_ok (arm_timer_expire now s)" "at_ok (arm_timer_bh s)"
    "at_line s \<Longrightarrow> at_line (arm_timer_expire now s)" "at_line s \<Longrightarrow> at_line (arm_timer_bh s)"
proof -
  show "at_ok (arm_timer_expire now s)"
    using assms by (simp add: arm_timer_expire_def at_ok_fit pt_fit_tick split: option.splits)
  show "at_ok (arm_timer_bh s)"
    using assms by (simp add: arm_timer_bh_def arm_timer_tick_def) (simp add: at_ok_def pt_ok_def pt_running_def)
  show "at_line s \<Longrightarrow> at_line (arm_timer_expire now s)"
    by (simp add: arm_timer_expire_def at_line_def split: option.splits)
  show "at_line s \<Longrightarrow> at_line (arm_timer_bh s)" by (simp add: arm_timer_bh_def arm_timer_tick_def)
qed

lemma arm_timer_init_ok: "freq \<in> {1000000, 40000000} \<Longrightarrow> at_ok (arm_timer_init freq) \<and> at_line (arm_timer_init freq)"
  by (simp add: arm_timer_init_def at_ok_def pt_ok_def pt_running_def ptimer_init_def at_line_def)

lemma arm_timer_read_ok: "at_ok s \<Longrightarrow> arm_timer_read now off s = Inl e \<Longrightarrow> e = Hw_Error"
  using get_count_total[of "at_timer s" now] by (auto simp: arm_timer_read_def Let_def at_ok_def split: if_splits)

section \<open>The dual timer as a whole\<close>

definition sp_inv :: "sp804_state \<Rightarrow> bool" where
  "sp_inv s \<longleftrightarrow> length (sp_timer s) = 2 \<and> length (sp_level s) = 2 \<and>
     (\<forall>n<2. at_ok (sp_timer s ! n) \<and> at_line (sp_timer s ! n) \<and> sp_level s ! n = at_irq (sp_timer s ! n)) \<and>
     sp_irq s = (sp_level s ! 0 \<or> sp_level s ! 1)"

lemma less_2_nat: "n < (2::nat) \<longleftrightarrow> n = 0 \<or> n = 1"
  by auto

lemma sp_inv_drive:
  assumes "sp_inv s" "n < 2" "at_ok t" "at_line t"
  shows "\<exists>s'. sp804_drive n t s = Inr s' \<and> sp_inv s' \<and> sp_timer s' = (sp_timer s)[n := t]"
  using assms by (auto simp: sp_inv_def sp804_drive_def sp804_set_irq_def nth_list_update)

inductive sp_reach :: "sp804_state \<Rightarrow> bool" where
  sp_start: "sp_reach sp804_init"
| sp_write: "sp_reach s \<Longrightarrow> sp804_write now off v s = Inr s' \<Longrightarrow> sp_reach s'"
| sp_expire: "sp_reach s \<Longrightarrow> n < 2 \<Longrightarrow>
    sp_reach (s\<lparr>sp_timer := (sp_timer s)[n := arm_timer_expire now (sp_timer s ! n)]\<rparr>)"
| sp_bh: "sp_reach s \<Longrightarrow> n < 2 \<Longrightarrow> pt_bh (at_timer (sp_timer s ! n)) = Some True \<Longrightarrow>
    sp804_drive n (arm_timer_bh (sp_timer s ! n)) s = Inr s' \<Longrightarrow> sp_reach s'"

lemma sp_inv_timer: "sp_inv s \<Longrightarrow> n < 2 \<Longrightarrow> at_ok (sp_timer s ! n) \<and> at_line (sp_timer s ! n)"
  by (simp add: sp_inv_def)

lemma sp_drive_write:
  assumes "sp_inv s" "n < 2"
  shows "(\<exists>s'. rbind (arm_timer_write now off v (sp_timer s ! n)) (\<lambda>t. sp804_drive n t s) = Inr s' \<and> sp_inv s') \<or>
    rbind (arm_timer_write now off v (sp_timer s ! n)) (\<lambda>t. sp804_drive n t s) = Inl Hw_Error"
proof -
  have "at_ok (sp_timer s ! n)" using sp_inv_timer[OF assms] by simp
  from arm_timer_write_ok[OF this, of now off v] show ?thesis
  proof
    assume "\<exists>t. arm_timer_write now off v (sp_timer s ! n) = Inr t \<and> at_ok t \<and> at_line t"
    then obtain t where "arm_timer_write now off v (sp_timer s ! n) = Inr t" "at_ok t" "at_line t" by blast
    with sp_inv_drive[OF assms, of t] show ?thesis by auto
  qed simp
qed

lemma sp_write_ok:
  assumes "sp_inv s"
  shows "(\<exists>s'. sp804_write now off v s = Inr s' \<and> sp_inv s') \<or> sp804_write now off v s = Inl Hw_Error"
  using sp_drive_write[OF assms, of 0 now off v] sp_drive_write[OF assms, of 1 now "off - 0x20" v]
  by (simp add: sp804_write_def)

lemma sp_reach_inv: "sp_reach s \<Longrightarrow> sp_inv s"
proof (induction rule: sp_reach.induct)
  case sp_start
  show ?case using arm_timer_init_ok[of 1000000]
    by (auto simp: sp_inv_def sp804_init_def less_2_nat) (simp_all add: arm_timer_init_def)
next
  case (sp_write s now off v s')
  then show ?case using sp_write_ok[of s now off v] by auto
next
  case (sp_expire s n now)
  note o = sp_inv_timer[OF sp_expire.IH sp_expire.hyps(2)]
  have "at_irq (arm_timer_expire now (sp_timer s ! n)) = at_irq (sp_timer s ! n)"
    by (simp add: arm_timer_expire_def split: option.splits)
  with sp_expire arm_timer_loop_ok[of "sp_timer s ! n"] o show ?case
    by (auto simp: sp_inv_def nth_list_update)
next
  case (sp_bh s n s')
  note o = sp_inv_timer[OF sp_bh.IH sp_bh.hyps(2)]
  from sp_inv_drive[OF sp_bh.IH sp_bh.hyps(2), of "arm_timer_bh (sp_timer s ! n)"] o sp_bh.hyps
    arm_timer_loop_ok(2,4)[of "sp_timer s ! n"]
  show ?case by auto
qed

section \<open>Properties\<close>

text \<open>C40: in every reachable state of the dual timer its line is the disjunction of the two enabled timer
  interrupts, and an access to a register fails only with the error for unknown offsets; in particular no division
  by zero and no null timer is met.\<close>

theorem sp804_irq_correct:
  assumes "sp_reach s"
  shows "sp_irq s = (\<exists>n<2. int_level (sp_timer s ! n) \<noteq> 0 \<and> at_control (sp_timer s ! n) AND TIMER_CTRL_IE \<noteq> 0) \<and>
    (sp804_write now off v s = Inl e \<or> sp804_read now off s = Inl e \<longrightarrow> e = Hw_Error)"
proof -
  have i: "sp_inv s" by (rule sp_reach_inv[OF assms])
  have "sp_irq s = (\<exists>n<2. int_level (sp_timer s ! n) \<noteq> 0 \<and> at_control (sp_timer s ! n) AND TIMER_CTRL_IE \<noteq> 0)"
    using i by (auto simp: sp_inv_def at_line_def less_2_nat)
  moreover have "e = Hw_Error" if "sp804_read now off s = Inl e"
    using that sp_inv_timer[OF i, of 0] sp_inv_timer[OF i, of 1]
      arm_timer_read_ok[of "sp_timer s ! 0" now off e] arm_timer_read_ok[of "sp_timer s ! 1" now "off - 0x20" e]
    by (simp add: sp804_read_def split: if_splits)
  ultimately show ?thesis using sp_write_ok[OF i, of now off v] by auto
qed

text \<open>The first timer, one-shot with load 5, has expired and its bottom half has run.\<close>

definition sp_fired :: "sp804_state result" where
  "sp_fired =
     rbind (sp804_write 0 0 5 sp804_init) (\<lambda>s.
     rbind (sp804_write 0 8 0xa1 s) (\<lambda>s.
     let s = s\<lparr>sp_timer := (sp_timer s)[0 := arm_timer_expire 6000 (sp_timer s ! 0)]\<rparr> in
     if pt_bh (at_timer (sp_timer s ! 0)) = Some True then sp804_drive 0 (arm_timer_bh (sp_timer s ! 0)) s else Inl Abort))"

lemma sp_fired_irq: "\<exists>s. sp_fired = Inr s \<and> sp_irq s"
proof -
  have "case sp_fired of Inr s \<Rightarrow> sp_irq s | Inl _ \<Rightarrow> False" by code_simp
  then show ?thesis by (auto split: sum.splits)
qed

lemma sp_fired_reach:
  assumes "sp_fired = Inr s"
  shows "sp_reach s"
proof -
  obtain a b where w: "sp804_write 0 0 5 sp804_init = Inr a" "sp804_write 0 8 0xa1 a = Inr b"
    and d: "(let c = b\<lparr>sp_timer := (sp_timer b)[0 := arm_timer_expire 6000 (sp_timer b ! 0)]\<rparr> in
      if pt_bh (at_timer (sp_timer c ! 0)) = Some True then sp804_drive 0 (arm_timer_bh (sp_timer c ! 0)) c else Inl Abort) = Inr s"
    using assms unfolding sp_fired_def rbind_eq_Inr_iff by blast
  define c where "c = b\<lparr>sp_timer := (sp_timer b)[0 := arm_timer_expire 6000 (sp_timer b ! 0)]\<rparr>"
  have "sp_reach b" by (rule sp_reach.sp_write[OF sp_reach.sp_write[OF sp_reach.sp_start w(1)] w(2)])
  then have "sp_reach c" unfolding c_def by (rule sp_reach.sp_expire) simp
  moreover have "pt_bh (at_timer (sp_timer c ! 0)) = Some True" "sp804_drive 0 (arm_timer_bh (sp_timer c ! 0)) c = Inr s"
    using d unfolding c_def[symmetric] Let_def by (simp_all split: if_splits)
  ultimately show ?thesis using sp_reach.sp_bh[of c 0 s] by simp
qed

theorem sp804_irq_correct_witness:
  "\<exists>s. sp_fired = Inr s \<and> sp_irq s \<and>
     (\<exists>n<2. int_level (sp_timer s ! n) \<noteq> 0 \<and> at_control (sp_timer s ! n) AND TIMER_CTRL_IE \<noteq> 0)"
proof -
  obtain s where s: "sp_fired = Inr s" "sp_irq s" using sp_fired_irq by blast
  with sp804_irq_correct[OF sp_fired_reach[OF s(1)], of 0 0 0 Hw_Error] show ?thesis by blast
qed

text \<open>Clearing the enable bit pauses a timer: the value register then keeps the count of the moment of
  the write, and writing the load register of a paused timer in a counting mode sets it.\<close>

theorem arm_timer_pause:
  assumes "at_ok s" "at_control s AND TIMER_CTRL_ENABLE \<noteq> 0" "v AND TIMER_CTRL_ENABLE = 0"
    and "v AND (TIMER_CTRL_PERIODIC OR TIMER_CTRL_ONESHOT) \<noteq> 0"
  shows "\<exists>s' s''. arm_timer_write now 8 v s = Inr s' \<and> arm_timer_read later 4 s' = arm_timer_read now 4 s \<and>
    arm_timer_write now' 0 l s' = Inr s'' \<and> arm_timer_read later 4 s'' = Inr l"
proof -
  obtain t c where t: "ptimer_stop now (at_timer s) = Inr t" "ptimer_get_count now (at_timer s) = Inr c"
    "ptimer_get_count now t = Inr c" "\<not> pt_running t" "pt_ok t"
    using pt.stop_keeps[of "at_timer s" now now] assms(1) by (auto simp: at_ok_def)
  define u where "u = arm_timer_recalibrate now False (s\<lparr>at_timer := t, at_control := v\<rparr>)"
  have ft: "pt_fit t" using assms(1) pt_fit_stop[OF _ t(1)] by (simp add: at_ok_fit)
  have fu: "pt_fit (at_timer u)" unfolding u_def using ft by (intro recalibrate_fit) simp
  have u: "\<not> pt_running (at_timer u)" "pt_delta (at_timer u) = c"
    using pt.limit_stopped[OF t(5,4), where r = False] t(3,4)
    by (auto simp: u_def arm_timer_recalibrate_def Let_def ptimer_set_limit_def pt_running_def)
  define f where "f = (if drop_bit 2 v AND 3 = 1 then signed_drop_bit 4 (at_freq s)
                 else if drop_bit 2 v AND 3 = 2 then signed_drop_bit 8 (at_freq s) else at_freq s)"
  have "f \<noteq> 0" using divided_freq_nonzero[of "at_freq s"] assms(1) by (simp add: f_def at_ok_def)
  then obtain w where w: "ptimer_set_freq now f (at_timer u) = Inr w" "pt_fit w" "\<not> pt_running w" "pt_delta w = c"
    using pt_fit_set_freq[OF fu, of f now] u by auto
  define s' where "s' = arm_timer_update (u\<lparr>at_timer := w\<rparr>)"
  have "write_timer_control now v s = Inr (u\<lparr>at_timer := w\<rparr>)"
    using assms(2,3) t(1) w(1) unfolding u_def f_def
    by (cases "drop_bit 2 v AND 3 = 1"; cases "drop_bit 2 v AND 3 = 2") (simp_all add: write_timer_control_def Let_def)
  then have 1: "arm_timer_write now 8 v s = Inr s'" by (simp add: arm_timer_write_def s'_def)
  have s': "at_timer s' = w" "at_control s' = v" by (simp_all add: s'_def arm_timer_update_def u_def)
  have 2: "arm_timer_read later 4 s' = arm_timer_read now 4 s"
    using t(2) w(3,4) by (simp add: arm_timer_read_def s')
  define s'' where "s'' = arm_timer_update (arm_timer_recalibrate now' True (s'\<lparr>at_limit := l\<rparr>))"
  have 3: "arm_timer_write now' 0 l s' = Inr s''" by (simp add: arm_timer_write_def s''_def)
  have "at_timer s'' = ptimer_set_limit now' (ucast l) True w"
    using assms(4) by (simp add: s''_def arm_timer_update_def arm_timer_recalibrate_def s' Let_def)
  moreover have "ucast (ucast l :: u64) = l" by (rule bit_word_eqI) (simp add: bit_simps)
  ultimately have "arm_timer_read later 4 s'' = Inr l"
    using pt.limit_stopped[of w now' "ucast l" True later] w(2,3)
    by (simp add: arm_timer_read_def pt_fit_def)
  with 1 2 3 show ?thesis by blast
qed

text \<open>A running periodic timer.\<close>

definition at_sample :: arm_timer_state where
  "at_sample = (arm_timer_init 1000000)\<lparr>at_control := 0xe2, at_timer := (ptimer_init (Some False))
     \<lparr>pt_enabled := 1, pt_limit := 9, pt_delta := 9, pt_period := 1000, pt_next_event := 9000, pt_timer := Some 9000\<rparr>\<rparr>"

theorem arm_timer_pause_witness:
  "arm_timer_read 1500 4 at_sample = Inr 7 \<and>
   (\<exists>s' s''. arm_timer_write 1500 8 0x62 at_sample = Inr s' \<and> arm_timer_read 50000 4 s' = Inr 7 \<and>
     arm_timer_write 60000 0 3 s' = Inr s'' \<and> arm_timer_read 50000 4 s'' = Inr 3)"
proof -
  have "at_ok at_sample" by (simp add: at_sample_def at_ok_def pt_ok_def arm_timer_init_def)
  moreover have "arm_timer_read 1500 4 at_sample = Inr 7" by code_simp
  ultimately show ?thesis
    using arm_timer_pause[of at_sample "0x62" 1500 50000 60000 3] by (simp add: at_sample_def timer_ctrl)
qed

text \<open>The range check of the Integrator module lets a fourth timer pass: an access to the block at \<open>0x300\<close> reads
  past the array of three timers.\<close>

theorem icp_pit_fourth_timer:
  assumes "length (icp_timer s) = 3" "drop_bit 8 off = 3"
  shows "icp_pit_read now off s = Inl Out_Of_Bounds \<and> icp_pit_write now off v s = Inl Out_Of_Bounds"
  using assms by (simp add: icp_pit_read_def icp_pit_write_def Let_def)

theorem icp_pit_fourth_timer_witness:
  "icp_pit_read 0 0x304 icp_pit_init = Inl Out_Of_Bounds"
  using icp_pit_fourth_timer[of icp_pit_init "0x304"] by (simp add: icp_pit_init_def)

end
