(* ===== verification/JSON_Lexer.thy ===== *)
theory JSON_Lexer
  imports Vemu_Prelude
begin

text \<open>
  The JSON tokenizer (\<^verbatim>\<open>json-lexer.c\<close>): the transition table, one character, a buffer, and the
  flush at the end. The call-back that receives the tokens does not look at the lexer, so the
  emitted tokens are collected in a list. A byte of the input is the code of its character.
\<close>

datatype json_lexer_state =
    IN_ERROR
  | IN_DQ_UCODE3 | IN_DQ_UCODE2 | IN_DQ_UCODE1 | IN_DQ_UCODE0 | IN_DQ_STRING_ESCAPE | IN_DQ_STRING
  | IN_SQ_UCODE3 | IN_SQ_UCODE2 | IN_SQ_UCODE1 | IN_SQ_UCODE0 | IN_SQ_STRING_ESCAPE | IN_SQ_STRING
  | IN_ZERO | IN_DIGITS | IN_DIGIT | IN_EXP_E | IN_MANTISSA | IN_MANTISSA_DIGITS
  | IN_NONZERO_NUMBER | IN_NEG_NONZERO_NUMBER | IN_KEYWORD
  | IN_ESCAPE | IN_ESCAPE_L | IN_ESCAPE_LL | IN_ESCAPE_I | IN_ESCAPE_I6 | IN_ESCAPE_I64
  | IN_WHITESPACE | IN_START

datatype json_token_type =
    JSON_OPERATOR | JSON_INTEGER | JSON_FLOAT | JSON_KEYWORD | JSON_STRING | JSON_ESCAPE | JSON_SKIP | JSON_ERROR

text \<open>States and token types share one number space in the table.\<close>

datatype lex_code = St json_lexer_state | Tk json_token_type

definition MAX_TOKEN_SIZE :: nat where "MAX_TOKEN_SIZE = 67108864"

section \<open>The transition table\<close>

definition is_digit :: "nat \<Rightarrow> bool" where "is_digit c \<longleftrightarrow> 48 \<le> c \<and> c \<le> 57"
definition is_lower :: "nat \<Rightarrow> bool" where "is_lower c \<longleftrightarrow> 97 \<le> c \<and> c \<le> 122"
definition is_xdigit :: "nat \<Rightarrow> bool" where
  "is_xdigit c \<longleftrightarrow> is_digit c \<or> 97 \<le> c \<and> c \<le> 102 \<or> 65 \<le> c \<and> c \<le> 70"
definition is_space :: "nat \<Rightarrow> bool" where "is_space c \<longleftrightarrow> c = 32 \<or> c = 9 \<or> c = 13 \<or> c = 10"
definition in_text :: "nat \<Rightarrow> bool" where
  "in_text c \<longleftrightarrow> 1 \<le> c \<and> c \<le> 0xBF \<or> 0xC2 \<le> c \<and> c \<le> 0xF4"

lemmas char_classes = is_digit_def is_lower_def is_xdigit_def is_space_def in_text_def

text \<open>\<^verbatim>\<open>TERMINAL(state)\<close>: every 7 bit character.\<close>

definition TERMINAL :: "json_token_type \<Rightarrow> nat \<Rightarrow> lex_code" where
  "TERMINAL t c = (if c \<le> 0x7F then Tk t else St IN_ERROR)"

fun json_lexer :: "json_lexer_state \<Rightarrow> nat \<Rightarrow> lex_code" where
  "json_lexer IN_ERROR c = St IN_ERROR"
| "json_lexer IN_DQ_UCODE3 c = (if is_xdigit c then St IN_DQ_STRING else St IN_ERROR)"
| "json_lexer IN_DQ_UCODE2 c = (if is_xdigit c then St IN_DQ_UCODE3 else St IN_ERROR)"
| "json_lexer IN_DQ_UCODE1 c = (if is_xdigit c then St IN_DQ_UCODE2 else St IN_ERROR)"
| "json_lexer IN_DQ_UCODE0 c = (if is_xdigit c then St IN_DQ_UCODE1 else St IN_ERROR)"
| "json_lexer IN_DQ_STRING_ESCAPE c =
     (if c = 98 \<or> c = 102 \<or> c = 110 \<or> c = 114 \<or> c = 116 \<or> c = 47 \<or> c = 92 \<or> c = 39 \<or> c = 34 then St IN_DQ_STRING
      else if c = 117 then St IN_DQ_UCODE0 else St IN_ERROR)"
| "json_lexer IN_DQ_STRING c =
     (if c = 92 then St IN_DQ_STRING_ESCAPE else if c = 34 then Tk JSON_STRING
      else if in_text c then St IN_DQ_STRING else St IN_ERROR)"
| "json_lexer IN_SQ_UCODE3 c = (if is_xdigit c then St IN_SQ_STRING else St IN_ERROR)"
| "json_lexer IN_SQ_UCODE2 c = (if is_xdigit c then St IN_SQ_UCODE3 else St IN_ERROR)"
| "json_lexer IN_SQ_UCODE1 c = (if is_xdigit c then St IN_SQ_UCODE2 else St IN_ERROR)"
| "json_lexer IN_SQ_UCODE0 c = (if is_xdigit c then St IN_SQ_UCODE1 else St IN_ERROR)"
| "json_lexer IN_SQ_STRING_ESCAPE c =
     (if c = 98 \<or> c = 102 \<or> c = 110 \<or> c = 114 \<or> c = 116 \<or> c = 39 \<or> c = 34 then St IN_SQ_STRING
      else if c = 47 \<or> c = 92 then St IN_DQ_STRING
      else if c = 117 then St IN_SQ_UCODE0 else St IN_ERROR)"
| "json_lexer IN_SQ_STRING c =
     (if c = 92 then St IN_SQ_STRING_ESCAPE else if c = 39 then Tk JSON_STRING
      else if in_text c then St IN_SQ_STRING else St IN_ERROR)"
| "json_lexer IN_ZERO c =
     (if is_digit c then St IN_ERROR else if c = 46 then St IN_MANTISSA else TERMINAL JSON_INTEGER c)"
| "json_lexer IN_DIGITS c = (if is_digit c then St IN_DIGITS else TERMINAL JSON_FLOAT c)"
| "json_lexer IN_DIGIT c = (if is_digit c then St IN_DIGITS else St IN_ERROR)"
| "json_lexer IN_EXP_E c =
     (if c = 45 \<or> c = 43 then St IN_DIGIT else if is_digit c then St IN_DIGITS else St IN_ERROR)"
| "json_lexer IN_MANTISSA_DIGITS c =
     (if is_digit c then St IN_MANTISSA_DIGITS else if c = 101 \<or> c = 69 then St IN_EXP_E
      else TERMINAL JSON_FLOAT c)"
| "json_lexer IN_MANTISSA c = (if is_digit c then St IN_MANTISSA_DIGITS else St IN_ERROR)"
| "json_lexer IN_NONZERO_NUMBER c =
     (if is_digit c then St IN_NONZERO_NUMBER else if c = 101 \<or> c = 69 then St IN_EXP_E
      else if c = 46 then St IN_MANTISSA else TERMINAL JSON_INTEGER c)"
| "json_lexer IN_NEG_NONZERO_NUMBER c =
     (if c = 48 then St IN_ZERO else if is_digit c then St IN_NONZERO_NUMBER else St IN_ERROR)"
| "json_lexer IN_KEYWORD c = (if is_lower c then St IN_KEYWORD else TERMINAL JSON_KEYWORD c)"
| "json_lexer IN_WHITESPACE c = (if is_space c then St IN_WHITESPACE else TERMINAL JSON_SKIP c)"
| "json_lexer IN_ESCAPE_LL c = (if c = 100 then Tk JSON_ESCAPE else St IN_ERROR)"
| "json_lexer IN_ESCAPE_L c =
     (if c = 100 then Tk JSON_ESCAPE else if c = 108 then St IN_ESCAPE_LL else St IN_ERROR)"
| "json_lexer IN_ESCAPE_I64 c = (if c = 100 then Tk JSON_ESCAPE else St IN_ERROR)"
| "json_lexer IN_ESCAPE_I6 c = (if c = 52 then St IN_ESCAPE_I64 else St IN_ERROR)"
| "json_lexer IN_ESCAPE_I c = (if c = 54 then St IN_ESCAPE_I6 else St IN_ERROR)"
| "json_lexer IN_ESCAPE c =
     (if c = 100 \<or> c = 105 \<or> c = 112 \<or> c = 115 \<or> c = 102 then Tk JSON_ESCAPE
      else if c = 108 then St IN_ESCAPE_L else if c = 73 then St IN_ESCAPE_I else St IN_ERROR)"
| "json_lexer IN_START c =
     (if c = 34 then St IN_DQ_STRING else if c = 39 then St IN_SQ_STRING
      else if c = 48 then St IN_ZERO else if is_digit c then St IN_NONZERO_NUMBER
      else if c = 45 then St IN_NEG_NONZERO_NUMBER
      else if c = 123 \<or> c = 125 \<or> c = 91 \<or> c = 93 \<or> c = 44 \<or> c = 58 then Tk JSON_OPERATOR
      else if is_lower c then St IN_KEYWORD else if c = 37 then St IN_ESCAPE
      else if is_space c then St IN_WHITESPACE else St IN_ERROR)"

section \<open>The lexer\<close>

record json_lexer_rec =
  lx_state :: json_lexer_state
  lx_token :: string
  lx_x :: i32
  lx_y :: i32

text \<open>A token as the call-back receives it. An oversized token is emitted with the state in place of a type.\<close>

record json_token =
  tk_value :: string
  tk_type :: lex_code
  tk_x :: i32
  tk_y :: i32

definition json_lexer_init :: json_lexer_rec where
  "json_lexer_init = \<lparr>lx_state = IN_START, lx_token = [], lx_x = 0, lx_y = 0\<rparr>"

definition lx_emit :: "json_lexer_rec \<Rightarrow> string \<Rightarrow> lex_code \<Rightarrow> json_token" where
  "lx_emit lx tok ty = \<lparr>tk_value = tok, tk_type = ty, tk_x = lx_x lx, tk_y = lx_y lx\<rparr>"

definition lx_restart :: "json_lexer_rec \<Rightarrow> json_lexer_rec" where
  "lx_restart lx = lx\<lparr>lx_state := IN_START, lx_token := []\<rparr>"

text \<open>A character that ends a token by lookahead is not consumed: the column of the NUL character tells.\<close>

lemma lookahead_code: "json_lexer st 0 = St s \<Longrightarrow> s = IN_ERROR"
  by (cases st) (simp_all add: TERMINAL_def char_classes)

lemma lookahead_start [simp]: "json_lexer IN_START 0 = St IN_ERROR"
  by (simp add: char_classes)

function feed_loop :: "char \<Rightarrow> bool \<Rightarrow> json_lexer_rec \<Rightarrow> json_token list \<Rightarrow> json_lexer_rec \<times> json_token list" where
  "feed_loop ch flush lx out =
     (let new_state = json_lexer (lx_state lx) (of_char ch);
          char_consumed = (json_lexer (lx_state lx) 0 \<noteq> new_state);
          tok = (if char_consumed then lx_token lx @ [ch] else lx_token lx)
      in case new_state of
           Tk t \<Rightarrow>
             let out' = (if t = JSON_SKIP then out else out @ [lx_emit lx tok (Tk t)]);
                 lx' = lx_restart lx
             in if \<not> char_consumed \<and> \<not> flush then feed_loop ch flush lx' out' else (lx', out')
         | St s \<Rightarrow>
             if s = IN_ERROR then (lx_restart lx, out @ [lx_emit lx tok (Tk JSON_ERROR)])
             else
               let lx' = lx\<lparr>lx_state := s, lx_token := tok\<rparr>
               in if \<not> char_consumed \<and> \<not> flush then feed_loop ch flush lx' out else (lx', out))"
  by pat_completeness auto

termination feed_loop
proof (relation "measure (\<lambda>(ch, flush, lx, out). if lx_state lx = IN_START then 0 else 1)", goal_cases)
  case (2 ch flush lx)
  then have False using lookahead_code[of "lx_state lx"] by metis
  then show ?case ..
next
  case (3 ch flush lx)
  then have "lx_state lx \<noteq> IN_START" by (metis lookahead_start lex_code.distinct(1))
  with 3 show ?case by (simp add: lx_restart_def)
qed simp

definition json_lexer_feed_char :: "char \<Rightarrow> bool \<Rightarrow> json_lexer_rec \<Rightarrow> json_lexer_rec \<times> json_token list" where
  "json_lexer_feed_char ch flush lx =
     (let lx = lx\<lparr>lx_x := lx_x lx + 1\<rparr>;
          lx = (if ch = CHR 0x0A then lx\<lparr>lx_x := 0, lx_y := lx_y lx + 1\<rparr> else lx);
          (lx, out) = feed_loop ch flush lx []
      in if MAX_TOKEN_SIZE < length (lx_token lx)
         then (lx_restart lx, out @ [lx_emit lx (lx_token lx) (St (lx_state lx))])
         else (lx, out))"

primrec json_lexer_feed :: "string \<Rightarrow> json_lexer_rec \<Rightarrow> json_lexer_rec \<times> json_token list" where
  "json_lexer_feed [] lx = (lx, [])"
| "json_lexer_feed (ch # buf) lx =
     (let (lx, out) = json_lexer_feed_char ch False lx;
          (lx, out') = json_lexer_feed buf lx
      in (lx, out @ out'))"

definition json_lexer_flush :: "json_lexer_rec \<Rightarrow> json_lexer_rec \<times> json_token list" where
  "json_lexer_flush lx =
     (if lx_state lx = IN_START then (lx, []) else json_lexer_feed_char (CHR 0x00) True lx)"

declare feed_loop.simps [simp del]

section \<open>A reference tokenizer\<close>

text \<open>The tokenizer without positions, size limit and loop: the pending state and text, one character at a
  time. A token that ends by lookahead is emitted before the character starts the next one.\<close>

type_synonym lex_pos = "json_lexer_state \<times> string"
type_synonym lex_item = "lex_code \<times> string"

definition lex_item :: "json_token_type \<Rightarrow> string \<Rightarrow> lex_item list" where
  "lex_item t tok = (if t = JSON_SKIP then [] else [(Tk t, tok)])"

definition lex_first :: "char \<Rightarrow> lex_pos \<times> lex_item list" where
  "lex_first c =
     (case json_lexer IN_START (of_char c) of
        St s \<Rightarrow> if s = IN_ERROR then ((IN_START, []), [(Tk JSON_ERROR, [])]) else ((s, [c]), [])
      | Tk t \<Rightarrow> ((IN_START, []), lex_item t [c]))"

fun lex_step :: "lex_pos \<Rightarrow> char \<Rightarrow> lex_pos \<times> lex_item list" where
  "lex_step (st, tok) c =
     (case json_lexer st (of_char c) of
        St s \<Rightarrow>
          if s = IN_ERROR
          then ((IN_START, []), [(Tk JSON_ERROR, if json_lexer st 0 = St IN_ERROR then tok else tok @ [c])])
          else ((s, tok @ [c]), [])
      | Tk t \<Rightarrow>
          if json_lexer st 0 = Tk t
          then (let (p, out) = lex_first c in (p, lex_item t tok @ out))
          else ((IN_START, []), lex_item t (tok @ [c])))"

primrec lex_run :: "lex_pos \<Rightarrow> string \<Rightarrow> lex_pos \<times> lex_item list" where
  "lex_run p [] = (p, [])"
| "lex_run p (c # cs) = (let (p, out) = lex_step p c; (p, out') = lex_run p cs in (p, out @ out'))"

definition lex_end :: "lex_pos \<Rightarrow> lex_item list" where
  "lex_end p =
     (if fst p = IN_START then []
      else case json_lexer (fst p) 0 of Tk t \<Rightarrow> lex_item t (snd p) | St _ \<Rightarrow> [(Tk JSON_ERROR, snd p)])"

definition lx_pos :: "json_lexer_rec \<Rightarrow> lex_pos" where
  "lx_pos lx = (lx_state lx, lx_token lx)"

definition tk_item :: "json_token \<Rightarrow> lex_item" where
  "tk_item t = (tk_type t, tk_value t)"

lemma tk_item_emit [simp]: "tk_item (lx_emit lx tok ty) = (ty, tok)"
  by (simp add: tk_item_def lx_emit_def)

lemma lx_pos_restart [simp]: "lx_pos (lx_restart lx) = (IN_START, [])" "lx_state (lx_restart lx) = IN_START"
  "lx_token (lx_restart lx) = []"
  by (simp_all add: lx_pos_def lx_restart_def)

lemma feed_loop_start:
  assumes "lx_state lx = IN_START" "lx_token lx = []"
  shows "map_prod lx_pos (map tk_item) (feed_loop c False lx out) =
    (fst (lex_first c), map tk_item out @ snd (lex_first c))"
  using assms
  by (subst feed_loop.simps)
     (auto simp: Let_def lex_first_def lex_item_def lx_pos_def simp del: json_lexer.simps split: lex_code.splits)

lemma feed_loop_step:
  "map_prod lx_pos (map tk_item) (feed_loop c False lx []) = lex_step (lx_pos lx) c"
proof (cases "json_lexer (lx_state lx) (of_char c)")
  case (St s)
  have "s = IN_ERROR" if "json_lexer (lx_state lx) 0 = St s" using that by (rule lookahead_code)
  then show ?thesis
    by (subst feed_loop.simps) (auto simp: Let_def St lx_pos_def simp del: json_lexer.simps)
next
  case (Tk t)
  show ?thesis
  proof (cases "json_lexer (lx_state lx) 0 = Tk t")
    case True
    then show ?thesis
      using feed_loop_start[of "lx_restart lx" c "if t = JSON_SKIP then [] else [lx_emit lx (lx_token lx) (Tk t)]"]
      by (subst feed_loop.simps)
         (auto simp: Let_def Tk lx_pos_def lex_item_def simp del: json_lexer.simps split: prod.splits if_splits)
  next
    case False
    then show ?thesis
      by (subst feed_loop.simps) (auto simp: Let_def Tk lx_pos_def lex_item_def simp del: json_lexer.simps)
  qed
qed

lemma lex_first_length: "length (snd (fst (lex_first c))) \<le> 1"
  by (auto simp: lex_first_def simp del: json_lexer.simps split: lex_code.splits)

lemma lex_step_length: "length (snd (fst (lex_step p c))) \<le> Suc (length (snd p))"
  using lex_first_length[of c]
  by (cases p) (auto simp: simp del: json_lexer.simps split: lex_code.splits prod.splits)

lemma feed_char_refines:
  assumes "length (lx_token lx) < MAX_TOKEN_SIZE"
  shows "map_prod lx_pos (map tk_item) (json_lexer_feed_char c False lx) = lex_step (lx_pos lx) c"
proof -
  define l where "l = (if c = CHR 0x0A then lx\<lparr>lx_x := 0, lx_y := lx_y lx + 1\<rparr> else lx\<lparr>lx_x := lx_x lx + 1\<rparr>)"
  have l: "lx_pos l = lx_pos lx" by (simp add: l_def lx_pos_def)
  obtain m out where m: "feed_loop c False l [] = (m, out)" by (cases "feed_loop c False l []")
  have r: "(lx_pos m, map tk_item out) = lex_step (lx_pos lx) c" using feed_loop_step[of c l] m l by simp
  have "length (snd (lx_pos m)) \<le> Suc (length (lx_token lx))"
    using lex_step_length[of "lx_pos lx" c] r[symmetric] by (simp add: lx_pos_def)
  then have "\<not> MAX_TOKEN_SIZE < length (lx_token m)" using assms by (simp add: lx_pos_def)
  moreover have "json_lexer_feed_char c False lx =
      (let (lx, out) = feed_loop c False l [] in
       if MAX_TOKEN_SIZE < length (lx_token lx)
       then (lx_restart lx, out @ [lx_emit lx (lx_token lx) (St (lx_state lx))]) else (lx, out))"
    by (simp add: json_lexer_feed_char_def l_def Let_def)
  ultimately have "json_lexer_feed_char c False lx = (m, out)" by (simp add: m)
  with r show ?thesis by simp
qed

lemma feed_refines:
  "length (lx_token lx) + length buf \<le> MAX_TOKEN_SIZE \<Longrightarrow>
   map_prod lx_pos (map tk_item) (json_lexer_feed buf lx) = lex_run (lx_pos lx) buf"
proof (induction buf arbitrary: lx)
  case (Cons c buf)
  obtain m out where m: "json_lexer_feed_char c False lx = (m, out)" by (cases "json_lexer_feed_char c False lx")
  have r: "lex_step (lx_pos lx) c = (lx_pos m, map tk_item out)"
    using feed_char_refines[of lx c] Cons.prems m by simp
  have "length (lx_token m) \<le> Suc (length (lx_token lx))"
    using lex_step_length[of "lx_pos lx" c] r by (simp add: lx_pos_def)
  with Cons.prems have "map_prod lx_pos (map tk_item) (json_lexer_feed buf m) = lex_run (lx_pos m) buf"
    by (intro Cons.IH) simp
  then show ?case by (cases "json_lexer_feed buf m") (auto simp: m r split: prod.splits)
qed simp

lemma flush_refines:
  assumes "length (lx_token lx) \<le> MAX_TOKEN_SIZE"
  shows "map tk_item (snd (json_lexer_flush lx)) = lex_end (lx_pos lx)"
proof (cases "lx_state lx = IN_START")
  case False
  show ?thesis
  proof (cases "json_lexer (lx_state lx) 0")
    case (St s)
    then have "s = IN_ERROR" by (rule lookahead_code)
    with St False show ?thesis
      by (simp add: json_lexer_flush_def json_lexer_feed_char_def feed_loop.simps lex_end_def lx_pos_def
          Let_def del: json_lexer.simps)
  next
    case (Tk t)
    with False show ?thesis
      by (simp add: json_lexer_flush_def json_lexer_feed_char_def feed_loop.simps lex_end_def lx_pos_def
          lex_item_def Let_def del: json_lexer.simps)
  qed
qed (simp add: json_lexer_flush_def lex_end_def lx_pos_def)

text \<open>All tokens of a text, as the parser sees them.\<close>

definition json_tokens :: "string \<Rightarrow> json_token list" where
  "json_tokens s =
     (let (lx, out) = json_lexer_feed s json_lexer_init in out @ snd (json_lexer_flush lx))"

definition lex_all :: "string \<Rightarrow> lex_item list" where
  "lex_all s = (let (p, out) = lex_run (IN_START, []) s in out @ lex_end p)"

lemma lex_run_length: "length (snd (fst (lex_run p s))) \<le> length (snd p) + length s"
proof (induction s arbitrary: p)
  case (Cons c s)
  show ?case
    using lex_step_length[of p c] Cons[of "fst (lex_step p c)"] by (auto split: prod.splits)
qed simp

lemma json_tokens_refine:
  assumes "length s \<le> MAX_TOKEN_SIZE"
  shows "map tk_item (json_tokens s) = lex_all s"
proof -
  obtain l out where l: "json_lexer_feed s json_lexer_init = (l, out)" by (cases "json_lexer_feed s json_lexer_init")
  have r: "lex_run (IN_START, []) s = (lx_pos l, map tk_item out)"
    using feed_refines[of json_lexer_init s] assms l by (simp add: json_lexer_init_def lx_pos_def)
  have "length (lx_token l) \<le> MAX_TOKEN_SIZE"
    using lex_run_length[of "(IN_START, [])" s] r assms by (simp add: lx_pos_def)
  then show ?thesis using flush_refines[of l] by (simp add: json_tokens_def lex_all_def l r)
qed

section \<open>Runs of the reference tokenizer\<close>

lemma lex_run_append:
  "lex_run p (xs @ ys) = (let (q, o1) = lex_run p xs; (r, o2) = lex_run q ys in (r, o1 @ o2))"
  by (induction xs arbitrary: p) (auto split: prod.splits)

lemma lex_run_stay:
  assumes "\<And>c. c \<in> set cs \<Longrightarrow> json_lexer st (of_char c) = St st" "st \<noteq> IN_ERROR"
  shows "lex_run (st, tok) cs = ((st, tok @ cs), [])"
  using assms by (induction cs arbitrary: tok) (simp_all del: json_lexer.simps)

text \<open>A text tokenized in pieces: only the concatenation matters.\<close>

lemma feed_append:
  "json_lexer_feed (xs @ ys) lx =
     (let (lx, o1) = json_lexer_feed xs lx; (lx, o2) = json_lexer_feed ys lx in (lx, o1 @ o2))"
  by (induction xs arbitrary: lx) (auto split: prod.splits)

section \<open>Escapes in single quotes\<close>

text \<open>
  Behind an escaped slash or backslash a string in single quotes is read on as one in double quotes: its closing
  quote is taken for a character, and the whole text is reported as one error token.
\<close>

theorem sq_escape_swallows:
  assumes "c \<in> {CHR ''/'', CHR 0x5C}" "list_all (\<lambda>x. in_text (of_char x) \<and> x \<notin> {CHR 0x22, CHR 0x5C}) rest"
    "length rest + 3 \<le> MAX_TOKEN_SIZE"
  shows "map tk_item (json_tokens (CHR 0x27 # CHR 0x5C # c # rest)) =
    [(Tk JSON_ERROR, CHR 0x27 # CHR 0x5C # c # rest)]"
proof -
  have stay: "json_lexer IN_DQ_STRING (of_char x) = St IN_DQ_STRING" if "x \<in> set rest" for x
  proof -
    have x: "in_text (of_char x)" "x \<noteq> CHR 0x22" "x \<noteq> CHR 0x5C" using assms(2) that by (auto simp: list_all_iff)
    from x(2,3) have "of_char x \<noteq> (of_char (CHR 0x22) :: nat)" "of_char x \<noteq> (of_char (CHR 0x5C) :: nat)"
      by (simp_all only: of_char_eq_iff not_False_eq_True)
    with x(1) show ?thesis by (simp add: of_char_def)
  qed
  have "lex_run (IN_START, []) (CHR 0x27 # CHR 0x5C # c # rest) = ((IN_DQ_STRING, CHR 0x27 # CHR 0x5C # c # rest), [])"
    using assms(1) lex_run_stay[OF stay, of rest "[CHR 0x27, CHR 0x5C, c]"] by (auto simp: is_digit_def)
  then show ?thesis
    using json_tokens_refine[of "CHR 0x27 # CHR 0x5C # c # rest"] assms(3)
    by (simp add: lex_all_def lex_end_def in_text_def)
qed

theorem sq_escape_swallows_witness:
  "map tk_item (json_tokens [CHR 0x27, CHR 0x5C, CHR ''/'', CHR 0x27]) =
     [(Tk JSON_ERROR, [CHR 0x27, CHR 0x5C, CHR ''/'', CHR 0x27])]"
  by (rule sq_escape_swallows) (simp_all add: in_text_def of_char_def MAX_TOKEN_SIZE_def)



end
