(* ===== verification/JSON_Parser.thy ===== *)
theory JSON_Parser
  imports JSON_Lexer QObjects
begin

text \<open>
  The JSON parser (\<^verbatim>\<open>json-parser.c\<close>): a recursive descent over the list of tokens of one
  message. The dictionary in which the source wraps a token is the record \<open>json_token\<close>; a parse
  function answers the object (or the null pointer), the tokens that are left and the arguments
  that are left of the variable argument list. The error object of the context is write-only for
  the callers of \<^verbatim>\<open>json_parser_parse\<close> and is not kept. The recursion carries fuel; running out
  of it is the fault \<open>Diverges\<close>, and \<open>parse_value_returns\<close> shows that it never happens with one unit
  more than there are tokens.
\<close>

section \<open>Token manipulators\<close>

definition token_is_operator :: "json_token \<Rightarrow> char \<Rightarrow> bool" where
  "token_is_operator obj op \<longleftrightarrow> tk_type obj = Tk JSON_OPERATOR \<and> tk_value obj = [op]"

definition token_is_keyword :: "json_token \<Rightarrow> string \<Rightarrow> bool" where
  "token_is_keyword obj value \<longleftrightarrow> tk_type obj = Tk JSON_KEYWORD \<and> tk_value obj = value"

definition token_is_escape :: "json_token \<Rightarrow> string \<Rightarrow> bool" where
  "token_is_escape obj value \<longleftrightarrow> tk_type obj = Tk JSON_ESCAPE \<and> tk_value obj = value"

section \<open>String helpers\<close>

definition chr :: "u16 \<Rightarrow> char" where
  "chr w = char_of (unat w)"

definition byte :: "char \<Rightarrow> u16" where
  "byte c = of_nat (of_char c)"

text \<open>The C string left in the buffer: a zero character ends it at once.\<close>

definition wchar_to_utf8 :: "u16 \<Rightarrow> string" where
  "wchar_to_utf8 wchar =
     (if wchar \<le> 0x7F then (if wchar = 0 then [] else [chr (wchar AND 0x7F)])
      else if wchar \<le> 0x7FF
      then [chr (0xC0 OR (drop_bit 6 wchar AND 0x1F)), chr (0x80 OR (wchar AND 0x3F))]
      else [chr (0xE0 OR (drop_bit 12 wchar AND 0x0F)), chr (0x80 OR (drop_bit 6 wchar AND 0x3F)),
            chr (0x80 OR (wchar AND 0x3F))])"

definition hex2decimal :: "char \<Rightarrow> int" where
  "hex2decimal ch =
     (let c = of_char ch
      in if 48 \<le> c \<and> c \<le> 57 then c - 48
         else if 97 \<le> c \<and> c \<le> 102 then 10 + (c - 97)
         else if 65 \<le> c \<and> c \<le> 70 then 10 + (c - 65)
         else - 1)"

text \<open>The loop over the four digits of a \<open>\u\<close> escape; \<open>i\<close> digits are still to be read.\<close>

fun unicode_digits :: "nat \<Rightarrow> string \<Rightarrow> u16 \<Rightarrow> (u16 \<times> string) option" where
  "unicode_digits 0 ptr unicode_char = Some (unicode_char, ptr)"
| "unicode_digits (Suc i) [] unicode_char = None"
| "unicode_digits (Suc i) (ch # ptr) unicode_char =
     (if is_xdigit (of_char ch)
      then unicode_digits i ptr (unicode_char OR push_bit (i * 4) (of_int (hex2decimal ch)))
      else None)"

definition escape_char :: "char \<Rightarrow> char option" where
  "escape_char ch =
     (if ch = CHR 0x22 then Some (CHR 0x22)
      else if ch = CHR 0x27 then Some (CHR 0x27)
      else if ch = CHR 0x5C then Some (CHR 0x5C)
      else if ch = CHR ''/'' then Some (CHR ''/'')
      else if ch = CHR ''b'' then Some (CHR 0x08)
      else if ch = CHR ''f'' then Some (CHR 0x0C)
      else if ch = CHR ''n'' then Some (CHR 0x0A)
      else if ch = CHR ''r'' then Some (CHR 0x0D)
      else if ch = CHR ''t'' then Some (CHR 0x09)
      else None)"

lemma unicode_digits_length: "unicode_digits i ptr u = Some (w, rest) \<Longrightarrow> length rest \<le> length ptr"
  by (induction i ptr u rule: unicode_digits.induct) (auto split: if_splits)

text \<open>The loop of \<^verbatim>\<open>qstring_from_escaped_str\<close> from \<open>ptr\<close> on.\<close>

function unescape :: "bool \<Rightarrow> string \<Rightarrow> string \<Rightarrow> string option" where
  "unescape double_quote [] str = Some str"
| "unescape double_quote (ch # ptr) str =
     (if ch = CHR 0x00 \<or> double_quote \<and> ch = CHR 0x22 \<or> \<not> double_quote \<and> ch = CHR 0x27 then Some str
      else if ch = CHR 0x5C then
        (case ptr of
           [] \<Rightarrow> None
         | e # ptr \<Rightarrow>
             if e = CHR ''u'' then
               (case unicode_digits 4 ptr 0 of
                  None \<Rightarrow> None
                | Some r \<Rightarrow> unescape double_quote (snd r) (str @ wchar_to_utf8 (fst r)))
             else
               (case escape_char e of
                  None \<Rightarrow> None
                | Some c \<Rightarrow> unescape double_quote ptr (str @ [c])))
      else unescape double_quote ptr (str @ [ch]))"
  by pat_completeness auto

termination unescape
  by (relation "measure (\<lambda>(_, ptr, _). length ptr)") (auto dest: unicode_digits_length)

text \<open>A token of type string has at least its opening quote.\<close>

definition qstring_from_escaped_str :: "json_token \<Rightarrow> string option result" where
  "qstring_from_escaped_str token =
     (case tk_value token of
        [] \<Rightarrow> Inl Out_Of_Bounds
      | q # ptr \<Rightarrow> Inr (unescape (q = CHR 0x22) ptr []))"

section \<open>Numbers\<close>

text \<open>\<^verbatim>\<open>strtoll\<close> in base 10: the longest prefix of digits after an optional sign, clamped.\<close>

primrec dec_value :: "int \<Rightarrow> string \<Rightarrow> int" where
  "dec_value acc [] = acc"
| "dec_value acc (c # cs) =
     (if is_digit (of_char c) then dec_value (acc * 10 + (of_char c - 48)) cs else acc)"

definition LLONG_MAX :: int where "LLONG_MAX = 9223372036854775807"
definition LLONG_MIN :: int where "LLONG_MIN = - 9223372036854775808"

definition strtoll :: "string \<Rightarrow> i64" where
  "strtoll s =
     (let v = (case s of
                 [] \<Rightarrow> 0
               | c # cs \<Rightarrow> if c = CHR ''-'' then - dec_value 0 cs else dec_value 0 s)
      in of_int (max LLONG_MIN (min LLONG_MAX v)))"

section \<open>Terminal rules\<close>

text \<open>The variable arguments by the type with which they were passed; \<open>None\<close> is the null list.\<close>

datatype va_arg =
    Va_QObject "qobject option" | Va_int i32 | Va_long i64 | Va_longlong i64 | Va_string string | Va_double u64

type_synonym va_list = "va_arg list option"
type_synonym parsed = "qobject option \<times> json_token list \<times> va_list"

definition parse_keyword :: "json_token list \<Rightarrow> va_list \<Rightarrow> parsed result" where
  "parse_keyword tokens ap =
     Inr (case tokens of
            [] \<Rightarrow> (None, tokens, ap)
          | token # working \<Rightarrow>
              if tk_type token \<noteq> Tk JSON_KEYWORD then (None, tokens, ap)
              else if token_is_keyword token ''true'' then (Some (QBool 1), working, ap)
              else if token_is_keyword token ''false'' then (Some (QBool 0), working, ap)
              else (None, tokens, ap))"

text \<open>\<^verbatim>\<open>va_arg\<close> past the end of the list, or with another type, is undefined.\<close>

definition parse_escape :: "json_token list \<Rightarrow> va_list \<Rightarrow> parsed result" where
  "parse_escape tokens ap =
     (case ap of
        None \<Rightarrow> Inr (None, tokens, ap)
      | Some args \<Rightarrow>
          (case tokens of
             [] \<Rightarrow> Inr (None, tokens, ap)
           | token # working \<Rightarrow>
               if token_is_escape token ''%p'' then
                 (case args of Va_QObject obj # rest \<Rightarrow> Inr (obj, working, Some rest) | _ \<Rightarrow> Inl Undefined)
               else if token_is_escape token ''%i'' then
                 (case args of Va_int v # rest \<Rightarrow> Inr (Some (QBool v), working, Some rest) | _ \<Rightarrow> Inl Undefined)
               else if token_is_escape token ''%d'' then
                 (case args of Va_int v # rest \<Rightarrow> Inr (Some (QInt (scast v)), working, Some rest) | _ \<Rightarrow> Inl Undefined)
               else if token_is_escape token ''%ld'' then
                 (case args of Va_long v # rest \<Rightarrow> Inr (Some (QInt v), working, Some rest) | _ \<Rightarrow> Inl Undefined)
               else if token_is_escape token ''%lld'' \<or> token_is_escape token ''%I64d'' then
                 (case args of Va_longlong v # rest \<Rightarrow> Inr (Some (QInt v), working, Some rest) | _ \<Rightarrow> Inl Undefined)
               else if token_is_escape token ''%s'' then
                 (case args of Va_string v # rest \<Rightarrow> Inr (Some (QString v), working, Some rest) | _ \<Rightarrow> Inl Undefined)
               else if token_is_escape token ''%f'' then
                 (case args of Va_double v # rest \<Rightarrow> Inr (Some (QFloat v), working, Some rest) | _ \<Rightarrow> Inl Undefined)
               else Inr (None, tokens, ap)))"

text \<open>The C library's \<^verbatim>\<open>strtod\<close> is a parameter. A string with a bad escape is consumed, and no object made.\<close>

definition parse_literal :: "(string \<Rightarrow> u64) \<Rightarrow> json_token list \<Rightarrow> va_list \<Rightarrow> parsed result" where
  "parse_literal strtod tokens ap =
     (case tokens of
        [] \<Rightarrow> Inr (None, tokens, ap)
      | token # working \<Rightarrow>
          (case tk_type token of
             Tk JSON_STRING \<Rightarrow>
               rbind (qstring_from_escaped_str token) (\<lambda>str. Inr (map_option QString str, working, ap))
           | Tk JSON_INTEGER \<Rightarrow> Inr (Some (QInt (strtoll (tk_value token))), working, ap)
           | Tk JSON_FLOAT \<Rightarrow> Inr (Some (QFloat (strtod (tk_value token))), working, ap)
           | _ \<Rightarrow> Inr (None, tokens, ap)))"

text \<open>The chain \<^verbatim>\<open>if (obj == NULL) obj = ...\<close> of \<^verbatim>\<open>parse_value\<close>: the next rule starts where the failed one left.\<close>

definition or_else :: "parsed result \<Rightarrow> (json_token list \<Rightarrow> va_list \<Rightarrow> parsed result) \<Rightarrow> parsed result" where
  "or_else m f = rbind m (\<lambda>(obj, tokens, ap). case obj of None \<Rightarrow> f tokens ap | Some _ \<Rightarrow> Inr (obj, tokens, ap))"

section \<open>Recursive rules\<close>

text \<open>
  The rules call each other through \<^verbatim>\<open>parse_value\<close> only, so they take it as the argument \<open>value_rule\<close>
  and \<open>parse_value\<close> ties the knot. \<open>parse_pairs\<close> and \<open>parse_elems\<close> are the loops of the object and
  the array rule; an iteration starts by popping the token that follows an entry, so the loop is
  given one unit of fuel per token. \<open>parse_pair\<close> answers the dictionary, or \<open>None\<close> for -1. A failed
  rule leaves the caller's tokens alone, but not the arguments it has taken.
\<close>

type_synonym rule = "json_token list \<Rightarrow> va_list \<Rightarrow> parsed result"
type_synonym 'a partly = "('a option \<times> json_token list \<times> va_list) result"

definition parse_pair :: "rule \<Rightarrow> qobject qdict \<Rightarrow> json_token list \<Rightarrow> va_list \<Rightarrow> qobject qdict partly" where
  "parse_pair value_rule dict tokens ap =
     (if tokens = [] then Inr (None, tokens, ap)
      else rbind (value_rule tokens ap) (\<lambda>(key, working, ap).
        case Option.bind key qobject_to_qstring of
          None \<Rightarrow> Inr (None, tokens, ap)
        | Some k \<Rightarrow>
            (case working of
               [] \<Rightarrow> Inr (None, tokens, ap)
             | token # working \<Rightarrow>
                 if \<not> token_is_operator token (CHR '':'') then Inr (None, tokens, ap)
                 else rbind (value_rule working ap) (\<lambda>(value, working, ap).
                   case value of
                     None \<Rightarrow> Inr (None, tokens, ap)
                   | Some v \<Rightarrow> Inr (Some (qdict_put_obj dict k v), working, ap)))))"

primrec parse_pairs :: "nat \<Rightarrow> rule \<Rightarrow> qobject qdict \<Rightarrow> json_token list \<Rightarrow> va_list \<Rightarrow> qobject qdict partly" where
  "parse_pairs 0 value_rule dict working ap = Inl Diverges"
| "parse_pairs (Suc n) value_rule dict working ap =
     (case working of
        [] \<Rightarrow> Inr (None, working, ap)
      | token # working \<Rightarrow>
          if token_is_operator token (CHR ''}'') then Inr (Some dict, working, ap)
          else if \<not> token_is_operator token (CHR '','') then Inr (None, working, ap)
          else rbind (parse_pair value_rule dict working ap) (\<lambda>(dict, working, ap).
                 case dict of
                   None \<Rightarrow> Inr (None, working, ap)
                 | Some dict \<Rightarrow> parse_pairs n value_rule dict working ap))"

definition parse_object :: "rule \<Rightarrow> rule" where
  "parse_object value_rule tokens ap =
     (case tokens of
        [] \<Rightarrow> Inr (None, tokens, ap)
      | token # working \<Rightarrow>
          if \<not> token_is_operator token (CHR ''{'') then Inr (None, tokens, ap)
          else (case working of
                  [] \<Rightarrow> Inr (None, tokens, ap)
                | peek # working' \<Rightarrow>
                    if token_is_operator peek (CHR ''}'') then Inr (Some (QDict qdict_new), working', ap)
                    else rbind (parse_pair value_rule qdict_new working ap) (\<lambda>(dict, working, ap).
                      case dict of
                        None \<Rightarrow> Inr (None, tokens, ap)
                      | Some dict \<Rightarrow>
                          rbind (parse_pairs (Suc (length working)) value_rule dict working ap) (\<lambda>(dict, working, ap).
                            case dict of
                              None \<Rightarrow> Inr (None, tokens, ap)
                            | Some dict \<Rightarrow> Inr (Some (QDict dict), working, ap)))))"

primrec parse_elems :: "nat \<Rightarrow> rule \<Rightarrow> qobject list \<Rightarrow> json_token list \<Rightarrow> va_list \<Rightarrow> qobject list partly" where
  "parse_elems 0 value_rule list working ap = Inl Diverges"
| "parse_elems (Suc n) value_rule list working ap =
     (case working of
        [] \<Rightarrow> Inr (None, working, ap)
      | token # working \<Rightarrow>
          if token_is_operator token (CHR '']'') then Inr (Some list, working, ap)
          else if \<not> token_is_operator token (CHR '','') then Inr (None, working, ap)
          else rbind (value_rule working ap) (\<lambda>(obj, working, ap).
                 case obj of
                   None \<Rightarrow> Inr (None, working, ap)
                 | Some obj \<Rightarrow> parse_elems n value_rule (qlist_append_obj list obj) working ap))"

definition parse_array :: "rule \<Rightarrow> rule" where
  "parse_array value_rule tokens ap =
     (case tokens of
        [] \<Rightarrow> Inr (None, tokens, ap)
      | token # working \<Rightarrow>
          if \<not> token_is_operator token (CHR ''['') then Inr (None, tokens, ap)
          else (case working of
                  [] \<Rightarrow> Inr (None, tokens, ap)
                | peek # working' \<Rightarrow>
                    if token_is_operator peek (CHR '']'') then Inr (Some (QList qlist_new), working', ap)
                    else rbind (value_rule working ap) (\<lambda>(obj, working, ap).
                      case obj of
                        None \<Rightarrow> Inr (None, tokens, ap)
                      | Some obj \<Rightarrow>
                          rbind (parse_elems (Suc (length working)) value_rule
                                   (qlist_append_obj qlist_new obj) working ap) (\<lambda>(list, working, ap).
                            case list of
                              None \<Rightarrow> Inr (None, tokens, ap)
                            | Some list \<Rightarrow> Inr (Some (QList list), working, ap)))))"

primrec parse_value :: "nat \<Rightarrow> (string \<Rightarrow> u64) \<Rightarrow> rule" where
  "parse_value 0 strtod = (\<lambda>tokens ap. Inl Diverges)"
| "parse_value (Suc n) strtod =
     (\<lambda>tokens ap.
        or_else (or_else (or_else (or_else (parse_object (parse_value n strtod) tokens ap)
          (parse_array (parse_value n strtod))) parse_escape) parse_keyword) (parse_literal strtod))"

text \<open>The nesting of the rules is bounded by the number of tokens, since every level takes its bracket.\<close>

definition json_parser_parse :: "(string \<Rightarrow> u64) \<Rightarrow> json_token list option \<Rightarrow> va_list \<Rightarrow> (qobject option \<times> va_list) result" where
  "json_parser_parse strtod tokens ap =
     (case tokens of
        None \<Rightarrow> Inr (None, ap)
      | Some tokens \<Rightarrow>
          rbind (parse_value (Suc (length tokens)) strtod tokens ap) (\<lambda>(obj, _, ap). Inr (obj, ap)))"

section \<open>The parser returns\<close>

text \<open>
  A rule is given \<open>ok safe\<close> input: when \<open>safe\<close> holds there are no variable arguments, and every string token
  has a text, as the lexer makes it. \<open>shrinks safe m r\<close>: the rule does not run out of fuel, leaves at most
  \<open>m\<close> tokens, which are again \<open>ok\<close>, and does not fault at all when \<open>safe\<close> holds.
\<close>

definition string_token_ok :: "json_token \<Rightarrow> bool" where
  "string_token_ok t \<longleftrightarrow> (tk_type t = Tk JSON_STRING \<longrightarrow> tk_value t \<noteq> [])"

definition input_ok :: "bool \<Rightarrow> json_token list \<Rightarrow> va_list \<Rightarrow> bool" where
  "input_ok safe tokens ap \<longleftrightarrow> (safe \<longrightarrow> ap = None \<and> list_all string_token_ok tokens)"

definition shrinks :: "bool \<Rightarrow> nat \<Rightarrow> 'a partly \<Rightarrow> bool" where
  "shrinks safe m r \<longleftrightarrow>
     (case r of Inl e \<Rightarrow> \<not> safe \<and> e \<noteq> Diverges
      | Inr (_, tokens, ap) \<Rightarrow> length tokens \<le> m \<and> input_ok safe tokens ap)"

definition rule_ok :: "bool \<Rightarrow> nat \<Rightarrow> rule \<Rightarrow> bool" where
  "rule_ok safe k f \<longleftrightarrow>
     (\<forall>tokens ap. length tokens \<le> k \<longrightarrow> input_ok safe tokens ap \<longrightarrow> shrinks safe (length tokens) (f tokens ap))"

lemma shrinks_Inr [simp]:
  "shrinks safe m (Inr (obj, tokens, ap)) \<longleftrightarrow> length tokens \<le> m \<and> input_ok safe tokens ap"
  by (simp add: shrinks_def)

lemma shrinks_Inl [simp]: "shrinks safe m (Inl e) \<longleftrightarrow> \<not> safe \<and> e \<noteq> Diverges"
  by (simp add: shrinks_def)

lemma input_ok_Cons [simp]: "input_ok safe (t # ts) ap \<longleftrightarrow> (safe \<longrightarrow> string_token_ok t) \<and> input_ok safe ts ap"
  by (auto simp: input_ok_def)

lemma shrinks_mono: "shrinks safe k r \<Longrightarrow> k \<le> m \<Longrightarrow> shrinks safe m r"
  by (auto simp: shrinks_def split: sum.splits)

lemma shrinks_rbind:
  assumes "shrinks safe k r"
    "\<And>obj tokens ap. length tokens \<le> k \<Longrightarrow> input_ok safe tokens ap \<Longrightarrow> shrinks safe m (f (obj, tokens, ap))"
  shows "shrinks safe m (rbind r f)"
  using assms by (cases r) (auto simp: shrinks_def)

lemma rule_okD:
  "rule_ok safe k f \<Longrightarrow> length tokens \<le> k \<Longrightarrow> input_ok safe tokens ap \<Longrightarrow> shrinks safe (length tokens) (f tokens ap)"
  by (simp add: rule_ok_def)

lemma rule_okI:
  "(\<And>tokens ap. length tokens \<le> k \<Longrightarrow> input_ok safe tokens ap \<Longrightarrow> shrinks safe (length tokens) (f tokens ap)) \<Longrightarrow>
   rule_ok safe k f"
  by (simp add: rule_ok_def)

lemma rule_ok_mono: "rule_ok safe k f \<Longrightarrow> j \<le> k \<Longrightarrow> rule_ok safe j f"
  by (simp add: rule_ok_def)

lemma shrinks_or_else:
  assumes "shrinks safe k r" "rule_ok safe k f"
  shows "shrinks safe k (or_else r f)"
  unfolding or_else_def
proof (rule shrinks_rbind[OF assms(1)])
  show "shrinks safe k ((\<lambda>(obj, tokens, ap). case obj of None \<Rightarrow> f tokens ap | Some _ \<Rightarrow> Inr (obj, tokens, ap)) (obj, tokens, ap))"
    if "length tokens \<le> k" "input_ok safe tokens ap" for obj tokens ap
    using that rule_okD[OF assms(2) that] by (auto intro: shrinks_mono split: option.splits)
qed

lemma parse_pair_shrinks:
  assumes "rule_ok safe k f" "length tokens \<le> k" "input_ok safe tokens ap"
  shows "shrinks safe (length tokens) (parse_pair f dict tokens ap)"
  unfolding parse_pair_def
  by (auto split: option.splits list.splits 
      intro!: shrinks_rbind[OF rule_okD[OF assms]] shrinks_rbind[OF rule_okD[OF assms(1)]])
     (use assms(2,3) in \<open>auto simp: input_ok_def\<close>)

lemma parse_pairs_shrinks:
  assumes "rule_ok safe k f"
  shows "length working \<le> k \<Longrightarrow> length working < n \<Longrightarrow> input_ok safe working ap \<Longrightarrow>
    shrinks safe (length working) (parse_pairs n f dict working ap)"
proof (induction n arbitrary: dict working ap)
  case (Suc n)
  show ?case
  proof (cases working)
    case (Cons token rest)
    have "shrinks safe (length rest) (parse_pair f dict rest ap)"
      using parse_pair_shrinks[OF assms] Suc.prems Cons by simp
    then have "shrinks safe (length working) (rbind (parse_pair f dict rest ap) (\<lambda>(dict, working, ap).
        case dict of None \<Rightarrow> Inr (None, working, ap) | Some dict \<Rightarrow> parse_pairs n f dict working ap))"
    proof (rule shrinks_rbind)
      show "shrinks safe (length working) ((\<lambda>(dict, working, ap). case dict of None \<Rightarrow> Inr (None, working, ap)
          | Some dict \<Rightarrow> parse_pairs n f dict working ap) (d, ts, a))"
        if "length ts \<le> length rest" "input_ok safe ts a" for d ts a
        using Suc.IH[of ts a] Suc.prems that Cons by (auto split: option.splits intro: shrinks_mono[of _ "length ts"])
    qed
    then show ?thesis using Suc.prems by (simp add: Cons)
  qed (use Suc.prems in simp)
qed simp

lemma parse_elems_shrinks:
  assumes "rule_ok safe k f"
  shows "length working \<le> k \<Longrightarrow> length working < n \<Longrightarrow> input_ok safe working ap \<Longrightarrow>
    shrinks safe (length working) (parse_elems n f list working ap)"
proof (induction n arbitrary: list working ap)
  case (Suc n)
  show ?case
  proof (cases working)
    case (Cons token rest)
    have "shrinks safe (length rest) (f rest ap)"
      using rule_okD[OF assms] Suc.prems Cons by simp
    then have "shrinks safe (length working) (rbind (f rest ap) (\<lambda>(obj, working, ap).
        case obj of None \<Rightarrow> Inr (None, working, ap)
        | Some obj \<Rightarrow> parse_elems n f (qlist_append_obj list obj) working ap))"
    proof (rule shrinks_rbind)
      show "shrinks safe (length working) ((\<lambda>(obj, working, ap). case obj of None \<Rightarrow> Inr (None, working, ap)
          | Some obj \<Rightarrow> parse_elems n f (qlist_append_obj list obj) working ap) (d, ts, a))"
        if "length ts \<le> length rest" "input_ok safe ts a" for d ts a
        using Suc.IH[of ts a] Suc.prems that Cons by (auto split: option.splits intro: shrinks_mono[of _ "length ts"])
    qed
    then show ?thesis using Suc.prems by (simp add: Cons)
  qed (use Suc.prems in simp)
qed simp

lemma parse_object_ok:
  assumes "rule_ok safe k f"
  shows "rule_ok safe (Suc k) (parse_object f)"
proof (rule rule_okI)
  fix tokens :: "json_token list" and ap :: va_list
  assume len: "length tokens \<le> Suc k" and ok: "input_ok safe tokens ap"
  show "shrinks safe (length tokens) (parse_object f tokens ap)"
  proof (cases tokens)
    case (Cons token rest)
    have l: "length rest \<le> k" "input_ok safe rest ap" using len ok Cons by auto
    have "shrinks safe (length tokens) (rbind (parse_pair f qdict_new rest ap) (\<lambda>(dict, working, ap).
        case dict of None \<Rightarrow> Inr (None, tokens, ap)
        | Some dict \<Rightarrow> rbind (parse_pairs (Suc (length working)) f dict working ap) (\<lambda>(dict, working, ap).
            case dict of None \<Rightarrow> Inr (None, tokens, ap) | Some dict \<Rightarrow> Inr (Some (QDict dict), working, ap))))"
      using l(1)
      by (auto intro!: shrinks_rbind[OF parse_pair_shrinks[OF assms l]] shrinks_rbind[OF parse_pairs_shrinks[OF assms]]
          simp: Cons simp del: parse_pairs.simps input_ok_Cons split: option.splits)
         (use ok Cons in \<open>auto simp: input_ok_def\<close>)
    from this[unfolded Cons] ok show ?thesis
      by (auto simp: parse_object_def Cons simp del: parse_pairs.simps split: list.splits)
  qed (use ok in \<open>simp add: parse_object_def\<close>)
qed

lemma parse_array_ok:
  assumes "rule_ok safe k f"
  shows "rule_ok safe (Suc k) (parse_array f)"
proof (rule rule_okI)
  fix tokens :: "json_token list" and ap :: va_list
  assume len: "length tokens \<le> Suc k" and ok: "input_ok safe tokens ap"
  show "shrinks safe (length tokens) (parse_array f tokens ap)"
  proof (cases tokens)
    case (Cons token rest)
    have l: "length rest \<le> k" "input_ok safe rest ap" using len ok Cons by auto
    have "shrinks safe (length tokens) (rbind (f rest ap) (\<lambda>(obj, working, ap).
        case obj of None \<Rightarrow> Inr (None, tokens, ap)
        | Some obj \<Rightarrow> rbind (parse_elems (Suc (length working)) f (qlist_append_obj qlist_new obj) working ap)
            (\<lambda>(list, working, ap).
            case list of None \<Rightarrow> Inr (None, tokens, ap) | Some list \<Rightarrow> Inr (Some (QList list), working, ap))))"
      using l(1)
      by (auto intro!: shrinks_rbind[OF rule_okD[OF assms l]] shrinks_rbind[OF parse_elems_shrinks[OF assms]]
          simp: Cons simp del: parse_elems.simps input_ok_Cons split: option.splits)
         (use ok Cons in \<open>auto simp: input_ok_def\<close>)
    from this[unfolded Cons] ok show ?thesis
      by (auto simp: parse_array_def Cons simp del: parse_elems.simps split: list.splits)
  qed (use ok in \<open>simp add: parse_array_def\<close>)
qed

lemma parse_keyword_ok: "rule_ok safe k parse_keyword"
  by (auto simp: rule_ok_def parse_keyword_def split: list.splits)

lemma parse_escape_ok: "rule_ok safe k parse_escape"
  by (auto simp: rule_ok_def parse_escape_def input_ok_def split: option.splits list.splits va_arg.splits)

lemma parse_literal_ok: "rule_ok safe k (parse_literal strtod)"
  by (auto simp: rule_ok_def parse_literal_def qstring_from_escaped_str_def string_token_ok_def
      split: list.splits lex_code.splits json_token_type.splits)

lemma parse_value_ok: "rule_ok safe n (parse_value (Suc n) strtod)"
proof (induction n)
  case 0
  show ?case
    by (auto simp: rule_ok_def parse_object_def parse_array_def or_else_def parse_escape_def parse_keyword_def
        parse_literal_def split: option.splits)
next
  case (Suc n)
  note ok = parse_object_ok[OF Suc] parse_array_ok[OF Suc]
  show ?case
    unfolding rule_ok_def parse_value.simps(2)[of "Suc n"]
    by (intro allI impI shrinks_or_else rule_okD[OF ok(1)] rule_ok_mono[OF ok(2)]
        parse_escape_ok parse_keyword_ok parse_literal_ok)
qed

lemma parse_value_returns:
  "length tokens < n \<Longrightarrow> input_ok safe tokens ap \<Longrightarrow> shrinks safe (length tokens) (parse_value n strtod tokens ap)"
  using rule_okD[OF parse_value_ok, of tokens "n - 1" safe ap strtod] by (cases n) simp_all

end
