(* ===== verification/JSON_Streamer.thy ===== *)
theory JSON_Streamer
  imports JSON_Parser
begin

text \<open>
  The message splitter (\<^verbatim>\<open>json-streamer.c\<close>) and the reader built on it (\<^verbatim>\<open>qjson.c\<close>): tokens are
  collected until the brackets balance, or a limit is passed, and the list is handed to a
  call-back; the reader's call-back parses it and keeps the result of the last message. The
  call-back does not look at the splitter, so the messages are collected in the order of the calls
  (\<open>None\<close> is the null list that reports a lexical error).
\<close>

section \<open>The splitter\<close>

definition MAX_NESTING :: int where "MAX_NESTING = 1024"

record json_message_parser =
  brace_count :: int
  bracket_count :: int
  tokens :: "json_token list"
  token_size :: nat

definition json_message_parser_init :: json_message_parser where
  "json_message_parser_init = \<lparr>brace_count = 0, bracket_count = 0, tokens = [], token_size = 0\<rparr>"

definition count_brackets :: "json_token \<Rightarrow> json_message_parser \<Rightarrow> json_message_parser" where
  "count_brackets token parser =
     (if tk_type token = Tk JSON_OPERATOR then
        (case tk_value token of
           [] \<Rightarrow> parser
         | c # _ \<Rightarrow>
             if c = CHR ''{'' then parser\<lparr>brace_count := brace_count parser + 1\<rparr>
             else if c = CHR ''}'' then parser\<lparr>brace_count := brace_count parser - 1\<rparr>
             else if c = CHR ''['' then parser\<lparr>bracket_count := bracket_count parser + 1\<rparr>
             else if c = CHR '']'' then parser\<lparr>bracket_count := bracket_count parser - 1\<rparr>
             else parser)
      else parser)"

type_synonym message = "json_token list option"

definition json_message_process_token :: "json_token \<Rightarrow> json_message_parser \<Rightarrow> json_message_parser \<times> message list" where
  "json_message_process_token token parser =
     (let parser = count_brackets token parser;
          parser = parser\<lparr>token_size := token_size parser + length (tk_value token),
                          tokens := qlist_append_obj (tokens parser) token\<rparr>
      in if tk_type token = Tk JSON_ERROR then (json_message_parser_init, [None])
         else if brace_count parser < 0 \<or> bracket_count parser < 0 \<or>
                 brace_count parser = 0 \<and> bracket_count parser = 0
         then (json_message_parser_init, [Some (tokens parser)])
         else if MAX_TOKEN_SIZE < token_size parser \<or> MAX_NESTING < bracket_count parser \<or>
                 MAX_NESTING < brace_count parser
         then (json_message_parser_init, [Some (tokens parser)])
         else (parser, []))"

text \<open>The lexer's call-backs of one buffer, in order.\<close>

primrec process_tokens :: "json_token list \<Rightarrow> json_message_parser \<Rightarrow> json_message_parser \<times> message list" where
  "process_tokens [] parser = (parser, [])"
| "process_tokens (t # ts) parser =
     (let (parser, out) = json_message_process_token t parser;
          (parser, out') = process_tokens ts parser
      in (parser, out @ out'))"

definition json_message_parser_feed ::
    "string \<Rightarrow> json_lexer_rec \<times> json_message_parser \<Rightarrow> (json_lexer_rec \<times> json_message_parser) \<times> message list" where
  "json_message_parser_feed buffer s =
     (let (lx, ts) = json_lexer_feed buffer (fst s);
          (parser, out) = process_tokens ts (snd s)
      in ((lx, parser), out))"

definition json_message_parser_flush ::
    "json_lexer_rec \<times> json_message_parser \<Rightarrow> (json_lexer_rec \<times> json_message_parser) \<times> message list" where
  "json_message_parser_flush s =
     (let (lx, ts) = json_lexer_flush (fst s);
          (parser, out) = process_tokens ts (snd s)
      in ((lx, parser), out))"

section \<open>Reading an object\<close>

text \<open>\<^verbatim>\<open>parse_json\<close>, called for every message; the result of an earlier one is overwritten.\<close>

definition parse_json :: "(string \<Rightarrow> u64) \<Rightarrow> message \<Rightarrow> qobject option \<times> va_list \<Rightarrow> (qobject option \<times> va_list) result" where
  "parse_json strtod msg s = json_parser_parse strtod msg (snd s)"

primrec run_messages :: "(string \<Rightarrow> u64) \<Rightarrow> message list \<Rightarrow> qobject option \<times> va_list \<Rightarrow> (qobject option \<times> va_list) result" where
  "run_messages strtod [] s = Inr s"
| "run_messages strtod (m # ms) s = rbind (parse_json strtod m s) (run_messages strtod ms)"

text \<open>A C string ends at its first zero byte.\<close>

definition c_string :: "string \<Rightarrow> string" where
  "c_string s = takeWhile (\<lambda>c. c \<noteq> CHR 0x00) s"

definition qobject_from_jsonv :: "(string \<Rightarrow> u64) \<Rightarrow> string \<Rightarrow> va_list \<Rightarrow> (qobject option \<times> va_list) result" where
  "qobject_from_jsonv strtod s ap =
     (let (p, fed) = json_message_parser_feed (c_string s) (json_lexer_init, json_message_parser_init);
          (_, flushed) = json_message_parser_flush p
      in run_messages strtod (fed @ flushed) (None, ap))"

definition qobject_from_json :: "(string \<Rightarrow> u64) \<Rightarrow> string \<Rightarrow> qobject option result" where
  "qobject_from_json strtod s = rbind (qobject_from_jsonv strtod s None) (\<lambda>(obj, _). Inr obj)"

definition qobject_from_jsonf :: "(string \<Rightarrow> u64) \<Rightarrow> string \<Rightarrow> va_arg list \<Rightarrow> qobject result" where
  "qobject_from_jsonf strtod s args =
     rbind (qobject_from_jsonv strtod s (Some args)) (\<lambda>(obj, _).
       case obj of None \<Rightarrow> Inl Assert_Failed | Some obj \<Rightarrow> Inr obj)"

section \<open>Messages of a text\<close>

lemma process_tokens_append:
  "process_tokens (xs @ ys) p =
     (let (q, o1) = process_tokens xs p; (r, o2) = process_tokens ys q in (r, o1 @ o2))"
  by (induction xs arbitrary: p) (auto split: prod.splits)

lemma from_jsonv_tokens:
  "qobject_from_jsonv strtod s ap =
     run_messages strtod (snd (process_tokens (json_tokens (c_string s)) json_message_parser_init)) (None, ap)"
  by (simp add: qobject_from_jsonv_def json_message_parser_feed_def json_message_parser_flush_def json_tokens_def
      process_tokens_append split: prod.splits)

text \<open>Between messages the splitter is in its initial state, and inside one the brackets are open within the limits.\<close>

definition wf_message_parser :: "json_message_parser \<Rightarrow> bool" where
  "wf_message_parser p \<longleftrightarrow>
     p = json_message_parser_init \<or>
     0 \<le> brace_count p \<and> 0 \<le> bracket_count p \<and> 0 < brace_count p + bracket_count p \<and>
     brace_count p \<le> MAX_NESTING \<and> bracket_count p \<le> MAX_NESTING \<and> token_size p \<le> MAX_TOKEN_SIZE \<and>
     token_size p = sum_list (map (length \<circ> tk_value) (tokens p)) \<and>
     (\<forall>t \<in> set (tokens p). tk_type t \<noteq> Tk JSON_ERROR)"

lemma wf_init [simp]: "wf_message_parser json_message_parser_init"
  by (simp add: wf_message_parser_def)

lemma count_brackets_other [simp]:
  "tokens (count_brackets t p) = tokens p" "token_size (count_brackets t p) = token_size p"
  by (auto simp: count_brackets_def split: list.splits)

lemma process_token_wf:
  assumes "wf_message_parser p"
  shows "wf_message_parser (fst (json_message_process_token t p))"
proof -
  have s: "token_size p = sum_list (map (length \<circ> tk_value) (tokens p))" "\<forall>t \<in> set (tokens p). tk_type t \<noteq> Tk JSON_ERROR"
    using assms by (auto simp: wf_message_parser_def json_message_parser_init_def)
  show ?thesis
    using s by (auto simp: json_message_process_token_def Let_def wf_message_parser_def qlist_append_obj_def)
qed

lemma process_tokens_wf: "wf_message_parser p \<Longrightarrow> wf_message_parser (fst (process_tokens ts p))"
proof (induction ts arbitrary: p)
  case (Cons t ts)
  then show ?case using process_token_wf[of p t] by (auto split: prod.splits) (metis fst_conv)
qed simp

text \<open>Parsing a message returns, and a message without arguments whose string tokens have a text parses without fault.\<close>

definition message_ok :: "message \<Rightarrow> bool" where
  "message_ok m \<longleftrightarrow> (case m of None \<Rightarrow> True | Some ts \<Rightarrow> list_all string_token_ok ts)"

lemma parse_json_returns: "parse_json strtod m s \<noteq> Inl Diverges"
proof (cases m)
  case (Some ts)
  have "shrinks False (length ts) (parse_value (Suc (length ts)) strtod ts (snd s))"
    by (rule parse_value_returns) (simp_all add: input_ok_def)
  then show ?thesis
    using Some by (auto simp: parse_json_def json_parser_parse_def rbind_eq_Inl_iff simp del: parse_value.simps)
qed (simp add: parse_json_def json_parser_parse_def)

lemma run_messages_returns: "run_messages strtod ms s \<noteq> Inl Diverges"
  by (induction ms arbitrary: s) (auto simp: rbind_eq_Inl_iff parse_json_returns)

lemma parse_json_total:
  assumes "message_ok m"
  shows "\<exists>obj. parse_json strtod m (res, None) = Inr (obj, None)"
proof (cases m)
  case (Some ts)
  have "shrinks True (length ts) (parse_value (Suc (length ts)) strtod ts None)"
    using assms Some by (intro parse_value_returns) (simp_all add: input_ok_def message_ok_def)
  then show ?thesis
    using Some by (cases "parse_value (Suc (length ts)) strtod ts None")
      (auto simp: parse_json_def json_parser_parse_def input_ok_def simp del: parse_value.simps)
qed (simp add: parse_json_def json_parser_parse_def)

lemma run_messages_total:
  "list_all message_ok ms \<Longrightarrow> \<exists>obj. run_messages strtod ms (res, None) = Inr (obj, None)"
proof (induction ms arbitrary: res)
  case (Cons m ms)
  then obtain obj where "parse_json strtod m (res, None) = Inr (obj, None)"
    using parse_json_total[of m strtod res] by auto
  then show ?case using Cons by simp
qed simp

lemma process_token_messages:
  assumes "string_token_ok t" "list_all string_token_ok (tokens p)"
  shows "list_all string_token_ok (tokens (fst (json_message_process_token t p)))"
    and "list_all message_ok (snd (json_message_process_token t p))"
  using assms
  by (auto simp: json_message_process_token_def Let_def qlist_append_obj_def json_message_parser_init_def message_ok_def)

lemma process_tokens_messages:
  "list_all string_token_ok ts \<Longrightarrow> list_all string_token_ok (tokens p) \<Longrightarrow>
   list_all message_ok (snd (process_tokens ts p))"
proof (induction ts arbitrary: p)
  case (Cons t ts)
  show ?case
    using Cons.IH[of "fst (json_message_process_token t p)"] Cons.prems process_token_messages[of t p]
    by (auto split: prod.splits)
qed simp

text \<open>The lexer takes the closing quote into the token, so a string token is never empty.\<close>

lemma lexer_string_consumes: "json_lexer st 0 \<noteq> Tk JSON_STRING"
  by (cases st) (simp_all add: TERMINAL_def char_classes)

lemma string_token_emit [simp]: "string_token_ok (lx_emit lx tok ty) \<longleftrightarrow> (ty = Tk JSON_STRING \<longrightarrow> tok \<noteq> [])"
  by (simp add: string_token_ok_def lx_emit_def)

lemma feed_loop_strings:
  "list_all string_token_ok out \<Longrightarrow> list_all string_token_ok (snd (feed_loop ch flush lx out))"
proof (induction ch flush lx out rule: feed_loop.induct)
  case (1 ch flush lx out)
  show ?case
    using 1 lexer_string_consumes[of "lx_state lx"]
    by (subst feed_loop.simps)
       (auto simp: Let_def simp del: json_lexer.simps split: lex_code.splits)
qed

lemma feed_char_strings: "list_all string_token_ok (snd (json_lexer_feed_char ch flush lx))"
proof -
  have "list_all string_token_ok (snd (feed_loop ch flush l []))" for l by (rule feed_loop_strings) simp
  then have "feed_loop ch flush l [] = (m, out) \<Longrightarrow> list_all string_token_ok out" for l m out
    by (metis snd_conv)
  then show ?thesis by (auto simp: json_lexer_feed_char_def Let_def split: prod.splits)
qed

lemma feed_strings: "list_all string_token_ok (snd (json_lexer_feed buf lx))"
proof (induction buf arbitrary: lx)
  case (Cons c buf)
  then show ?case using feed_char_strings[of c False lx] by (auto split: prod.splits) (metis snd_conv)
qed simp

lemma json_tokens_strings: "list_all string_token_ok (json_tokens s)"
  using feed_strings[of s json_lexer_init] feed_char_strings
  by (auto simp: json_tokens_def json_lexer_flush_def split: prod.splits)


end
