(* ===== verification/JSON_Types.thy ===== *)
theory JSON_Types
  imports JSON_Streamer
begin

text \<open>
  What the JSON reader builds is well-formed: every dictionary inside the object is a proper hash table. The
  proof follows the rules of the parser with a typing judgement on their results.
\<close>

primrec wf_qobject :: "qobject \<Rightarrow> bool" where
  "wf_qobject (QInt v) = True"
| "wf_qobject (QString s) = True"
| "wf_qobject (QDict d) = (wf_qdict d \<and> list_all snd (entries_list (map_qdict wf_qobject d)))"
| "wf_qobject (QList xs) = list_all id (map wf_qobject xs)"
| "wf_qobject (QFloat v) = True"
| "wf_qobject (QBool v) = True"

lemma wf_qobject_dict: "wf_qobject (QDict d) \<longleftrightarrow> wf_qdict d \<and> (\<forall>k obj. qdict_get d k = Some obj \<longrightarrow> wf_qobject obj)"
proof (cases "wf_qdict d")
  case True
  have "list_all snd (entries_list (map_qdict wf_qobject d)) \<longleftrightarrow> (\<forall>e \<in> set (entries_list d). wf_qobject (snd e))"
    by (auto simp: entries_map list_all_iff)
  also have "\<dots> \<longleftrightarrow> (\<forall>k obj. (k, obj) \<in> set (entries_list d) \<longrightarrow> wf_qobject obj)" by auto
  also have "\<dots> \<longleftrightarrow> (\<forall>k obj. qdict_get d k = Some obj \<longrightarrow> wf_qobject obj)"
    using entries_list_distinct[OF True] by (simp add: entries_list_get[OF True, symmetric])
  finally show ?thesis using True by simp
qed simp

lemma wf_qobject_put:
  assumes "wf_qobject (QDict d)" "wf_qobject v"
  shows "wf_qobject (QDict (qdict_put_obj d k v))"
  using assms by (auto simp: wf_qobject_dict wf_qdict_put qdict_get_put simp del: wf_qobject.simps)

lemma wf_qobject_new: "wf_qobject (QDict qdict_new)"
  by (simp add: wf_qobject_dict wf_qdict_new qdict_get_new del: wf_qobject.simps)

section \<open>Typed rules\<close>

definition args_wf :: "va_list \<Rightarrow> bool" where
  "args_wf ap \<longleftrightarrow> (\<forall>args obj. ap = Some args \<longrightarrow> Va_QObject (Some obj) \<in> set args \<longrightarrow> wf_qobject obj)"

definition typed :: "('a \<Rightarrow> bool) \<Rightarrow> 'a partly \<Rightarrow> bool" where
  "typed P r \<longleftrightarrow> ensures (\<lambda>(obj, ts, ap). (\<forall>x. obj = Some x \<longrightarrow> P x) \<and> args_wf ap) r"

definition rule_typed :: "rule \<Rightarrow> bool" where
  "rule_typed f \<longleftrightarrow> (\<forall>ts ap. args_wf ap \<longrightarrow> typed wf_qobject (f ts ap))"

lemma typed_Inl [simp]: "typed P (Inl e)"
  by (simp add: typed_def)

lemma typed_Inr [simp]: "typed P (Inr (obj, ts, ap)) \<longleftrightarrow> (\<forall>x. obj = Some x \<longrightarrow> P x) \<and> args_wf ap"
  by (simp add: typed_def)

lemma typed_rbind:
  assumes "typed P r"
    "\<And>obj ts ap. (\<forall>x. obj = Some x \<longrightarrow> P x) \<Longrightarrow> args_wf ap \<Longrightarrow> typed Q (f (obj, ts, ap))"
  shows "typed Q (rbind r f)"
  using assms by (cases r) auto

lemma rule_typedD: "rule_typed f \<Longrightarrow> args_wf ap \<Longrightarrow> typed wf_qobject (f ts ap)"
  by (simp add: rule_typed_def)

lemma typed_or_else: "typed wf_qobject r \<Longrightarrow> rule_typed f \<Longrightarrow> typed wf_qobject (or_else r f)"
  unfolding or_else_def
  by (erule typed_rbind) (auto simp: rule_typed_def split: option.splits)

abbreviation wf_dict :: "qobject qdict \<Rightarrow> bool" where
  "wf_dict d \<equiv> wf_qobject (QDict d)"

lemma parse_pair_typed:
  assumes "rule_typed f" "wf_dict dict" "args_wf ap"
  shows "typed wf_dict (parse_pair f dict ts ap)"
  unfolding parse_pair_def using assms
  by (auto split: option.splits list.splits simp del: wf_qobject.simps
      intro!: typed_rbind[OF rule_typedD[OF assms(1)]] wf_qobject_put)

lemma parse_pairs_typed:
  assumes "rule_typed f"
  shows "wf_dict dict \<Longrightarrow> args_wf ap \<Longrightarrow> typed wf_dict (parse_pairs n f dict ts ap)"
proof (induction n arbitrary: dict ts ap)
  case (Suc n)
  then show ?case
    by (auto split: option.splits list.splits simp del: wf_qobject.simps
        intro!: typed_rbind[OF parse_pair_typed[OF assms]])
qed simp

lemma parse_elems_typed:
  assumes "rule_typed f"
  shows "list_all wf_qobject list \<Longrightarrow> args_wf ap \<Longrightarrow> typed (list_all wf_qobject) (parse_elems n f list ts ap)"
proof (induction n arbitrary: list ts ap)
  case (Suc n)
  then show ?case
    by (auto split: option.splits list.splits simp: qlist_append_obj_def
        intro!: typed_rbind[OF rule_typedD[OF assms]])
qed simp

lemma parse_object_typed: "rule_typed f \<Longrightarrow> rule_typed (parse_object f)"
  unfolding rule_typed_def[of "parse_object f"]
proof (intro allI impI)
  fix ts ap assume f: "rule_typed f" and ap: "args_wf ap"
  show "typed wf_qobject (parse_object f ts ap)"
    unfolding parse_object_def using ap
    by (auto split: option.splits list.splits simp: wf_qobject_new simp del: wf_qobject.simps(3) parse_pairs.simps
        intro!: typed_rbind[OF parse_pair_typed[OF f wf_qobject_new]] typed_rbind[OF parse_pairs_typed[OF f]])
qed

lemma parse_array_typed: "rule_typed f \<Longrightarrow> rule_typed (parse_array f)"
  unfolding rule_typed_def[of "parse_array f"]
proof (intro allI impI)
  fix ts ap assume f: "rule_typed f" and ap: "args_wf ap"
  show "typed wf_qobject (parse_array f ts ap)"
    unfolding parse_array_def using ap
    by (auto split: option.splits list.splits simp: qlist_new_def qlist_append_obj_def list_all_iff
        simp del: parse_elems.simps
        intro!: typed_rbind[OF rule_typedD[OF f]] typed_rbind[OF parse_elems_typed[OF f]])
qed

lemma parse_escape_typed: "rule_typed parse_escape"
  by (auto simp: rule_typed_def parse_escape_def args_wf_def split: option.splits list.splits va_arg.splits)

lemma parse_keyword_typed: "rule_typed parse_keyword"
  by (auto simp: rule_typed_def parse_keyword_def split: list.splits)

lemma parse_literal_typed: "rule_typed (parse_literal strtod)"
  by (auto simp: rule_typed_def parse_literal_def qstring_from_escaped_str_def
      split: list.splits lex_code.splits json_token_type.splits)

lemma parse_value_typed: "rule_typed (parse_value n strtod)"
proof (induction n)
  case (Suc n)
  show ?case
    unfolding rule_typed_def parse_value.simps
    by (intro allI impI typed_or_else rule_typedD[OF parse_object_typed[OF Suc]] parse_array_typed[OF Suc]
        parse_escape_typed parse_keyword_typed parse_literal_typed)
qed (simp add: rule_typed_def)

lemma run_messages_typed:
  "args_wf (snd s) \<Longrightarrow> (\<forall>x. fst s = Some x \<longrightarrow> wf_qobject x) \<Longrightarrow>
   ensures (\<lambda>r. (\<forall>x. fst r = Some x \<longrightarrow> wf_qobject x) \<and> args_wf (snd r)) (run_messages strtod ms s)"
proof (induction ms arbitrary: s)
  case (Cons m ms)
  have "ensures (\<lambda>r. (\<forall>x. fst r = Some x \<longrightarrow> wf_qobject x) \<and> args_wf (snd r)) (parse_json strtod m s)"
  proof (cases m)
    case (Some ts)
    show ?thesis
      using rule_typedD[OF parse_value_typed Cons.prems(1), of "Suc (length ts)" strtod ts]
      by (auto simp: Some parse_json_def json_parser_parse_def typed_def ensures_def rbind_eq_Inr_iff
          simp del: parse_value.simps)
  qed (use Cons.prems in \<open>simp add: parse_json_def json_parser_parse_def\<close>)
  then show ?case unfolding run_messages.simps by (rule ensures_rbindI) (simp add: Cons.IH)
qed simp

lemma from_json_wf: "qobject_from_json strtod s = Inr (Some obj) \<Longrightarrow> wf_qobject obj"
  using run_messages_typed[of "(None, None)" strtod "snd (process_tokens (json_tokens (c_string s)) json_message_parser_init)"]
  by (auto simp: qobject_from_json_def from_jsonv_tokens ensures_def rbind_eq_Inr_iff args_wf_def)

text \<open>
  C16: On every text the reader answers the null pointer or an object in which every dictionary is a well-formed hash
  table.
\<close>

theorem json_reader_typed: "\<exists>obj. qobject_from_json strtod s = Inr obj \<and> pred_option wf_qobject obj"
proof -
  have "list_all message_ok (snd (process_tokens (json_tokens (c_string s)) json_message_parser_init))"
    by (rule process_tokens_messages) (simp_all add: json_tokens_strings json_message_parser_init_def)
  from run_messages_total[OF this, of strtod None] obtain obj where "qobject_from_json strtod s = Inr obj"
    by (auto simp: qobject_from_json_def from_jsonv_tokens)
  then show ?thesis using from_json_wf[of strtod s] by (cases obj) auto
qed

end
