(* ===== verification/QJSON.thy ===== *)
theory QJSON
  imports JSON_Streamer
begin

text \<open>
  The JSON writer (\<^verbatim>\<open>qjson.c\<close>) and the round trip through the reader. The text is appended to a
  string that is passed along, as the source appends to its \<^verbatim>\<open>QString\<close>; the iterators of lists and
  dictionaries get the writer of an element in place of the element. \<^verbatim>\<open>snprintf\<close> of a double with
  \<^verbatim>\<open>%f\<close> is the parameter \<open>fmt_f\<close>.
\<close>

section \<open>Formatting\<close>

definition digit_char :: "nat \<Rightarrow> char" where
  "digit_char d = char_of (if d < 10 then 48 + d else 55 + d)"

fun dec_digits :: "nat \<Rightarrow> string" where
  "dec_digits n = (if n < 10 then [digit_char n] else dec_digits (n div 10) @ [digit_char (n mod 10)])"

fun hex_digits :: "nat \<Rightarrow> string" where
  "hex_digits n = (if n < 16 then [digit_char n] else hex_digits (n div 16) @ [digit_char (n mod 16)])"

declare dec_digits.simps [simp del] hex_digits.simps [simp del]

text \<open>The conversions \<^verbatim>\<open>%PRId64\<close> and \<^verbatim>\<open>%04X\<close>, and the truncation by \<^verbatim>\<open>snprintf\<close> to a buffer of \<open>n\<close> bytes.\<close>

definition fmt_d64 :: "i64 \<Rightarrow> string" where
  "fmt_d64 v = (if sint v < 0 then CHR ''-'' # dec_digits (nat (- sint v)) else dec_digits (nat (sint v)))"

definition fmt_04X :: "u32 \<Rightarrow> string" where
  "fmt_04X v = (let ds = hex_digits (unat v) in replicate (4 - length ds) (CHR ''0'') @ ds)"

definition snprintf_to :: "nat \<Rightarrow> string \<Rightarrow> string" where
  "snprintf_to n s = take (n - 1) s"

section \<open>Strings\<close>

text \<open>The character \<open>k\<close> places after the current one; the terminating zero at the end.\<close>

definition ptr_at :: "string \<Rightarrow> nat \<Rightarrow> u16" where
  "ptr_at ptr k = (if k < length ptr then byte (ptr ! k) else 0)"

text \<open>\<^verbatim>\<open>char\<close> is signed: a byte with its top bit set is negative, and not above 0x1F.\<close>

definition promote_char :: "char \<Rightarrow> u32" where
  "promote_char c = (if of_char c < (128 :: nat) then of_nat (of_char c) else of_nat (of_char c) - 256)"

definition uescape :: "u32 \<Rightarrow> string" where
  "uescape v = snprintf_to 7 ([CHR 0x5C, CHR ''u''] @ fmt_04X v)"

definition escape_one :: "char \<Rightarrow> string" where
  "escape_one c =
     (if c = CHR 0x22 then [CHR 0x5C, CHR 0x22]
      else if c = CHR 0x5C then [CHR 0x5C, CHR 0x5C]
      else if c = CHR 0x08 then [CHR 0x5C, CHR ''b'']
      else if c = CHR 0x0C then [CHR 0x5C, CHR ''f'']
      else if c = CHR 0x0A then [CHR 0x5C, CHR ''n'']
      else if c = CHR 0x0D then [CHR 0x5C, CHR ''r'']
      else if c = CHR 0x09 then [CHR 0x5C, CHR ''t'']
      else if sint (promote_char c) \<le> 0x1F then uescape (promote_char c)
      else [c])"

function escape_chars :: "string \<Rightarrow> string" where
  "escape_chars [] = []"
| "escape_chars (c # ptr) =
     (let p = ptr_at (c # ptr)
      in if c = CHR 0x00 then []
         else if p 0 AND 0xE0 = 0xE0 \<and> p 1 AND 0x80 \<noteq> 0 \<and> p 2 AND 0x80 \<noteq> 0 then
           uescape (ucast (push_bit 12 (p 0 AND 0x0F) OR push_bit 6 (p 1 AND 0x3F) OR (p 2 AND 0x3F)))
             @ escape_chars (drop 2 ptr)
         else if p 0 AND 0xE0 = 0xC0 \<and> p 1 AND 0x80 \<noteq> 0 then
           uescape (ucast (push_bit 6 (p 0 AND 0x1F) OR (p 1 AND 0x3F))) @ escape_chars (drop 1 ptr)
         else escape_one c @ escape_chars ptr)"
  by pat_completeness auto

termination escape_chars
  by (relation "measure length") auto

definition to_json_string :: "string \<Rightarrow> string \<Rightarrow> string" where
  "to_json_string val str = str @ [CHR 0x22] @ escape_chars val @ [CHR 0x22]"

section \<open>Values\<close>

record to_json_iter_state =
  it_indent :: nat
  it_pretty :: bool
  it_count :: nat
  it_str :: string

text \<open>A writer of an object: the string so far, the pretty flag and the indentation.\<close>

type_synonym json_writer = "string \<Rightarrow> bool \<Rightarrow> nat \<Rightarrow> string"

definition newline_indent :: "nat \<Rightarrow> string" where
  "newline_indent indent = CHR 0x0A # replicate (4 * indent) (CHR '' '')"

definition iter_prefix :: "to_json_iter_state \<Rightarrow> to_json_iter_state" where
  "iter_prefix s =
     (let s = (if it_count s \<noteq> 0 then s\<lparr>it_str := it_str s @ '', ''\<rparr> else s)
      in if it_pretty s then s\<lparr>it_str := it_str s @ newline_indent (it_indent s)\<rparr> else s)"

definition to_json_dict_iter :: "string \<Rightarrow> json_writer \<Rightarrow> to_json_iter_state \<Rightarrow> to_json_iter_state" where
  "to_json_dict_iter key obj s =
     (let s = iter_prefix s;
          s = s\<lparr>it_str := to_json_string key (it_str s)\<rparr>;
          s = s\<lparr>it_str := it_str s @ '': ''\<rparr>;
          s = s\<lparr>it_str := obj (it_str s) (it_pretty s) (it_indent s)\<rparr>
      in s\<lparr>it_count := it_count s + 1\<rparr>)"

definition to_json_list_iter :: "json_writer \<Rightarrow> to_json_iter_state \<Rightarrow> to_json_iter_state" where
  "to_json_list_iter obj s =
     (let s = iter_prefix s;
          s = s\<lparr>it_str := obj (it_str s) (it_pretty s) (it_indent s)\<rparr>
      in s\<lparr>it_count := it_count s + 1\<rparr>)"

definition iter_start :: "string \<Rightarrow> bool \<Rightarrow> nat \<Rightarrow> to_json_iter_state" where
  "iter_start str pretty indent = \<lparr>it_indent = indent + 1, it_pretty = pretty, it_count = 0, it_str = str\<rparr>"

text \<open>Trailing zeros and a trailing point are cut off.\<close>

definition to_json_float :: "string \<Rightarrow> string" where
  "to_json_float buffer =
     (let b = rev (dropWhile (\<lambda>c. c = CHR ''0'') (rev buffer))
      in if b \<noteq> [] \<and> last b = CHR ''.'' then butlast b else b)"

primrec to_json :: "(u64 \<Rightarrow> string) \<Rightarrow> qobject \<Rightarrow> json_writer" where
  "to_json fmt_f (QInt val) = (\<lambda>str pretty indent. str @ snprintf_to 1024 (fmt_d64 val))"
| "to_json fmt_f (QString val) = (\<lambda>str pretty indent. to_json_string val str)"
| "to_json fmt_f (QDict val) =
     (\<lambda>str pretty indent.
        let s = qdict_iter (map_qdict (to_json fmt_f) val) to_json_dict_iter (iter_start (str @ ''{'') pretty indent);
            str = it_str s @ (if pretty then newline_indent indent else [])
        in str @ ''}'')"
| "to_json fmt_f (QList val) =
     (\<lambda>str pretty indent.
        let s = qlist_iter (map (to_json fmt_f) val) to_json_list_iter (iter_start (str @ ''['') pretty indent);
            str = it_str s @ (if pretty then newline_indent indent else [])
        in str @ '']'')"
| "to_json fmt_f (QFloat val) =
     (\<lambda>str pretty indent. str @ to_json_float (snprintf_to 1024 (fmt_f val)))"
| "to_json fmt_f (QBool val) = (\<lambda>str pretty indent. str @ (if val \<noteq> 0 then ''true'' else ''false''))"

definition qobject_to_json :: "(u64 \<Rightarrow> string) \<Rightarrow> qobject \<Rightarrow> string" where
  "qobject_to_json fmt_f obj = to_json fmt_f obj [] False 0"

definition qobject_to_json_pretty :: "(u64 \<Rightarrow> string) \<Rightarrow> qobject \<Rightarrow> string" where
  "qobject_to_json_pretty fmt_f obj = to_json fmt_f obj [] True 0"

end
