(* ===== verification/JSON_Strings.thy ===== *)
theory JSON_Strings
  imports QJSON
begin

text \<open>
  The leaves of the JSON texts: hexadecimal escapes, strings through the writer's escaping and the parser's
  unescaping (with the tokenizer staying inside the quotes), decimal numbers through \<^verbatim>\<open>strtoll\<close>, and
  the characters outside the basic plane, which the writer breaks.
\<close>

section \<open>Hexadecimal escapes\<close>


lemma of_char_int: "(of_char c :: int) = int (of_char c)"
  by (cases c) (simp add: of_char_def horner_sum_simps)

lemma of_char_digit: "d < 16 \<Longrightarrow> of_char (digit_char d) = (if d < 10 then 48 + d else 55 + d)"
  by (simp add: digit_char_def)

lemma hex2decimal_digit: "d < 16 \<Longrightarrow> hex2decimal (digit_char d) = int d"
  by (simp add: hex2decimal_def of_char_int of_char_digit)

lemma is_xdigit_digit: "d < 16 \<Longrightarrow> is_xdigit (of_char (digit_char d))"
  by (auto simp: of_char_digit char_classes)

lemma hex_pad:
  assumes "n < 65536"
  shows "replicate (4 - length (hex_digits n)) (CHR ''0'') @ hex_digits n =
     map (\<lambda>i. digit_char (n div 16 ^ i mod 16)) [3, 2, 1, 0]"
proof -
  have z: "digit_char 0 = CHR ''0''" by (simp add: digit_char_def char_of_eq_iff of_char_def)
  consider "n < 16" | "16 \<le> n" "n < 256" | "256 \<le> n" "n < 4096" | "4096 \<le> n" by linarith
  then show ?thesis
  proof cases
    case 1 then show ?thesis by (simp add: hex_digits.simps z numeral_3_eq_3)
  next
    case 2
    then have "n div 16 < 16" by simp
    with 2 show ?thesis by (simp add: hex_digits.simps[of n] hex_digits.simps[of "n div 16"] z numeral_2_eq_2)
  next
    case 3
    then have "n div 16 div 16 < 16" "\<not> n div 16 < 16" by simp_all
    with 3 show ?thesis
      by (simp add: hex_digits.simps[of n] hex_digits.simps[of "n div 16"] hex_digits.simps[of "n div 256"] z div_mult2_eq[symmetric])
  next
    case 4
    then have "n div 16 div 16 div 16 < 16" "\<not> n div 16 < 16" "\<not> n div 16 div 16 < 16" using assms by simp_all
    with 4 show ?thesis
      by (simp add: hex_digits.simps[of n] hex_digits.simps[of "n div 16"] hex_digits.simps[of "n div 256"]
          hex_digits.simps[of "n div 4096"] z div_mult2_eq[symmetric])
  qed
qed

lemma uescape_digits:
  "uescape (ucast (w :: u16)) = [CHR 0x5C, CHR ''u''] @ map (\<lambda>i. digit_char (unat w div 16 ^ i mod 16)) [3, 2, 1, 0]"
proof -
  have u: "unat (ucast w :: u32) = unat w" by (simp add: unsigned_ucast_eq take_bit_nat_eq_self_iff) (use unsigned_less[of w, where ?'a = nat] in simp)
  have "unat w < 65536" using unsigned_less[of w, where ?'a = nat] by simp
  from hex_pad[OF this] show ?thesis
    by (simp add: uescape_def fmt_04X_def Let_def u snprintf_to_def)
qed

lemma nibble_word: "(of_nat (unat w div 16 ^ i mod 16) :: u16) = drop_bit (4 * i) w AND 15"
proof (rule word_unat_eq_iff[THEN iffD2])
  have m: "(15 :: nat) = mask 4" by (simp add: mask_eq_exp_minus_1)
  have "unat (drop_bit (4 * i) w AND 15) = take_bit 4 (drop_bit (4 * i) (unat w))"
    unfolding unsigned_and_eq unat_drop_bit_eq take_bit_eq_mask by (simp add: mask_eq_exp_minus_1)
  also have "\<dots> = unat w div 16 ^ i mod 16" by (simp add: drop_bit_eq_div take_bit_eq_mod power_mult)
  finally show "unat (of_nat (unat w div 16 ^ i mod 16) :: u16) = unat (drop_bit (4 * i) w AND 15)"
    by (simp add: unsigned_of_nat take_bit_eq_mod)
qed

lemma nibbles_join:
  "push_bit 12 (drop_bit 12 w AND 15) OR push_bit 8 (drop_bit 8 w AND 15) OR push_bit 4 (drop_bit 4 w AND 15)
     OR (w AND 15) = (w :: u16)" (is "?l = w")
proof (rule bit_word_eqI)
  fix n assume "n < LENGTH(16)"
  then have n: "n < 16" by simp
  have 15: "(15 :: u16) = mask 4" by (simp add: mask_eq_exp_minus_1)
  consider "n < 4" | "4 \<le> n" "n < 8" | "8 \<le> n" "n < 12" | "12 \<le> n" by linarith
  then show "bit ?l n = bit w n"
    unfolding 15 using n by cases (auto simp: bit_or_iff bit_and_iff bit_push_bit_iff bit_drop_bit_eq bit_mask_iff)
qed

lemma unicode_digits_word:
  "unicode_digits 4 (map (\<lambda>i. digit_char (unat (w :: u16) div 16 ^ i mod 16)) [3, 2, 1, 0] @ ptr) 0 = Some (w, ptr)"
proof -
  have d: "of_int (hex2decimal (digit_char (unat w div 16 ^ i mod 16))) = drop_bit (4 * i) w AND 15" for i
    using nibble_word[of w i] by (simp add: hex2decimal_digit del: of_nat_unat)
  have x: "is_xdigit (of_char (digit_char (unat w div 16 ^ i mod 16)))" for i
    by (simp add: is_xdigit_digit)
  have "unicode_digits (Suc (Suc (Suc (Suc 0))))
      (map (\<lambda>i. digit_char (unat w div 16 ^ i mod 16)) [3, 2, 1, 0] @ ptr) 0 = Some (w, ptr)"
    using nibbles_join[of w] d[of 0] d[of 1] d[of 2] d[of 3] x[of 0] x[of 1] x[of 2] x[of 3]
    by (simp add: or.assoc)
  moreover have "Suc (Suc (Suc (Suc 0))) = 4" by simp
  ultimately show ?thesis by metis
qed


section \<open>Strings survive\<close>

text \<open>The piece of text the writer makes of one character of the basic plane.\<close>

definition json_piece :: "u16 \<Rightarrow> string" where
  "json_piece w = (if w \<le> 0x7F then escape_one (chr w) else uescape (ucast w))"

definition utf8_string :: "u16 list \<Rightarrow> string" where
  "utf8_string ws = concat (map wchar_to_utf8 ws)"

lemma byte_chr: "w \<le> 0xFF \<Longrightarrow> byte (chr w) = w"
  by (simp add: byte_def chr_def word_le_nat_alt)

lemma u16_eqI:
  assumes "bit a 0 \<longleftrightarrow> bit b 0" "bit a 1 \<longleftrightarrow> bit b 1" "bit a 2 \<longleftrightarrow> bit b 2" "bit a 3 \<longleftrightarrow> bit b 3" "bit a 4 \<longleftrightarrow> bit b 4" "bit a 5 \<longleftrightarrow> bit b 5" "bit a 6 \<longleftrightarrow> bit b 6" "bit a 7 \<longleftrightarrow> bit b 7"
    "bit a 8 \<longleftrightarrow> bit b 8" "bit a 9 \<longleftrightarrow> bit b 9" "bit a 10 \<longleftrightarrow> bit b 10" "bit a 11 \<longleftrightarrow> bit b 11" "bit a 12 \<longleftrightarrow> bit b 12" "bit a 13 \<longleftrightarrow> bit b 13" "bit a 14 \<longleftrightarrow> bit b 14" "bit a 15 \<longleftrightarrow> bit b 15"
  shows "(a :: u16) = b"
proof (rule bit_word_eqI)
  fix n assume "n < LENGTH(16)"
  then have "n \<in> {0, 1, 2, 3, 4, 5, 6, 7, 8, 9, 10, 11, 12, 13, 14, 15}" by simp presburger
  then show "bit a n \<longleftrightarrow> bit b n" using assms by auto
qed

lemma u16_small_bits:
  assumes "unat (w :: u16) < 2 ^ k" "k \<le> n"
  shows "\<not> bit w n"
proof
  assume "bit w n"
  then have "bit (unat w) n" by (simp add: bit_unsigned_iff bit_imp_le_length)
  moreover have "take_bit k (unat w) = unat w" using assms(1) by (simp add: take_bit_nat_eq_self_iff)
  ultimately show False using assms(2) by (metis bit_take_bit_iff not_less)
qed

lemma utf8_two:
  fixes w :: u16
  defines "a \<equiv> 0xC0 OR (drop_bit 6 w AND 0x1F)" and "b \<equiv> 0x80 OR (w AND 0x3F)"
  assumes "w \<le> 0x7FF"
  shows "a \<le> 0xFF" "b \<le> 0xFF" "a AND 0xE0 = 0xC0" "b AND 0x80 = 0x80"
    "push_bit 6 (a AND 0x1F) OR (b AND 0x3F) = w"
proof -
  have w: "\<not> bit w n" if "11 \<le> n" for n using u16_small_bits[of w 11 n] assms(3) that by (simp add: word_le_nat_alt)
  have a: "a AND 0xFF = a" "b AND 0xFF = b"
    by (rule u16_eqI; simp add: a_def b_def bit_simps)+
  have "a AND 0xFF \<le> 0xFF" "b AND 0xFF \<le> 0xFF" by (rule word_and_le1)+
  then show "a \<le> 0xFF" "b \<le> 0xFF" unfolding a .
  show "a AND 0xE0 = 0xC0" by (rule u16_eqI; simp add: a_def bit_simps)
  show "b AND 0x80 = 0x80" by (rule u16_eqI; simp add: b_def bit_simps)
  show "push_bit 6 (a AND 0x1F) OR (b AND 0x3F) = w"
    by (rule u16_eqI; simp add: a_def b_def bit_simps w)
qed

lemma utf8_three:
  fixes w :: u16
  defines "a \<equiv> 0xE0 OR (drop_bit 12 w AND 0x0F)" and "b \<equiv> 0x80 OR (drop_bit 6 w AND 0x3F)"
    and "c \<equiv> 0x80 OR (w AND 0x3F)"
  shows "a \<le> 0xFF" "b \<le> 0xFF" "c \<le> 0xFF" "a AND 0xE0 = 0xE0" "b AND 0x80 = 0x80" "c AND 0x80 = 0x80"
    "push_bit 12 (a AND 0x0F) OR push_bit 6 (b AND 0x3F) OR (c AND 0x3F) = w"
proof -
  have a: "a AND 0xFF = a" "b AND 0xFF = b" "c AND 0xFF = c"
    by (rule u16_eqI; simp add: a_def b_def c_def bit_simps)+
  have "a AND 0xFF \<le> 0xFF" "b AND 0xFF \<le> 0xFF" "c AND 0xFF \<le> 0xFF" by (rule word_and_le1)+
  then show "a \<le> 0xFF" "b \<le> 0xFF" "c \<le> 0xFF" unfolding a .
  show "a AND 0xE0 = 0xE0" by (rule u16_eqI; simp add: a_def bit_simps)
  show "b AND 0x80 = 0x80" by (rule u16_eqI; simp add: b_def bit_simps)
  show "c AND 0x80 = 0x80" by (rule u16_eqI; simp add: c_def bit_simps)
  show "push_bit 12 (a AND 0x0F) OR push_bit 6 (b AND 0x3F) OR (c AND 0x3F) = w"
    by (rule u16_eqI; simp add: a_def b_def c_def bit_simps)
qed

lemma utf8_one:
  assumes "w \<le> 0x7F"
  shows "w AND 0xE0 \<noteq> 0xE0" "w AND 0xE0 \<noteq> 0xC0" "w AND 0x7F = (w :: u16)"
proof -
  have w: "\<not> bit w n" if "7 \<le> n" for n using u16_small_bits[of w 7 n] assms that by (simp add: word_le_nat_alt)
  have "\<not> bit (w AND 0xE0) 7" using w by (simp add: bit_and_iff)
  then show "w AND 0xE0 \<noteq> 0xE0" "w AND 0xE0 \<noteq> 0xC0" by auto
  show "w AND 0x7F = w" by (rule u16_eqI; simp add: bit_simps w)
qed

lemma byte_0 [simp]: "byte (CHR 0x00) = 0"
  by (simp add: byte_def of_char_def)

lemma escape_chars_1:
  assumes "byte c \<noteq> 0" "byte c AND 0xE0 \<noteq> 0xE0" "byte c AND 0xE0 \<noteq> 0xC0"
  shows "escape_chars (c # rest) = escape_one c @ escape_chars rest"
  using assms by (auto simp: Let_def ptr_at_def)

lemma escape_chars_2:
  assumes "byte c AND 0xE0 = 0xC0" "byte d AND 0x80 = 0x80"
  shows "escape_chars (c # d # rest) =
    uescape (ucast (push_bit 6 (byte c AND 0x1F) OR (byte d AND 0x3F))) @ escape_chars rest"
  using assms by (auto simp: Let_def ptr_at_def simp del: push_bit_and)

lemma escape_chars_3:
  assumes "byte c AND 0xE0 = 0xE0" "byte d AND 0x80 = 0x80" "byte e AND 0x80 = 0x80"
  shows "escape_chars (c # d # e # rest) =
    uescape (ucast (push_bit 12 (byte c AND 0x0F) OR push_bit 6 (byte d AND 0x3F) OR (byte e AND 0x3F)))
      @ escape_chars rest"
  using assms by (auto simp: Let_def ptr_at_def simp del: push_bit_and)

lemma escape_chars_wchar:
  assumes "w \<noteq> 0"
  shows "escape_chars (wchar_to_utf8 w @ rest) = json_piece w @ escape_chars rest"
proof -
  consider "w \<le> 0x7F" | "\<not> w \<le> 0x7F" "w \<le> 0x7FF" | "\<not> w \<le> 0x7F" "\<not> w \<le> 0x7FF" by blast
  then show ?thesis
  proof cases
    case 1
    then have "w \<le> 0xFF" by (simp add: word_le_nat_alt)
    note c = byte_chr[OF this]
    show ?thesis
      using escape_chars_1[of "chr w" rest, unfolded c, OF assms utf8_one(1,2)[OF 1]] 1 assms utf8_one(3)[OF 1]
      by (simp add: wchar_to_utf8_def json_piece_def del: escape_chars.simps)
  next
    case 2
    note u = utf8_two[OF 2(2)]
    note c = byte_chr[OF u(1)] byte_chr[OF u(2)]
    show ?thesis
      using escape_chars_2[of "chr (0xC0 OR (drop_bit 6 w AND 0x1F))" "chr (0x80 OR (w AND 0x3F))" rest,
          unfolded c u(5), OF u(3,4)] 2
      by (simp add: wchar_to_utf8_def json_piece_def del: escape_chars.simps)
  next
    case 3
    note u = utf8_three[of w]
    note c = byte_chr[OF u(1)] byte_chr[OF u(2)] byte_chr[OF u(3)]
    show ?thesis
      using escape_chars_3[of "chr (0xE0 OR (drop_bit 12 w AND 0x0F))" "chr (0x80 OR (drop_bit 6 w AND 0x3F))"
          "chr (0x80 OR (w AND 0x3F))" rest, unfolded c u(7), OF u(4-6)] 3
      by (simp add: wchar_to_utf8_def json_piece_def del: escape_chars.simps)
  qed
qed

lemma escape_chars_utf8:
  "0 \<notin> set ws \<Longrightarrow> escape_chars (utf8_string ws) = concat (map json_piece ws)"
  by (induction ws) (auto simp: utf8_string_def escape_chars_wchar simp del: escape_chars.simps(2))

text \<open>One printed character, read back.\<close>

lemma chr_special:
  assumes "w \<le> 0x7F"
  shows "of_char (chr w) = unat w"
  using assms by (simp add: chr_def word_le_nat_alt)

lemma unescape_uescape:
  "unescape True (uescape (ucast w) @ ptr) str = unescape True ptr (str @ wchar_to_utf8 w)"
  using unicode_digits_word[of w ptr] unfolding uescape_digits by simp

lemma escape_one_cases:
  assumes "(w :: u16) \<le> 0x7F" "w \<noteq> 0"
  obtains e where "escape_one (chr w) = [CHR 0x5C, e]" "e \<noteq> CHR ''u''" "escape_char e = Some (chr w)"
      "json_lexer IN_DQ_STRING_ESCAPE (of_char e) = St IN_DQ_STRING"
  | "escape_one (chr w) = uescape (ucast w)"
  | "escape_one (chr w) = [chr w]" "chr w \<noteq> CHR 0x00" "chr w \<noteq> CHR 0x22" "chr w \<noteq> CHR 0x5C"
    "json_lexer IN_DQ_STRING (of_char (chr w)) = St IN_DQ_STRING"
proof -
  define c where "c = chr w"
  have o: "of_char c = unat w" using assms by (simp add: c_def chr_special)
  have u: "unat w < 128" "unat w \<noteq> 0" using assms by (simp_all add: word_le_nat_alt unat_eq_0)
  have p: "promote_char c = ucast w"
    using u by (simp add: promote_char_def o unsigned_ucast_eq)
  have n: "(of_char c :: nat) = of_char d \<longleftrightarrow> c = d" for d by simp
  note esc = escape_one_def[of c]
  consider "c \<in> {CHR 0x22, CHR 0x5C, CHR 0x08, CHR 0x0C, CHR 0x0A, CHR 0x0D, CHR 0x09}"
    | "c \<notin> {CHR 0x22, CHR 0x5C, CHR 0x08, CHR 0x0C, CHR 0x0A, CHR 0x0D, CHR 0x09}" "sint (promote_char c) \<le> 0x1F"
    | "c \<notin> {CHR 0x22, CHR 0x5C, CHR 0x08, CHR 0x0C, CHR 0x0A, CHR 0x0D, CHR 0x09}" "\<not> sint (promote_char c) \<le> 0x1F"
    by blast
  then show thesis
  proof cases
    case 1
    have "\<exists>e. escape_one c = [CHR 0x5C, e] \<and> e \<noteq> CHR ''u'' \<and> escape_char e = Some c \<and>
        json_lexer IN_DQ_STRING_ESCAPE (of_char e) = St IN_DQ_STRING"
      using 1 by (auto simp: escape_one_def escape_char_def of_char_def)
    then show thesis using that(1) by (auto simp: c_def)
  next
    case 2
    then have "escape_one c = uescape (ucast w)" by (simp add: esc p)
    then show thesis using that(2) by (simp add: c_def)
  next
    case 3
    have "c \<noteq> CHR 0x00" using u o by auto
    moreover have "in_text (of_char c)" using u by (simp add: o in_text_def)
    moreover have "of_char (CHR 0x5C) = (92 :: nat)" "of_char (CHR 0x22) = (34 :: nat)" by (simp_all add: of_char_def)
    then have "of_char c \<noteq> (92 :: nat)" "of_char c \<noteq> (34 :: nat)" using 3(1) n by (metis insertCI)+
    ultimately show thesis using that(3) 3 unfolding c_def by (simp add: escape_one_def)
  qed
qed

lemma unescape_piece:
  assumes "w \<noteq> 0"
  shows "unescape True (json_piece w @ ptr) str = unescape True ptr (str @ wchar_to_utf8 w)"
proof (cases "w \<le> 0x7F")
  case True
  have u: "wchar_to_utf8 w = [chr w]" using True assms utf8_one(3)[OF True] by (simp add: wchar_to_utf8_def)
  show ?thesis
    using True assms
  proof (cases rule: escape_one_cases)
    case (1 e) then show ?thesis using True by (simp add: json_piece_def u)
  next
    case 2 then show ?thesis using True by (simp add: json_piece_def unescape_uescape)
  next
    case 3 then show ?thesis using True by (simp add: json_piece_def u)
  qed
qed (simp add: json_piece_def unescape_uescape)

lemma unescape_utf8:
  "0 \<notin> set ws \<Longrightarrow> unescape True (concat (map json_piece ws) @ [CHR 0x22]) str = Some (str @ utf8_string ws)"
  by (induction ws arbitrary: str) (auto simp: utf8_string_def unescape_piece)

text \<open>The tokenizer stays inside the string.\<close>

lemma lex_run_uescape:
  "lex_run (IN_DQ_STRING, tok) (uescape (ucast (w :: u16))) = ((IN_DQ_STRING, tok @ uescape (ucast w)), [])"
  unfolding uescape_digits by (simp add: is_xdigit_digit of_char_def[of "CHR ''u''"] of_char_def[of "CHR 0x5C"])

lemma lex_run_piece:
  assumes "w \<noteq> 0"
  shows "lex_run (IN_DQ_STRING, tok) (json_piece w) = ((IN_DQ_STRING, tok @ json_piece w), [])"
proof (cases "w \<le> 0x7F")
  case True
  show ?thesis
    using True assms
  proof (cases rule: escape_one_cases)
    case (1 e) then show ?thesis using True by (simp add: json_piece_def of_char_def[of "CHR 0x5C"] del: json_lexer.simps(6))
  next
    case 2 then show ?thesis using True by (simp add: json_piece_def lex_run_uescape)
  next
    case 3 then show ?thesis using True by (simp add: json_piece_def del: json_lexer.simps)
  qed
qed (simp add: json_piece_def lex_run_uescape)

lemma lex_run_pieces:
  "0 \<notin> set ws \<Longrightarrow>
   lex_run (IN_DQ_STRING, tok) (concat (map json_piece ws)) = ((IN_DQ_STRING, tok @ concat (map json_piece ws)), [])"
  by (induction ws arbitrary: tok) (auto simp: lex_run_append lex_run_piece)


section \<open>Decimal numbers survive\<close>

lemma dec_digit: "d < 10 \<Longrightarrow> is_digit (of_char (digit_char d))"
  by (simp add: of_char_digit is_digit_def)

lemma dec_digits_digit: "c \<in> set (dec_digits n) \<Longrightarrow> is_digit (of_char c)"
proof (induction n rule: dec_digits.induct)
  case (1 n)
  then show ?case by (subst (asm) (2) dec_digits.simps) (auto simp: dec_digit split: if_splits)
qed

lemma dec_value_append:
  "(\<And>c. c \<in> set xs \<Longrightarrow> is_digit (of_char c)) \<Longrightarrow> dec_value acc (xs @ ys) = dec_value (dec_value acc xs) ys"
  by (induction xs arbitrary: acc) auto

lemma dec_value_digits: "dec_value 0 (dec_digits n) = int n"
proof (induction n rule: dec_digits.induct)
  case (1 n)
  have d: "of_char (digit_char k) = 48 + int k" "is_digit (of_char (digit_char k))" if "k < 10" for k
    using that by (simp add: of_char_int of_char_digit, simp add: dec_digit)
  have e: "int (n div 10) * 10 + int (n mod 10) = int n" by (simp add: of_nat_div of_nat_mod)
  show ?case
  proof (cases "n < 10")
    case False
    then show ?thesis
      using 1 d[of "n mod 10"] e by (subst dec_digits.simps) (simp add: dec_value_append dec_digits_digit)
  qed (simp add: dec_digits.simps d)
qed

lemma dec_digits_hd: "0 < n \<Longrightarrow> hd (dec_digits n) \<noteq> CHR ''0''" "dec_digits n \<noteq> []"
proof (induction n rule: dec_digits.induct)
  case (1 n)
  { case 1
    have "of_char (digit_char k) = 48 + k" if "k < 10" for k using that by (simp add: of_char_digit)
    moreover have "of_char (CHR ''0'') = (48 :: nat)" by (simp add: of_char_def)
    ultimately have "digit_char k \<noteq> CHR ''0''" if "0 < k" "k < 10" for k using that by (metis add_cancel_right_right less_irrefl)
    then show ?case using 1 "1.IH" by (subst dec_digits.simps) auto }
  { case 2 show ?case by (subst dec_digits.simps) simp }
qed

lemma strtoll_fmt: "strtoll (fmt_d64 v) = v"
proof -
  have r: "- 9223372036854775808 \<le> sint v" "sint v \<le> 9223372036854775807"
    using sint_greater_eq[of v] sint_less[of v] by simp_all
  have m: "hd (dec_digits n) \<noteq> CHR ''-''" for n
    using dec_digits_digit[OF hd_in_set[OF dec_digits_hd(2)], of n] by (auto simp: is_digit_def of_char_def)
  then have s: "(case dec_digits n of [] \<Rightarrow> 0 | c # cs \<Rightarrow> if c = CHR ''-'' then - dec_value 0 cs else dec_value 0 (dec_digits n)) = int n" for n
    using dec_value_digits[of n] dec_digits_hd(2)[of n] m[of n] by (cases "dec_digits n") auto
  show ?thesis
    using r by (auto simp: strtoll_def fmt_d64_def LLONG_MAX_def LLONG_MIN_def dec_value_digits s max_def min_def)
qed

section \<open>What does not survive\<close>

lemma hex_digits_step: "16 \<le> n \<Longrightarrow> hex_digits n = hex_digits (n div 16) @ [digit_char (n mod 16)]"
  by (subst hex_digits.simps) simp

lemma hex_digits_high:
  assumes "n div 65536 = 65535"
  shows "take 4 (hex_digits n) = ''FFFF''" "4 \<le> length (hex_digits n)"
proof -
  have d: "n div 16 div 16 div 16 div 16 = 65535" using assms by (simp add: div_mult2_eq[symmetric])
  have "16 \<le> n" "16 \<le> n div 16" "16 \<le> n div 16 div 16" "16 \<le> n div 16 div 16 div 16" using d by linarith+
  then have "hex_digits n = hex_digits 65535 @ [digit_char (n div 16 div 16 div 16 mod 16),
      digit_char (n div 16 div 16 mod 16), digit_char (n div 16 mod 16), digit_char (n mod 16)]"
    using d by (simp only: hex_digits_step[of n] hex_digits_step[of "n div 16"] hex_digits_step[of "n div 16 div 16"]
        hex_digits_step[of "n div 16 div 16 div 16"] append_assoc append.simps)
  moreover have "hex_digits 65535 = ''FFFF''"
    by (simp add: hex_digits_step hex_digits.simps[of 15] digit_char_def char_of_eq_iff of_char_def)
  ultimately show "take 4 (hex_digits n) = ''FFFF''" "4 \<le> length (hex_digits n)" by simp_all
qed

lemma promote_negative:
  assumes "128 \<le> (of_char c :: nat)"
  shows "unat (promote_char c) = of_char c + 4294967040" "sint (promote_char c) < 0"
proof -
  define m where "m = of_char c + (4294967040 :: nat)"
  have b: "of_char c < (256 :: nat)" by simp
  have p: "promote_char c = of_nat m" using assms by (simp add: promote_char_def m_def)
  have m: "m < 2 ^ 32" "2 ^ 31 \<le> m" using b by (simp_all add: m_def)
  show "unat (promote_char c) = of_char c + 4294967040"
    using m(1) unfolding p m_def[symmetric] by (simp add: unsigned_of_nat take_bit_nat_eq_self)
  have "promote_char c = of_int (int (of_char c) - 256)" using assms by (simp add: promote_char_def)
  moreover have "sint (of_int (int (of_char c) - 256) :: u32) = int (of_char c) - 256"
    using order.strict_trans[OF b, of 2147483904] by (simp add: signed_of_int signed_take_bit_int_eq_self_iff del: of_int_diff)
  ultimately show "sint (promote_char c) < 0" using b by simp
qed

lemma escape_one_negative:
  assumes "128 \<le> (of_char c :: nat)"
  shows "escape_one c = [CHR 0x5C, CHR ''u'', CHR ''F'', CHR ''F'', CHR ''F'', CHR ''F'']"
proof -
  have "c \<noteq> CHR 0x22" "c \<noteq> CHR 0x5C" "c \<noteq> CHR 0x08" "c \<noteq> CHR 0x0C" "c \<noteq> CHR 0x0A" "c \<noteq> CHR 0x0D" "c \<noteq> CHR 0x09"
    using assms by (auto simp: of_char_def)
  then have "escape_one c = uescape (promote_char c)"
    using promote_negative(2)[OF assms] by (simp add: escape_one_def)
  moreover have "(of_char c + 4294967040) div 65536 = (65535 :: nat)"
  proof -
    have "(m + 4294967040) div 65536 = 65535" if "m < 256" for m :: nat using that by simp
    then show ?thesis by simp
  qed
  from hex_digits_high[OF this] have "take 4 (fmt_04X (promote_char c)) = ''FFFF''"
    by (simp add: fmt_04X_def Let_def promote_negative(1)[OF assms])
  ultimately show ?thesis by (simp add: uescape_def snprintf_to_def)
qed

text \<open>
  A character outside the basic plane, four bytes in UTF-8, is not escaped as one: the first three bytes are taken
  for a three byte sequence, and the last one, a negative \<^verbatim>\<open>char\<close>, is printed as the escape of U+FFFF.
\<close>

theorem to_json_breaks_astral:
  assumes "byte a AND 0xF8 = 0xF0" "byte b AND 0xC0 = 0x80" "byte c AND 0xC0 = 0x80" "byte d AND 0xC0 = 0x80"
  shows "escape_chars (a # b # c # d # rest) =
    uescape (ucast (push_bit 12 (byte a AND 0x0F) OR push_bit 6 (byte b AND 0x3F) OR (byte c AND 0x3F)))
      @ [CHR 0x5C, CHR ''u'', CHR ''F'', CHR ''F'', CHR ''F'', CHR ''F''] @ escape_chars rest"
proof -
  have a: "byte a AND 0xE0 = 0xE0"
    using arg_cong[OF assms(1), of "\<lambda>x. x AND 0xE0"] by (simp add: and.assoc)
  have k: "byte x AND 0x80 = 0x80" if "byte x AND 0xC0 = 0x80" for x
    using arg_cong[OF that, of "\<lambda>x. x AND 0x80"] by (simp add: and.assoc)
  have e: "(byte d AND 0xE0) AND 0xC0 = 0x80" using assms(4) by (simp add: and.assoc)
  then have d: "byte d AND 0xE0 \<noteq> 0xE0" "byte d AND 0xE0 \<noteq> 0xC0" "byte d \<noteq> 0" by auto
  have "byte d AND 0x80 \<le> byte d" by (rule word_and_le2)
  then have "128 \<le> take_bit 16 (of_char d :: nat)"
    using k[OF assms(4)] by (simp add: byte_def word_le_nat_alt unsigned_of_nat)
  then have "128 \<le> (of_char d :: nat)" by (rule order_trans) (rule take_bit_nat_less_eq_self)
  from escape_one_negative[OF this] escape_chars_1[OF d(3,1,2)] escape_chars_3[OF a k[OF assms(2)] k[OF assms(3)]]
  show ?thesis by (simp del: escape_chars.simps)
qed

theorem to_json_breaks_astral_witness:
  "escape_chars [chr 0xF0, chr 0x9F, chr 0x98, chr 0x80] = uescape 0x7D8 @ [CHR 0x5C, CHR ''u'', CHR ''F'', CHR ''F'', CHR ''F'', CHR ''F'']"
proof -
  have "byte (chr 0xF0) = 0xF0" "byte (chr 0x9F) = 0x9F" "byte (chr 0x98) = 0x98" "byte (chr 0x80) = 0x80"
    by (simp_all add: byte_chr)
  with to_json_breaks_astral[of "chr 0xF0" "chr 0x9F" "chr 0x98" "chr 0x80" "[]"] show ?thesis
    by (simp del: escape_chars.simps(2))
qed

end
