(* ===== verification/JSON_Printing.thy ===== *)
theory JSON_Printing
  imports JSON_Strings
begin

text \<open>
  The tokens of a printed object. The printed text is brought into the form of bracketed, separated entries, and the
  tokenizer is run over it with a small calculus of positions: a text lexes to items, passes with items, or closes
  a pending token.
\<close>

section \<open>Tokens of the printed text\<close>

text \<open>
  \<open>fresh\<close> positions can start a token at once; \<open>settled\<close> ones are those a delimiter ends by lookahead.
  A piece of text \<open>lexes\<close> to items from a fresh position to a settled one, \<open>passes\<close> with items between
  two fresh ones, and \<open>closes\<close> a settled position, behind the token pending there.
\<close>

definition fresh :: "lex_pos \<Rightarrow> bool" where
  "fresh p \<longleftrightarrow> p = (IN_START, []) \<or> fst p = IN_WHITESPACE"

definition settled :: "lex_pos \<Rightarrow> bool" where
  "settled p \<longleftrightarrow> fresh p \<or> fst p \<in> {IN_ZERO, IN_NONZERO_NUMBER, IN_KEYWORD}"

definition lexes :: "string \<Rightarrow> lex_item list \<Rightarrow> bool" where
  "lexes s items \<longleftrightarrow>
     (\<forall>p. fresh p \<longrightarrow> (\<exists>q out. lex_run p s = (q, out) \<and> settled q \<and> out @ lex_end q = items))"

definition passes :: "string \<Rightarrow> lex_item list \<Rightarrow> bool" where
  "passes s items \<longleftrightarrow> (\<forall>p. fresh p \<longrightarrow> (\<exists>q. lex_run p s = (q, items) \<and> fresh q))"

definition closes :: "string \<Rightarrow> lex_item list \<Rightarrow> bool" where
  "closes s items \<longleftrightarrow> (\<forall>p. settled p \<longrightarrow> (\<exists>q. lex_run p s = (q, lex_end p @ items) \<and> fresh q))"

lemma fresh_end [simp]: "fresh p \<Longrightarrow> lex_end p = []"
  by (auto simp: fresh_def lex_end_def lex_item_def TERMINAL_def is_space_def)

lemma fresh_settled: "fresh p \<Longrightarrow> settled p"
  by (simp add: settled_def)

lemma passes_lexes: "passes s items \<Longrightarrow> lexes s items"
  unfolding passes_def lexes_def by (metis append_Nil2 fresh_end fresh_settled)

lemma closes_passes: "closes s items \<Longrightarrow> passes s items"
  unfolding closes_def passes_def by (metis append_Nil fresh_end fresh_settled)

lemma passes_append: "passes s1 i1 \<Longrightarrow> passes s2 i2 \<Longrightarrow> passes (s1 @ s2) (i1 @ i2)"
  by (fastforce simp: passes_def lex_run_append)

lemma lexes_closes: "lexes s1 i1 \<Longrightarrow> closes s2 i2 \<Longrightarrow> passes (s1 @ s2) (i1 @ i2)"
  by (fastforce simp: passes_def lexes_def closes_def lex_run_append)

lemma closes_append: "closes s1 i1 \<Longrightarrow> passes s2 i2 \<Longrightarrow> closes (s1 @ s2) (i1 @ i2)"
  by (fastforce simp: passes_def closes_def lex_run_append)

lemma passes_Nil: "passes [] []"
  by (simp add: passes_def)

text \<open>Characters.\<close>

lemma fresh_step:
  assumes "fresh p" "of_char c \<le> (0x7F :: nat)" "\<not> is_space (of_char c)"
  shows "lex_step p c = lex_first c"
proof (cases "fst p = IN_WHITESPACE")
  case True
  then show ?thesis using assms by (cases p) (simp add: TERMINAL_def is_space_def[of 0] lex_item_def split: prod.split)
next
  case False
  then have "p = (IN_START, [])" using assms(1) by (simp add: fresh_def)
  then show ?thesis by (simp add: lex_first_def is_digit_def[of 0] is_lower_def[of 0] is_space_def[of 0]
      lex_item_def split: lex_code.split)
qed

definition operator_char :: "char \<Rightarrow> bool" where
  "operator_char c \<longleftrightarrow> c \<in> {CHR ''{'', CHR ''}'', CHR ''['', CHR '']'', CHR '','', CHR '':''}"

abbreviation op_item :: "char \<Rightarrow> lex_item" where
  "op_item c \<equiv> (Tk JSON_OPERATOR, [c])"

lemma operator_first: "operator_char c \<Longrightarrow> lex_first c = ((IN_START, []), [op_item c])"
  by (auto simp: operator_char_def lex_first_def lex_item_def of_char_def is_digit_def)

lemma operator_codes:
  "operator_char c \<Longrightarrow> of_char c \<in> {123, 125, 91, 93, 44, 58 :: nat}"
  by (auto simp: operator_char_def of_char_def)

lemma delimiter_ends:
  assumes "st \<in> {IN_ZERO, IN_NONZERO_NUMBER, IN_KEYWORD}" "c \<in> {123, 125, 91, 93, 44, 58 :: nat} \<or> is_space c"
  shows "json_lexer st c = json_lexer st 0" "\<exists>t. json_lexer st 0 = Tk t" "st \<noteq> IN_START"
  using assms by (elim insertE emptyE; auto simp: char_classes TERMINAL_def)+

lemma settled_operator:
  assumes "settled p" "operator_char c"
  shows "lex_step p c = ((IN_START, []), lex_end p @ [op_item c])"
proof (cases "fresh p")
  case True
  have "of_char c \<le> (0x7F :: nat)" "\<not> is_space (of_char c)"
    using operator_codes[OF assms(2)] by (auto simp: is_space_def)
  from fresh_step[OF True this] show ?thesis using operator_first[OF assms(2)] True by simp
next
  case False
  obtain st tok where p: "p = (st, tok)" by (cases p)
  then have "st \<in> {IN_ZERO, IN_NONZERO_NUMBER, IN_KEYWORD}" using False assms(1) by (simp add: settled_def)
  from delimiter_ends[OF this disjI1[OF operator_codes[OF assms(2)]]] show ?thesis
    using operator_first[OF assms(2)] by (auto simp: p lex_end_def simp del: json_lexer.simps)
qed

lemma closes_operator: "operator_char c \<Longrightarrow> closes [c] [op_item c]"
  by (auto simp: closes_def settled_operator fresh_def simp del: lex_step.simps)

lemma space_first: "is_space (of_char c) \<Longrightarrow> lex_first c = ((IN_WHITESPACE, [c]), [])"
  by (auto simp: lex_first_def char_classes)

lemma settled_space:
  assumes "settled p" "is_space (of_char c)"
  shows "\<exists>tok. lex_step p c = ((IN_WHITESPACE, tok), lex_end p)"
proof -
  obtain st tok where p: "p = (st, tok)" by (cases p)
  consider "st = IN_START" "tok = []" | "st = IN_WHITESPACE" | "st \<in> {IN_ZERO, IN_NONZERO_NUMBER, IN_KEYWORD}"
    using assms(1) p by (auto simp: settled_def fresh_def)
  then show ?thesis
  proof cases
    case 1
    then show ?thesis using assms(2) by (auto simp: p lex_end_def char_classes)
  next
    case 2
    then show ?thesis using assms(2) by (simp add: p lex_end_def is_space_def[of 0] TERMINAL_def lex_item_def)
  next
    case 3
    from delimiter_ends[OF this disjI2[OF assms(2)]] show ?thesis
      using space_first[OF assms(2)] by (auto simp: p lex_end_def simp del: json_lexer.simps)
  qed
qed

lemma closes_space: "is_space (of_char c) \<Longrightarrow> closes [c] []"
  unfolding closes_def
proof (intro allI impI)
  fix p assume "is_space (of_char c)" "settled p"
  then obtain tok where "lex_step p c = ((IN_WHITESPACE, tok), lex_end p)" using settled_space by blast
  then show "\<exists>q. lex_run p [c] = (q, lex_end p @ []) \<and> fresh q"
    by (simp add: fresh_def del: lex_step.simps)
qed

lemma passes_spaces: "list_all (\<lambda>c. is_space (of_char c)) ws \<Longrightarrow> passes ws []"
proof (induction ws)
  case (Cons c ws)
  then have "passes [c] []" by (intro closes_passes closes_space) simp
  from passes_append[OF this, of ws "[]"] Cons show ?case by simp
qed (simp add: passes_Nil)

lemma closes_spaces:
  assumes "list_all (\<lambda>c. is_space (of_char c)) (c # ws)"
  shows "closes (c # ws) []"
  using closes_append[OF closes_space passes_spaces, of c ws] assms by simp

lemma lexes_string:
  assumes "0 \<notin> set ws"
  shows "lexes ([CHR 0x22] @ concat (map json_piece ws) @ [CHR 0x22])
    [(Tk JSON_STRING, [CHR 0x22] @ concat (map json_piece ws) @ [CHR 0x22])]"
proof (rule passes_lexes, unfold passes_def, intro allI impI)
  fix p assume p: "fresh p"
  have q: "of_char (CHR 0x22) = (34 :: nat)" by (simp add: of_char_def)
  have f: "lex_first (CHR 0x22) = ((IN_DQ_STRING, [CHR 0x22]), [])" by (simp add: lex_first_def q)
  have "lex_run p ([CHR 0x22] @ concat (map json_piece ws) @ [CHR 0x22]) =
      ((IN_START, []), [(Tk JSON_STRING, [CHR 0x22] @ concat (map json_piece ws) @ [CHR 0x22])])"
    using fresh_step[OF p, of "CHR 0x22"]
    by (simp add: q is_space_def f lex_run_append lex_run_pieces[OF assms] in_text_def lex_item_def)
  then show "\<exists>q. lex_run p ([CHR 0x22] @ concat (map json_piece ws) @ [CHR 0x22]) =
      (q, [(Tk JSON_STRING, [CHR 0x22] @ concat (map json_piece ws) @ [CHR 0x22])]) \<and> fresh q"
    by (simp add: fresh_def)
qed

lemma lexes_keyword: "s \<in> {''true'', ''false''} \<Longrightarrow> lexes s [(Tk JSON_KEYWORD, s)]"
  unfolding lexes_def
proof (intro allI impI)
  fix p assume s: "s \<in> {''true'', ''false''}" and p: "fresh p"
  have "lex_run p s = ((IN_KEYWORD, s), [])"
    using s fresh_step[OF p, of "CHR ''t''"] fresh_step[OF p, of "CHR ''f''"]
    by (auto simp: of_char_def lex_first_def char_classes)
  moreover have "lex_end (IN_KEYWORD, s) = [(Tk JSON_KEYWORD, s)]"
    by (simp add: lex_end_def lex_item_def TERMINAL_def is_lower_def)
  ultimately show "\<exists>q out. lex_run p s = (q, out) \<and> settled q \<and> out @ lex_end q = [(Tk JSON_KEYWORD, s)]"
    by (simp add: settled_def)
qed

lemma lexes_prefix: "passes s1 i1 \<Longrightarrow> lexes s2 i2 \<Longrightarrow> lexes (s1 @ s2) (i1 @ i2)"
  unfolding passes_def lexes_def
proof (intro allI impI)
  fix p
  assume 1: "\<forall>p. fresh p \<longrightarrow> (\<exists>q. lex_run p s1 = (q, i1) \<and> fresh q)"
    and 2: "\<forall>p. fresh p \<longrightarrow> (\<exists>q out. lex_run p s2 = (q, out) \<and> settled q \<and> out @ lex_end q = i2)"
    and p: "fresh p"
  from 1 p obtain q where q: "lex_run p s1 = (q, i1)" "fresh q" by blast
  from 2 q(2) obtain r out where "lex_run q s2 = (r, out)" "settled r" "out @ lex_end r = i2" by blast
  then show "\<exists>q out. lex_run p (s1 @ s2) = (q, out) \<and> settled q \<and> out @ lex_end q = i1 @ i2"
    using q by (auto simp: lex_run_append)
qed

lemma lexes_digits:
  assumes "0 < n" "fresh p \<and> pre = [] \<or> p = (IN_NEG_NONZERO_NUMBER, pre)"
  shows "lex_run p (dec_digits n) = ((IN_NONZERO_NUMBER, pre @ dec_digits n), [])"
proof -
  obtain d ds where ds: "dec_digits n = d # ds" using dec_digits_hd(2)[of n] by (cases "dec_digits n") auto
  have dig: "is_digit (of_char c)" if "c \<in> set (d # ds)" for c using dec_digits_digit[of c n] that ds by simp
  have "d \<noteq> CHR ''0''" using dec_digits_hd(1)[OF assms(1)] ds by simp
  then have "of_char d \<noteq> (of_char (CHR ''0'') :: nat)" by (simp only: of_char_eq_iff not_False_eq_True)
  then have d: "of_char d \<noteq> (48 :: nat)" "of_char d \<noteq> (34 :: nat)" "of_char d \<noteq> (39 :: nat)"
      "of_char d \<le> (0x7F :: nat)" "\<not> is_space (of_char d)" "is_digit (of_char d)"
    using dig[of d] by (auto simp: of_char_def[of "CHR ''0''"] is_digit_def is_space_def)
  have "lex_step p d = ((IN_NONZERO_NUMBER, pre @ [d]), [])"
    using assms(2) fresh_step[of p d] d by (auto simp: lex_first_def)
  moreover have "lex_run (IN_NONZERO_NUMBER, pre @ [d]) ds = ((IN_NONZERO_NUMBER, (pre @ [d]) @ ds), [])"
    using dig by (intro lex_run_stay) auto
  ultimately show ?thesis by (simp add: ds del: lex_step.simps)
qed

lemma lex_end_number: "st \<in> {IN_ZERO, IN_NONZERO_NUMBER} \<Longrightarrow> lex_end (st, tok) = [(Tk JSON_INTEGER, tok)]"
  by (auto simp: lex_end_def lex_item_def TERMINAL_def is_digit_def)

lemma lexes_int: "lexes (fmt_d64 v) [(Tk JSON_INTEGER, fmt_d64 v)]"
  unfolding lexes_def
proof (intro allI impI)
  fix p assume p: "fresh p"
  have "\<exists>st \<in> {IN_ZERO, IN_NONZERO_NUMBER}. lex_run p (fmt_d64 v) = ((st, fmt_d64 v), [])"
  proof (cases "sint v" "0 :: int" rule: linorder_cases)
    case less
    have m: "of_char (CHR ''-'') = (45 :: nat)" by (simp add: of_char_def)
    have "lex_step p (CHR ''-'') = ((IN_NEG_NONZERO_NUMBER, [CHR ''-'']), [])"
      using fresh_step[OF p, of "CHR ''-''"] by (simp add: m is_space_def lex_first_def is_digit_def)
    then show ?thesis
      using less lexes_digits[of "nat (- sint v)" "(IN_NEG_NONZERO_NUMBER, [CHR ''-''])" "[CHR ''-'']"]
      by (simp add: fmt_d64_def del: lex_step.simps)
  next
    case equal
    have m: "of_char (CHR ''0'') = (48 :: nat)" by (simp add: of_char_def)
    have z: "dec_digits 0 = [CHR ''0'']" by (simp add: dec_digits.simps digit_char_def char_of_eq_iff of_char_def)
    have "lex_step p (CHR ''0'') = ((IN_ZERO, [CHR ''0'']), [])"
      using fresh_step[OF p, of "CHR ''0''"] by (simp add: m is_space_def lex_first_def)
    then show ?thesis using equal by (simp add: fmt_d64_def z del: lex_step.simps)
  next
    case greater
    then show ?thesis using lexes_digits[of "nat (sint v)" p "[]"] p by (simp add: fmt_d64_def)
  qed
  then show "\<exists>q out. lex_run p (fmt_d64 v) = (q, out) \<and> settled q \<and> out @ lex_end q = [(Tk JSON_INTEGER, fmt_d64 v)]"
    using lex_end_number by (force simp: settled_def)
qed

lemma dec_digits_length: "n < 10 ^ Suc k \<Longrightarrow> length (dec_digits n) \<le> Suc k"
proof (induction k arbitrary: n)
  case (Suc k)
  then have "n div 10 < 10 ^ Suc k" by (simp add: less_mult_imp_div_less mult.commute)
  then have "length (dec_digits (n div 10)) \<le> Suc k" by (rule Suc.IH)
  then show ?case by (subst dec_digits.simps) simp
qed (simp add: dec_digits.simps)

lemma fmt_d64_length: "length (fmt_d64 v) \<le> 1023"
proof -
  have "nat \<bar>sint v\<bar> < 10 ^ Suc 21"
    using sint_greater_eq[of v] sint_less[of v] by (simp add: nat_less_iff)
  then have "length (dec_digits (nat \<bar>sint v\<bar>)) \<le> Suc 21" by (rule dec_digits_length)
  then show ?thesis by (auto simp: fmt_d64_def abs_if)
qed

section \<open>The shape of the printed text\<close>

text \<open>The entries of a list or a dictionary, each behind its separator.\<close>

definition entry_sep :: "bool \<Rightarrow> nat \<Rightarrow> nat \<Rightarrow> string" where
  "entry_sep pretty indent count =
     (if count \<noteq> 0 then '', '' else []) @ (if pretty then newline_indent indent else [])"

primrec join_entries :: "bool \<Rightarrow> nat \<Rightarrow> nat \<Rightarrow> string list \<Rightarrow> string" where
  "join_entries pretty indent count [] = []"
| "join_entries pretty indent count (t # ts) =
     entry_sep pretty indent count @ t @ join_entries pretty indent (Suc count) ts"

definition bracketed :: "bool \<Rightarrow> nat \<Rightarrow> char \<Rightarrow> char \<Rightarrow> string list \<Rightarrow> string" where
  "bracketed pretty indent opening closing ts =
     [opening] @ join_entries pretty (Suc indent) 0 ts @ (if pretty then newline_indent indent else []) @ [closing]"

text \<open>A writer only appends.\<close>

definition appends :: "json_writer \<Rightarrow> bool" where
  "appends w \<longleftrightarrow> (\<forall>str pretty indent. w str pretty indent = str @ w [] pretty indent)"

lemma appendsD: "appends w \<Longrightarrow> w str pretty indent = str @ w [] pretty indent"
  unfolding appends_def by blast

lemma iter_prefix_eq:
  "iter_prefix s = s\<lparr>it_str := it_str s @ entry_sep (it_pretty s) (it_indent s) (it_count s)\<rparr>"
  by (simp add: iter_prefix_def Let_def entry_sep_def)

lemma list_iter_join:
  "list_all appends ws \<Longrightarrow>
   it_str (foldl (\<lambda>s w. to_json_list_iter w s) s ws) =
     it_str s @ join_entries (it_pretty s) (it_indent s) (it_count s) (map (\<lambda>w. w [] (it_pretty s) (it_indent s)) ws)"
proof (induction ws arbitrary: s)
  case (Cons w ws)
  then show ?case
    using appendsD[of w "it_str s @ entry_sep (it_pretty s) (it_indent s) (it_count s)" "it_pretty s" "it_indent s"]
    by (simp add: to_json_list_iter_def iter_prefix_eq Let_def)
qed simp

definition entry_text :: "bool \<Rightarrow> nat \<Rightarrow> string \<times> json_writer \<Rightarrow> string" where
  "entry_text pretty indent e = to_json_string (fst e) [] @ '': '' @ snd e [] pretty indent"

lemma to_json_string_append: "to_json_string k str = str @ to_json_string k []"
  by (simp add: to_json_string_def)

lemma dict_iter_join:
  "list_all (appends \<circ> snd) es \<Longrightarrow>
   it_str (foldl (\<lambda>s e. to_json_dict_iter (fst e) (snd e) s) s es) =
     it_str s @ join_entries (it_pretty s) (it_indent s) (it_count s) (map (entry_text (it_pretty s) (it_indent s)) es)"
proof (induction es arbitrary: s)
  case (Cons e es)
  then show ?case
    using appendsD[of "snd e" "it_str s @ entry_sep (it_pretty s) (it_indent s) (it_count s) @
        to_json_string (fst e) [] @ '': ''" "it_pretty s" "it_indent s"]
      to_json_string_append[where k = "fst e" and str = "it_str s @ entry_sep (it_pretty s) (it_indent s) (it_count s)"]
    by (simp add: to_json_dict_iter_def iter_prefix_eq Let_def entry_text_def)
qed simp

lemma to_json_appends: "appends (to_json fmt_f obj)"
proof (induction obj)
  case (QList xs)
  then have "list_all appends (map (to_json fmt_f) xs)" by (simp add: list_all_iff)
  from list_iter_join[OF this] show ?case
    by (simp add: appends_def Let_def qlist_iter_def iter_start_def)
next
  case (QDict d)
  have "list_all (appends \<circ> snd) (concat (dtable (map_qdict (to_json fmt_f) d)))"
    using QDict by (cases d) (fastforce simp: list_all_iff snds.simps)
  from dict_iter_join[OF this] show ?case
    by (simp add: appends_def Let_def qdict_iter_entries entries_list_def iter_start_def)
qed (simp_all add: appends_def to_json_string_def)

lemma to_json_list:
  "to_json fmt_f (QList xs) [] pretty indent =
     bracketed pretty indent (CHR ''['') (CHR '']'') (map (\<lambda>x. to_json fmt_f x [] pretty (Suc indent)) xs)"
proof -
  have "list_all appends (map (to_json fmt_f) xs)" by (simp add: list_all_iff to_json_appends)
  from list_iter_join[OF this] show ?thesis
    by (simp add: Let_def qlist_iter_def iter_start_def bracketed_def comp_def)
qed

definition entry_json :: "(u64 \<Rightarrow> string) \<Rightarrow> bool \<Rightarrow> nat \<Rightarrow> string \<times> qobject \<Rightarrow> string" where
  "entry_json fmt_f pretty indent e = to_json_string (fst e) [] @ '': '' @ to_json fmt_f (snd e) [] pretty indent"

lemma to_json_dict:
  "to_json fmt_f (QDict d) [] pretty indent =
     bracketed pretty indent (CHR ''{'') (CHR ''}'') (map (entry_json fmt_f pretty (Suc indent)) (entries_list d))"
proof -
  have "list_all (appends \<circ> snd) (entries_list (map_qdict (to_json fmt_f) d))"
    by (simp add: entries_map list_all_iff to_json_appends)
  from dict_iter_join[OF this] show ?thesis
    by (simp add: Let_def qdict_iter_entries iter_start_def bracketed_def entries_map entry_text_def[abs_def]
        entry_json_def[abs_def] comp_def)
qed


section \<open>Printable objects and their tokens\<close>

text \<open>Strings over the basic plane; no floats, whose text is the C library's business; well-formed tables.\<close>

definition bmp_string :: "string \<Rightarrow> bool" where
  "bmp_string s \<longleftrightarrow> (\<exists>ws. 0 \<notin> set ws \<and> s = utf8_string ws)"

primrec printable :: "qobject \<Rightarrow> bool" where
  "printable (QInt v) = True"
| "printable (QString s) = bmp_string s"
| "printable (QDict d) =
     (wf_qdict d \<and> list_all (\<lambda>e. bmp_string (fst e) \<and> snd e) (entries_list (map_qdict printable d)))"
| "printable (QList xs) = list_all id (map printable xs)"
| "printable (QFloat v) = False"
| "printable (QBool v) = True"

primrec comma_items :: "lex_item list list \<Rightarrow> lex_item list" where
  "comma_items [] = []"
| "comma_items (i # is) = op_item (CHR '','') # i @ comma_items is"

definition list_items :: "char \<Rightarrow> char \<Rightarrow> lex_item list list \<Rightarrow> lex_item list" where
  "list_items opening closing is =
     [op_item opening] @ (case is of [] \<Rightarrow> [] | i # is \<Rightarrow> i @ comma_items is) @ [op_item closing]"

definition string_item :: "string \<Rightarrow> lex_item" where
  "string_item s = (Tk JSON_STRING, to_json_string s [])"

definition entry_items :: "string \<times> lex_item list \<Rightarrow> lex_item list" where
  "entry_items e = [string_item (fst e), op_item (CHR '':'')] @ snd e"

primrec json_items :: "qobject \<Rightarrow> lex_item list" where
  "json_items (QInt v) = [(Tk JSON_INTEGER, fmt_d64 v)]"
| "json_items (QString s) = [string_item s]"
| "json_items (QDict d) = list_items (CHR ''{'') (CHR ''}'') (map entry_items (entries_list (map_qdict json_items d)))"
| "json_items (QList xs) = list_items (CHR ''['') (CHR '']'') (map json_items xs)"
| "json_items (QFloat v) = []"
| "json_items (QBool v) = [(Tk JSON_KEYWORD, if v \<noteq> 0 then ''true'' else ''false'')]"

lemma lexes_bmp_string: "bmp_string s \<Longrightarrow> lexes (to_json_string s []) [string_item s]"
  using lexes_string by (auto simp: bmp_string_def string_item_def to_json_string_def escape_chars_utf8)

lemma operator_chars [simp]:
  "operator_char (CHR ''{'')" "operator_char (CHR ''}'')" "operator_char (CHR ''['')" "operator_char (CHR '']'')"
  "operator_char (CHR '','')" "operator_char (CHR '':'')"
  by (simp_all add: operator_char_def)

lemma space_chars [simp]: "is_space 32" "is_space 10"
  by (simp_all add: is_space_def)

lemma newline_spaces: "list_all (\<lambda>c. is_space (of_char c)) (newline_indent n)"
  by (simp add: newline_indent_def list_all_iff)

lemma closes_comma: "count \<noteq> 0 \<Longrightarrow> closes (entry_sep pretty indent count) [op_item (CHR '','')]"
  using closes_append[OF closes_operator[of "CHR '',''"] passes_spaces,
      of "CHR '' '' # (if pretty then newline_indent indent else [])"] newline_spaces[of indent]
  by (simp add: entry_sep_def split: if_splits)

lemma passes_first: "passes (entry_sep pretty indent 0) []"
  using newline_spaces[of indent] by (auto simp: entry_sep_def passes_Nil intro: passes_spaces)

lemma closes_bracket: "operator_char c \<Longrightarrow> closes ((if pretty then newline_indent indent else []) @ [c]) [op_item c]"
  using closes_append[OF closes_spaces, of "CHR 0x0A" "replicate (4 * indent) (CHR '' '')" "[c]" "[op_item c]"]
    closes_operator[of c] closes_passes[OF closes_operator[of c]]
  by (auto simp: newline_indent_def list_all_iff)

lemma lexes_join:
  assumes "list_all2 lexes ts is" "lexes t i" "count \<noteq> 0"
  shows "lexes (t @ join_entries pretty indent count ts) (i @ comma_items is)"
  using assms
proof (induction ts arbitrary: t i "is" count)
  case (Cons u ts)
  obtain j js where iss: "is = j # js" "lexes u j" "list_all2 lexes ts js"
    using Cons.prems(1) by (cases "is") auto
  have "passes (t @ entry_sep pretty indent count) (i @ [op_item (CHR '','')])"
    using Cons.prems by (intro lexes_closes closes_comma)
  from lexes_prefix[OF this Cons.IH[OF iss(3,2), of "Suc count"]] show ?case by (simp add: iss(1))
qed simp

lemma lexes_bracketed:
  assumes "list_all2 lexes ts is" "operator_char opening" "operator_char closing"
  shows "lexes (bracketed pretty indent opening closing ts) (list_items opening closing is)"
proof -
  note o = closes_passes[OF closes_operator[OF assms(2)]] and c = closes_bracket[OF assms(3), of pretty indent]
  show ?thesis
  proof (cases ts)
    case Nil
    then show ?thesis
      using passes_lexes[OF passes_append[OF o closes_passes[OF c]]] assms(1)
      by (simp add: bracketed_def list_items_def)
  next
    case (Cons u us)
    obtain j js where iss: "is = j # js" "lexes u j" "list_all2 lexes us js"
      using assms(1) Cons by (cases "is") auto
    have "lexes (u @ join_entries pretty (Suc indent) (Suc 0) us) (j @ comma_items js)"
      using iss by (intro lexes_join) simp_all
    from lexes_closes[OF this c] have "passes ((u @ join_entries pretty (Suc indent) (Suc 0) us) @
        (if pretty then newline_indent indent else []) @ [closing]) ((j @ comma_items js) @ [op_item closing])" .
    from passes_lexes[OF passes_append[OF passes_append[OF o passes_first] this]] show ?thesis
      by (simp add: bracketed_def Cons iss(1) list_items_def)
  qed
qed

lemma lexes_to_json: "printable obj \<Longrightarrow> lexes (to_json fmt_f obj [] pretty indent) (json_items obj)"
proof (induction obj arbitrary: indent)
  case (QInt v)
  have "snprintf_to 1024 (fmt_d64 v) = fmt_d64 v" by (simp add: snprintf_to_def fmt_d64_length)
  then show ?case by (simp add: lexes_int)
next
  case (QList xs)
  then have "list_all2 lexes (map (\<lambda>x. to_json fmt_f x [] pretty (Suc indent)) xs) (map json_items xs)"
    by (simp add: list_all2_map1 list_all2_map2 list_all2_same list_all_iff)
  then show ?case by (simp add: to_json_list lexes_bracketed del: to_json.simps)
next
  case (QDict d)
  have "lexes (entry_json fmt_f pretty (Suc indent) e) (entry_items (map_prod id json_items e))"
    if e: "e \<in> set (entries_list d)" for e
  proof -
    have p: "bmp_string (fst e)" "printable (snd e)"
      using QDict.prems e by (auto simp: entries_map list_all_iff)
    then have v: "lexes (to_json fmt_f (snd e) [] pretty (Suc indent)) (json_items (snd e))"
      using QDict.IH e by (simp add: set_qdict_entries)
    have "closes ('':'' @ '' '') ([op_item (CHR '':'')] @ [])"
      by (intro closes_append closes_operator passes_spaces) simp_all
    from lexes_closes[OF lexes_bmp_string[OF p(1)] this] have
      "passes (to_json_string (fst e) [] @ '': '') [string_item (fst e), op_item (CHR '':'')]" by simp
    from lexes_prefix[OF this v] show ?thesis by (simp add: entry_json_def entry_items_def)
  qed
  then have "list_all2 lexes (map (entry_json fmt_f pretty (Suc indent)) (entries_list d))
      (map entry_items (entries_list (map_qdict json_items d)))"
    by (simp add: entries_map list_all2_map1 list_all2_map2 list_all2_same)
  then show ?case by (simp add: to_json_dict lexes_bracketed del: to_json.simps)
qed (simp_all add: lexes_bmp_string lexes_keyword)

end
