(* ===== verification/JSON_Roundtrip.thy ===== *)
theory JSON_Roundtrip
  imports JSON_Printing
begin

text \<open>
  What the JSON writer prints, the JSON reader reads back: the tokens of a printed object are one message for the
  splitter, the parser rebuilds the object from them, and the round trip theorem puts the layers together.
\<close>

section \<open>The splitter finds one message\<close>

definition absorb :: "json_token list \<Rightarrow> json_message_parser \<Rightarrow> json_message_parser" where
  "absorb ts p = p\<lparr>tokens := tokens p @ ts, token_size := token_size p + sum_list (map (length \<circ> tk_value) ts)\<rparr>"

definition items_size :: "lex_item list \<Rightarrow> nat" where
  "items_size is = sum_list (map (length \<circ> snd) is)"

text \<open>\<open>quiet is n\<close>: inside an open bracket, with \<open>n\<close> levels to spare, the tokens are collected without a message.\<close>

definition quiet :: "lex_item list \<Rightarrow> nat \<Rightarrow> bool" where
  "quiet is n \<longleftrightarrow>
     (\<forall>ts p. map tk_item ts = is \<longrightarrow> 0 \<le> brace_count p \<longrightarrow> 0 \<le> bracket_count p \<longrightarrow>
        0 < brace_count p + bracket_count p \<longrightarrow> brace_count p + int n \<le> MAX_NESTING \<longrightarrow>
        bracket_count p + int n \<le> MAX_NESTING \<longrightarrow> token_size p + items_size is \<le> MAX_TOKEN_SIZE \<longrightarrow>
        process_tokens ts p = (absorb ts p, []))"

lemma items_size_append [simp]: "items_size (xs @ ys) = items_size xs + items_size ys"
  by (simp add: items_size_def)

lemma items_size_Cons [simp]: "items_size (x # xs) = length (snd x) + items_size xs" "items_size [] = 0"
  by (simp_all add: items_size_def)

lemma items_size_tokens: "map tk_item ts = is \<Longrightarrow> sum_list (map (length \<circ> tk_value) ts) = items_size is"
  by (auto simp: items_size_def tk_item_def comp_def)

lemma absorb_counts [simp]:
  "brace_count (absorb ts p) = brace_count p" "bracket_count (absorb ts p) = bracket_count p"
  "tokens (absorb ts p) = tokens p @ ts" "token_size (absorb ts p) = token_size p + sum_list (map (length \<circ> tk_value) ts)"
  by (simp_all add: absorb_def)

lemma absorb_append: "absorb ys (absorb xs p) = absorb (xs @ ys) p"
  by (simp add: absorb_def)

lemma quiet_Nil: "quiet [] n"
  by (simp add: quiet_def absorb_def)

lemma quiet_mono: "quiet is n \<Longrightarrow> n \<le> m \<Longrightarrow> quiet is m"
  unfolding quiet_def by fastforce

lemma quiet_append:
  assumes "quiet xs n" "quiet ys n"
  shows "quiet (xs @ ys) n"
  unfolding quiet_def
proof (intro allI impI)
  fix ts and p :: json_message_parser
  assume ts: "map tk_item ts = xs @ ys" and p: "0 \<le> brace_count p" "0 \<le> bracket_count p"
    "0 < brace_count p + bracket_count p" "brace_count p + int n \<le> MAX_NESTING" "bracket_count p + int n \<le> MAX_NESTING"
    "token_size p + items_size (xs @ ys) \<le> MAX_TOKEN_SIZE"
  obtain us vs where s: "ts = us @ vs" "map tk_item us = xs" "map tk_item vs = ys"
    using ts by (auto simp: map_eq_append_conv)
  have u: "process_tokens us p = (absorb us p, [])" using assms(1) s(2) p by (auto simp: quiet_def)
  have "process_tokens vs (absorb us p) = (absorb vs (absorb us p), [])"
    using assms(2) s(3) p items_size_tokens[OF s(2)] by (auto simp: quiet_def)
  with u show "process_tokens ts p = (absorb ts p, [])" by (simp add: s(1) process_tokens_append absorb_append)
qed

text \<open>Tokens that are no bracket.\<close>

definition plain_item :: "lex_item \<Rightarrow> bool" where
  "plain_item i \<longleftrightarrow> fst i \<noteq> Tk JSON_ERROR \<and>
     (fst i = Tk JSON_OPERATOR \<longrightarrow> snd i \<in> {[CHR '',''], [CHR '':'']})"

lemma plain_count: "plain_item (tk_item t) \<Longrightarrow> count_brackets t p = p"
  by (auto simp: plain_item_def tk_item_def count_brackets_def split: list.splits)

lemma process_plain:
  assumes "plain_item (tk_item t)" "0 \<le> brace_count p" "0 \<le> bracket_count p" "0 < brace_count p + bracket_count p"
    "brace_count p \<le> MAX_NESTING" "bracket_count p \<le> MAX_NESTING" "token_size p + length (tk_value t) \<le> MAX_TOKEN_SIZE"
  shows "json_message_process_token t p = (absorb [t] p, [])"
  using assms plain_count[OF assms(1)]
  by (auto simp: json_message_process_token_def Let_def absorb_def qlist_append_obj_def plain_item_def tk_item_def)

lemma quiet_plain: "plain_item i \<Longrightarrow> quiet [i] n"
  unfolding quiet_def
proof (intro allI impI)
  fix ts and p :: json_message_parser
  assume i: "plain_item i" and ts: "map tk_item ts = [i]" and p: "0 \<le> brace_count p" "0 \<le> bracket_count p"
    "0 < brace_count p + bracket_count p" "brace_count p + int n \<le> MAX_NESTING" "bracket_count p + int n \<le> MAX_NESTING"
    "token_size p + items_size [i] \<le> MAX_TOKEN_SIZE"
  obtain t where t: "ts = [t]" "tk_item t = i" using ts by auto
  have "json_message_process_token t p = (absorb [t] p, [])"
    using i t(2) p by (intro process_plain) (auto simp: tk_item_def items_size_def)
  then show "process_tokens ts p = (absorb ts p, [])" by (simp add: t(1))
qed

definition matching :: "char \<Rightarrow> char \<Rightarrow> bool" where
  "matching a b \<longleftrightarrow> a = CHR ''{'' \<and> b = CHR ''}'' \<or> a = CHR ''['' \<and> b = CHR '']''"

text \<open>The counters after an opening bracket, on a splitter that is open or in its initial state.\<close>

definition opened :: "char \<Rightarrow> json_message_parser \<Rightarrow> json_message_parser" where
  "opened c p = (if c = CHR ''{'' then p\<lparr>brace_count := brace_count p + 1\<rparr> else p\<lparr>bracket_count := bracket_count p + 1\<rparr>)"

lemma process_opening:
  assumes "tk_item t = op_item a" "matching a b" "0 \<le> brace_count p" "0 \<le> bracket_count p"
    "brace_count p < MAX_NESTING" "bracket_count p < MAX_NESTING" "token_size p + 1 \<le> MAX_TOKEN_SIZE"
  shows "json_message_process_token t p = (absorb [t] (opened a p), [])"
  using assms
  by (auto simp: json_message_process_token_def count_brackets_def Let_def absorb_def qlist_append_obj_def
      matching_def tk_item_def opened_def)

lemma process_closing:
  assumes "tk_item t = op_item b" "matching a b" "0 \<le> brace_count p" "0 \<le> bracket_count p"
    "brace_count p \<le> MAX_NESTING" "bracket_count p \<le> MAX_NESTING"
    "token_size p + sum_list (map (length \<circ> tk_value) ts) + 1 \<le> MAX_TOKEN_SIZE"
  shows "json_message_process_token t (absorb ts (opened a p)) =
     (if brace_count p = 0 \<and> bracket_count p = 0 then (json_message_parser_init, [Some (tokens p @ ts @ [t])])
      else (absorb (ts @ [t]) p, []))"
  using assms
  by (auto simp: json_message_process_token_def count_brackets_def Let_def absorb_def qlist_append_obj_def
      matching_def tk_item_def opened_def)

lemma quiet_bracketed:
  assumes "quiet is n" "matching a b"
  shows "quiet ([op_item a] @ is @ [op_item b]) (Suc n)"
  unfolding quiet_def
proof (intro allI impI)
  fix ts and p :: json_message_parser
  assume ts: "map tk_item ts = [op_item a] @ is @ [op_item b]" and p: "0 \<le> brace_count p" "0 \<le> bracket_count p"
    "0 < brace_count p + bracket_count p" "brace_count p + int (Suc n) \<le> MAX_NESTING"
    "bracket_count p + int (Suc n) \<le> MAX_NESTING"
    "token_size p + items_size ([op_item a] @ is @ [op_item b]) \<le> MAX_TOKEN_SIZE"
  obtain t us u where s: "ts = t # us @ [u]" "tk_item t = op_item a" "map tk_item us = is" "tk_item u = op_item b"
    using ts by (auto simp: map_eq_append_conv map_eq_Cons_conv)
  have l: "length (tk_value t) = 1" using s(2) by (simp add: tk_item_def)
  have 1: "json_message_process_token t p = (absorb [t] (opened a p), [])"
    using p s(2) assms(2) by (intro process_opening) auto
  have 2: "process_tokens us (absorb [t] (opened a p)) = (absorb us (absorb [t] (opened a p)), [])"
    using assms(1)[unfolded quiet_def] s(3) p l by (auto simp: opened_def)
  have 3: "json_message_process_token u (absorb (t # us) (opened a p)) = (absorb ((t # us) @ [u]) p, [])"
    using p s(4) assms(2) l items_size_tokens[OF s(3)] by (subst process_closing) auto
  show "process_tokens ts p = (absorb ts p, [])"
    using 1 2 3 by (simp add: s(1) process_tokens_append absorb_append)
qed

text \<open>The nesting of an object, and the tokens of a printable one.\<close>

primrec nesting :: "qobject \<Rightarrow> nat" where
  "nesting (QInt v) = 0"
| "nesting (QString s) = 0"
| "nesting (QDict d) = Suc (foldr max (map snd (entries_list (map_qdict nesting d))) 0)"
| "nesting (QList xs) = Suc (foldr max (map nesting xs) 0)"
| "nesting (QFloat v) = 0"
| "nesting (QBool v) = 0"

lemma foldr_max_le: "x \<in> set xs \<Longrightarrow> x \<le> foldr max xs (0 :: nat)"
  by (induction xs) auto

lemma quiet_commas: "list_all (\<lambda>i. quiet i n) is \<Longrightarrow> quiet (comma_items is) n"
proof (induction "is")
  case (Cons i "is")
  have "quiet ([op_item (CHR '','')] @ i @ comma_items is) n"
    using Cons by (intro quiet_append quiet_plain) (simp_all add: plain_item_def)
  then show ?case by simp
qed (simp add: quiet_Nil)

lemma quiet_inner: "list_all (\<lambda>i. quiet i n) is \<Longrightarrow> quiet (case is of [] \<Rightarrow> [] | i # is \<Rightarrow> i @ comma_items is) n"
  by (cases "is") (simp_all add: quiet_Nil quiet_append quiet_commas)

lemma quiet_entries:
  assumes "\<And>e. e \<in> set (entries_list d) \<Longrightarrow> quiet (json_items (snd e)) (nesting (snd e))"
  shows "list_all (\<lambda>i. quiet i (foldr max (map snd (entries_list (map_qdict nesting d))) 0))
    (map entry_items (entries_list (map_qdict json_items d)))"
proof -
  have "quiet (entry_items (map_prod id json_items e)) (foldr max (map snd (entries_list (map_qdict nesting d))) 0)"
    if e: "e \<in> set (entries_list d)" for e
  proof -
    have "nesting (snd e) \<le> foldr max (map snd (entries_list (map_qdict nesting d))) 0"
      using e by (intro foldr_max_le) (force simp: entries_map)
    from quiet_mono[OF assms[OF e] this] have
      "quiet ([string_item (fst e)] @ [op_item (CHR '':'')] @ json_items (snd e))
        (foldr max (map snd (entries_list (map_qdict nesting d))) 0)"
      by (intro quiet_append quiet_plain) (simp_all add: plain_item_def string_item_def)
    then show ?thesis by (simp add: entry_items_def)
  qed
  then show ?thesis by (auto simp: list_all_iff entries_map)
qed

lemma quiet_elems:
  assumes "\<And>x. x \<in> set xs \<Longrightarrow> quiet (json_items x) (nesting x)"
  shows "list_all (\<lambda>i. quiet i (foldr max (map nesting xs) 0)) (map json_items xs)"
  using assms by (auto simp: list_all_iff intro!: quiet_mono[OF assms foldr_max_le])

lemma quiet_items: "quiet (json_items obj) (nesting obj)"
proof (induction obj)
  case (QList xs)
  have "quiet ([op_item (CHR ''['')] @ (case map json_items xs of [] \<Rightarrow> [] | i # is \<Rightarrow> i @ comma_items is) @ [op_item (CHR '']'')])
      (Suc (foldr max (map nesting xs) 0))"
    using QList by (intro quiet_bracketed quiet_inner quiet_elems) (simp_all add: matching_def)
  then show ?case by (simp add: list_items_def)
next
  case (QDict d)
  have "quiet ([op_item (CHR ''{'')] @ (case map entry_items (entries_list (map_qdict json_items d)) of [] \<Rightarrow> [] | i # is \<Rightarrow> i @ comma_items is)
      @ [op_item (CHR ''}'')]) (Suc (foldr max (map snd (entries_list (map_qdict nesting d))) 0))"
    using QDict by (intro quiet_bracketed quiet_inner quiet_entries) (auto simp: matching_def set_qdict_entries)
  then show ?case by (simp add: list_items_def)
qed (simp_all add: quiet_plain quiet_Nil plain_item_def string_item_def)

lemma splits_bracketed:
  assumes "quiet is n" "n < 1024" "matching a b" "map tk_item ts = [op_item a] @ is @ [op_item b]"
    "items_size ([op_item a] @ is @ [op_item b]) \<le> MAX_TOKEN_SIZE"
  shows "process_tokens ts json_message_parser_init = (json_message_parser_init, [Some ts])"
proof -
  let ?p = json_message_parser_init
  obtain t us u where s: "ts = t # us @ [u]" "tk_item t = op_item a" "map tk_item us = is" "tk_item u = op_item b"
    using assms(4) by (auto simp: map_eq_append_conv map_eq_Cons_conv)
  have l: "length (tk_value t) = 1" using s(2) by (simp add: tk_item_def)
  have 1: "json_message_process_token t ?p = (absorb [t] (opened a ?p), [])"
    using assms s(2) by (intro process_opening) (auto simp: json_message_parser_init_def MAX_NESTING_def)
  have 2: "process_tokens us (absorb [t] (opened a ?p)) = (absorb us (absorb [t] (opened a ?p)), [])"
    using assms(1)[unfolded quiet_def] s(3) assms l
    by (auto simp: opened_def json_message_parser_init_def MAX_NESTING_def)
  have 3: "json_message_process_token u (absorb (t # us) (opened a ?p)) = (?p, [Some (t # us @ [u])])"
    using s(4) assms l items_size_tokens[OF s(3)]
    by (subst process_closing) (auto simp: json_message_parser_init_def MAX_NESTING_def)
  show ?thesis using 1 2 3 by (simp add: s(1) process_tokens_append absorb_append)
qed

lemma splits_plain:
  assumes "plain_item (tk_item t)"
  shows "process_tokens [t] json_message_parser_init = (json_message_parser_init, [Some [t]])"
  using assms plain_count[OF assms, of json_message_parser_init]
  by (simp add: json_message_process_token_def Let_def qlist_append_obj_def plain_item_def tk_item_def
      json_message_parser_init_def)

lemma splits_once:
  assumes "printable obj" "nesting obj \<le> 1024" "map tk_item ts = json_items obj"
    "items_size (json_items obj) \<le> MAX_TOKEN_SIZE"
  shows "process_tokens ts json_message_parser_init = (json_message_parser_init, [Some ts])"
proof (cases obj)
  case (QList xs)
  show ?thesis
    using assms QList quiet_inner[OF quiet_elems[OF quiet_items]]
    by (intro splits_bracketed[where a = "CHR ''[''" and b = "CHR '']''"]) (auto simp: list_items_def matching_def)
next
  case (QDict d)
  show ?thesis
    using assms QDict quiet_inner[OF quiet_entries[OF quiet_items]]
    by (intro splits_bracketed[where a = "CHR ''{''" and b = "CHR ''}''"]) (auto simp: list_items_def matching_def)
qed (use assms splits_plain in \<open>auto simp: plain_item_def string_item_def\<close>)

section \<open>The parser rebuilds the object\<close>

text \<open>Objects up to the order inside a hash chain and the number that stands for true.\<close>

datatype jval = JInt i64 | JString string | JDict "string \<Rightarrow> jval option" | JList "jval list" | JFloat u64 | JBool bool

primrec jval_of :: "qobject \<Rightarrow> jval" where
  "jval_of (QInt v) = JInt v"
| "jval_of (QString s) = JString s"
| "jval_of (QDict d) = JDict (qdict_get (map_qdict jval_of d))"
| "jval_of (QList xs) = JList (map jval_of xs)"
| "jval_of (QFloat v) = JFloat v"
| "jval_of (QBool v) = JBool (v \<noteq> 0)"

definition parses :: "(string \<Rightarrow> u64) \<Rightarrow> qobject \<Rightarrow> bool" where
  "parses strtod obj \<longleftrightarrow>
     (\<forall>ts rest n. map tk_item ts = json_items obj \<longrightarrow> length ts < n \<longrightarrow>
        (\<exists>obj'. parse_value n strtod (ts @ rest) None = Inr (Some obj', rest, None) \<and> jval_of obj' = jval_of obj))"

lemma parsesE:
  assumes "parses strtod obj" "map tk_item ts = json_items obj" "length ts < n"
  obtains obj' where "parse_value n strtod (ts @ rest) None = Inr (Some obj', rest, None)" "jval_of obj' = jval_of obj"
  using assms unfolding parses_def by blast

lemma or_else_simps [simp]:
  "or_else (Inr (Some obj, ts, ap)) f = Inr (Some obj, ts, ap)" "or_else (Inr (None, ts, ap)) f = f ts ap"
  by (simp_all add: or_else_def)

lemma token_ops [simp]: "token_is_operator t c \<longleftrightarrow> tk_item t = op_item c"
  by (auto simp: token_is_operator_def tk_item_def)

lemma parse_scalar:
  assumes "tk_type t \<noteq> Tk JSON_OPERATOR"
  shows "parse_value (Suc n) strtod (t # rest) None =
    or_else (parse_keyword (t # rest) None) (parse_literal strtod)"
  using assms
  by (simp add: parse_object_def parse_array_def parse_escape_def or_else_def tk_item_def)

lemma parses_string:
  assumes "bmp_string s"
  shows "parses strtod (QString s)"
  unfolding parses_def
proof (intro allI impI)
  fix ts rest n
  assume "map tk_item ts = json_items (QString s)" "length ts < n"
  then obtain t m where t: "ts = [t]" "tk_item t = string_item s" "n = Suc m" by (cases n) auto
  obtain ws where ws: "0 \<notin> set ws" "s = utf8_string ws" using assms by (auto simp: bmp_string_def)
  have "unescape True (escape_chars s @ [CHR 0x22]) [] = Some s"
    using ws unescape_utf8[of ws "[]"] by (simp add: escape_chars_utf8)
  then show "\<exists>obj'. parse_value n strtod (ts @ rest) None = Inr (Some obj', rest, None) \<and> jval_of obj' = jval_of (QString s)"
    using t parse_scalar[of t]
    by (simp add: tk_item_def string_item_def parse_keyword_def or_else_def parse_literal_def
        qstring_from_escaped_str_def to_json_string_def del: parse_value.simps unescape.simps)
qed

lemma parses_int: "parses strtod (QInt v)"
  unfolding parses_def
proof (intro allI impI)
  fix ts rest n
  assume "map tk_item ts = json_items (QInt v)" "length ts < n"
  then obtain t m where t: "ts = [t]" "tk_item t = (Tk JSON_INTEGER, fmt_d64 v)" "n = Suc m" by (cases n) auto
  then show "\<exists>obj'. parse_value n strtod (ts @ rest) None = Inr (Some obj', rest, None) \<and> jval_of obj' = jval_of (QInt v)"
    using parse_scalar[of t]
    by (simp add: tk_item_def parse_keyword_def or_else_def parse_literal_def strtoll_fmt del: parse_value.simps)
qed

lemma parses_bool: "parses strtod (QBool v)"
  unfolding parses_def
proof (intro allI impI)
  fix ts rest n
  assume "map tk_item ts = json_items (QBool v)" "length ts < n"
  then obtain t m where t: "ts = [t]" "tk_item t = (Tk JSON_KEYWORD, if v \<noteq> 0 then ''true'' else ''false'')" "n = Suc m"
    by (cases n) auto
  then show "\<exists>obj'. parse_value n strtod (ts @ rest) None = Inr (Some obj', rest, None) \<and> jval_of obj' = jval_of (QBool v)"
    using parse_scalar[of t]
    by (simp add: tk_item_def parse_keyword_def token_is_keyword_def or_else_def del: parse_value.simps)
qed

lemma items_first:
  assumes "printable obj"
  obtains i "is" where "json_items obj = i # is" "i \<noteq> op_item (CHR '']'')" "i \<noteq> op_item (CHR ''}'')"
  using assms by (cases obj) (auto simp: list_items_def string_item_def)

text \<open>The loop of the array rule.\<close>

lemma parse_elems_items:
  assumes "\<And>x. x \<in> set xs \<Longrightarrow> parses strtod x" "map tk_item ts = comma_items (map json_items xs)"
    "tk_item c = op_item (CHR '']'')" "length ts < n" "length ts < k"
  shows "\<exists>ys. parse_elems k (parse_value n strtod) acc (ts @ c # rest) None = Inr (Some (acc @ ys), rest, None) \<and>
    map jval_of ys = map jval_of xs"
  using assms
proof (induction xs arbitrary: ts acc k)
  case Nil
  then show ?case by (cases k) auto
next
  case (Cons x xs)
  obtain t us vs where ts: "ts = t # us @ vs" "tk_item t = op_item (CHR '','')" "map tk_item us = json_items x"
      "map tk_item vs = comma_items (map json_items xs)"
    using Cons.prems(2) by (auto simp: map_eq_append_conv map_eq_Cons_conv)
  obtain j where k: "k = Suc j" using Cons.prems(5) by (cases k) auto
  obtain y where y: "parse_value n strtod (us @ vs @ c # rest) None = Inr (Some y, vs @ c # rest, None)"
      "jval_of y = jval_of x"
    using parsesE[OF Cons.prems(1)[of x] ts(3), of n "vs @ c # rest"] Cons.prems(4) ts(1) by auto
  obtain ys where "parse_elems j (parse_value n strtod) (acc @ [y]) (vs @ c # rest) None =
      Inr (Some ((acc @ [y]) @ ys), rest, None)" "map jval_of ys = map jval_of xs"
    using Cons.IH[OF _ ts(4) Cons.prems(3), of j "acc @ [y]"] Cons.prems ts(1) k by auto
  then show ?case
    using y ts by (intro exI[of _ "y # ys"]) (simp add: k qlist_append_obj_def del: parse_value.simps)
qed

lemma parse_value_array:
  assumes "tk_item t = op_item (CHR ''['')" "parse_array (parse_value m strtod) (t # w) None = Inr (Some obj, r, None)"
  shows "parse_value (Suc m) strtod (t # w) None = Inr (Some obj, r, None)"
  using assms by (simp add: parse_object_def)

lemma parse_value_object:
  assumes "parse_object (parse_value m strtod) (t # w) None = Inr (Some obj, r, None)"
  shows "parse_value (Suc m) strtod (t # w) None = Inr (Some obj, r, None)"
  using assms by simp

lemma parses_list:
  assumes "\<And>x. x \<in> set xs \<Longrightarrow> parses strtod x" "\<And>x. x \<in> set xs \<Longrightarrow> printable x"
  shows "parses strtod (QList xs)"
  unfolding parses_def
proof (intro allI impI)
  fix ts rest n
  assume ts: "map tk_item ts = json_items (QList xs)" and n: "length ts < n"
  obtain m where m: "n = Suc m" using n by (cases n) auto
  obtain t us c where s: "ts = t # us @ [c]" "tk_item t = op_item (CHR ''['')" "tk_item c = op_item (CHR '']'')"
      "map tk_item us = (case map json_items xs of [] \<Rightarrow> [] | i # is \<Rightarrow> i @ comma_items is)"
    using ts by (auto simp: list_items_def map_eq_append_conv map_eq_Cons_conv)
  have "\<exists>ys. parse_array (parse_value m strtod) (t # us @ c # rest) None = Inr (Some (QList ys), rest, None) \<and>
      map jval_of ys = map jval_of xs"
  proof (cases xs)
    case Nil
    then show ?thesis using s by (simp add: parse_array_def qlist_new_def)
  next
    case (Cons x xs')
    obtain vs ws where u: "us = vs @ ws" "map tk_item vs = json_items x" "map tk_item ws = comma_items (map json_items xs')"
      using s(4) Cons by (auto simp: map_eq_append_conv)
    obtain i "is" where i: "json_items x = i # is" "i \<noteq> op_item (CHR '']'')"
      using items_first[of x] assms(2) Cons by (metis list.set_intros(1))
    then obtain v vs' where v: "vs = v # vs'" "tk_item v \<noteq> op_item (CHR '']'')" using u(2) by auto
    obtain y where y: "parse_value m strtod (vs @ ws @ c # rest) None = Inr (Some y, ws @ c # rest, None)"
        "jval_of y = jval_of x"
      using parsesE[OF assms(1)[of x] u(2), of m "ws @ c # rest"] n m s(1) u(1) Cons by auto
    obtain ys where "parse_elems (Suc (length (ws @ c # rest))) (parse_value m strtod) [y] (ws @ c # rest) None =
        Inr (Some ([y] @ ys), rest, None)" "map jval_of ys = map jval_of xs'"
      using parse_elems_items[OF _ u(3) s(3), of strtod m "Suc (length (ws @ c # rest))" "[y]" rest] assms(1) n m s(1) u(1) Cons
      by auto
    then show ?thesis
      using y v Cons s(2)
      by (intro exI[of _ "y # ys"])
         (simp add: parse_array_def u(1) qlist_append_obj_def qlist_new_def del: parse_value.simps parse_elems.simps)
  qed
  then show "\<exists>obj'. parse_value n strtod (ts @ rest) None = Inr (Some obj', rest, None) \<and> jval_of obj' = jval_of (QList xs)"
    using parse_value_array[OF s(2), of m strtod "us @ c # rest"] by (auto simp: s(1) m simp del: parse_value.simps)
qed

definition pair_items :: "string \<times> qobject \<Rightarrow> lex_item list" where
  "pair_items e = entry_items (fst e, json_items (snd e))"

lemma dict_items: "map entry_items (entries_list (map_qdict json_items d)) = map pair_items (entries_list d)"
  by (simp add: entries_map pair_items_def map_prod_def split_beta)

text \<open>One entry of an object, and the loop of the object rule.\<close>

lemma parse_pair_items:
  assumes "bmp_string (fst e)" "parses strtod (snd e)" "map tk_item ts = pair_items e"
    "length ts < n"
  shows "\<exists>v. parse_pair (parse_value n strtod) dict (ts @ rest) None = Inr (Some (qdict_put_obj dict (fst e) v), rest, None) \<and>
    jval_of v = jval_of (snd e)"
proof -
  obtain t u us where s: "ts = t # u # us" "tk_item t = string_item (fst e)" "tk_item u = op_item (CHR '':'')"
      "map tk_item us = json_items (snd e)"
    using assms(3) by (auto simp: pair_items_def entry_items_def)
  obtain key where "parse_value n strtod ([t] @ u # us @ rest) None = Inr (Some key, u # us @ rest, None)"
      "jval_of key = jval_of (QString (fst e))"
    using parsesE[OF parses_string[OF assms(1)], of "[t]" n strtod "u # us @ rest"] s assms(4) by auto
  then have k: "parse_value n strtod (t # u # us @ rest) None = Inr (Some (QString (fst e)), u # us @ rest, None)"
    by (cases key) auto
  obtain v where "parse_value n strtod (us @ rest) None = Inr (Some v, rest, None)" "jval_of v = jval_of (snd e)"
    using parsesE[OF assms(2) s(4), of n rest] s(1) assms(4) by auto
  then show ?thesis using k s by (auto simp: parse_pair_def qobject_to_qstring_def)
qed

lemma parse_pairs_items:
  assumes "\<And>e. e \<in> set es \<Longrightarrow> bmp_string (fst e) \<and> parses strtod (snd e)"
    "map tk_item ts = comma_items (map pair_items es)"
    "tk_item c = op_item (CHR ''}'')" "length ts < n" "length ts < k"
  shows "\<exists>ps. parse_pairs k (parse_value n strtod) dict (ts @ c # rest) None = Inr (Some (qd.put_all dict ps), rest, None) \<and>
    map (map_prod id jval_of) ps = map (map_prod id jval_of) es"
  using assms
proof (induction es arbitrary: ts dict k)
  case Nil
  then show ?case by (cases k) (auto simp: qd.put_all_def intro!: exI[of _ "[]"])
next
  case (Cons e es)
  obtain t us vs where ts: "ts = t # us @ vs" "tk_item t = op_item (CHR '','')"
      "map tk_item us = pair_items e"
      "map tk_item vs = comma_items (map pair_items es)"
    using Cons.prems(2) by (auto simp: map_eq_append_conv map_eq_Cons_conv)
  obtain j where k: "k = Suc j" using Cons.prems(5) by (cases k) auto
  obtain v where v: "parse_pair (parse_value n strtod) dict (us @ vs @ c # rest) None =
      Inr (Some (qdict_put_obj dict (fst e) v), vs @ c # rest, None)" "jval_of v = jval_of (snd e)"
    using parse_pair_items[OF _ _ ts(3), of strtod n dict "vs @ c # rest"] Cons.prems(1)[of e] Cons.prems(4) ts(1) by auto
  have "\<exists>ps. parse_pairs j (parse_value n strtod) (qdict_put_obj dict (fst e) v) (vs @ c # rest) None =
      Inr (Some (qd.put_all (qdict_put_obj dict (fst e) v) ps), rest, None) \<and>
      map (map_prod id jval_of) ps = map (map_prod id jval_of) es"
    using Cons.prems ts(1) k by (intro Cons.IH[OF _ ts(4) Cons.prems(3)]) auto
  then obtain ps where "parse_pairs j (parse_value n strtod) (qdict_put_obj dict (fst e) v) (vs @ c # rest) None =
      Inr (Some (qd.put_all (qdict_put_obj dict (fst e) v) ps), rest, None)"
      "map (map_prod id jval_of) ps = map (map_prod id jval_of) es" by blast
  then show ?case
    using v ts by (intro exI[of _ "(fst e, v) # ps"]) (auto simp: k qd.put_all_def prod_eq_iff id_def simp del: parse_value.simps)
qed


lemma map_of_values: "map_of (map (map_prod id f) xs) k = map_option f (map_of xs k)"
  by (induction xs) auto

lemma qdict_get_map: "length (dtable d) = QDICT_BUCKET_MAX \<Longrightarrow> qdict_get (map_qdict f d) k = map_option f (qdict_get d k)"
  by (simp add: qdict_get_map_of dtable_map map_of_values)

lemma jval_dict:
  assumes "wf_qdict d"
  shows "jval_of (QDict d) = JDict (map_of (map (map_prod id jval_of) (entries_list d)))"
proof -
  have "qdict_get (map_qdict jval_of d) k = map_of (map (map_prod id jval_of) (entries_list d)) k" for k
    using assms entries_list_get[OF assms] by (simp only: qdict_get_map wf_qdict_length map_of_values)
  then show ?thesis by (simp add: fun_eq_iff)
qed

lemma jval_put_all:
  assumes "map (map_prod id jval_of) ps = map (map_prod id jval_of) (entries_list d)" "wf_qdict d"
  shows "jval_of (QDict (qd.put_all qdict_new ps)) = jval_of (QDict d)"
proof -
  let ?d = "qd.put_all qdict_new ps"
  have wf: "wf_qdict ?d" by (rule qd.invar_put_all[OF qd.invar_empty])
  have keys: "map fst ps = map fst (entries_list d)"
    using arg_cong[OF assms(1), of "map fst"] by (simp add: comp_def)
  then have "distinct (map fst ps)" using entries_list_distinct[OF assms(2)] by simp
  then have "qdict_get ?d = map_of ps"
    by (simp add: qd.get_put_all[OF qd.invar_empty] qdict_get_new map_of_inject_set rev_map[symmetric])
  then have "qdict_get (map_qdict jval_of ?d) k = map_of (map (map_prod id jval_of) ps) k" for k
    using wf by (simp only: qdict_get_map wf_qdict_length map_of_values)
  then show ?thesis using jval_dict[OF assms(2)] assms(1) by (simp add: fun_eq_iff)
qed

lemma parses_dict:
  assumes "wf_qdict d" "\<And>e. e \<in> set (entries_list d) \<Longrightarrow> bmp_string (fst e) \<and> parses strtod (snd e)"
  shows "parses strtod (QDict d)"
  unfolding parses_def
proof (intro allI impI)
  fix ts rest n
  assume ts: "map tk_item ts = json_items (QDict d)" and n: "length ts < n"
  obtain m where m: "n = Suc m" using n by (cases n) auto
  obtain t us c where s: "ts = t # us @ [c]" "tk_item t = op_item (CHR ''{'')" "tk_item c = op_item (CHR ''}'')"
      "map tk_item us = (case map pair_items (entries_list d) of [] \<Rightarrow> [] | i # is \<Rightarrow> i @ comma_items is)"
    using ts by (auto simp: dict_items list_items_def map_eq_append_conv map_eq_Cons_conv)
  have "\<exists>ps. parse_object (parse_value m strtod) (t # us @ c # rest) None = Inr (Some (QDict (qd.put_all qdict_new ps)), rest, None) \<and>
      map (map_prod id jval_of) ps = map (map_prod id jval_of) (entries_list d)"
  proof (cases "entries_list d")
    case Nil
    then show ?thesis using s by (auto simp: parse_object_def qd.put_all_def intro!: exI[of _ "[]"])
  next
    case (Cons e es)
    obtain vs ws where u: "us = vs @ ws" "map tk_item vs = pair_items e" "map tk_item ws = comma_items (map pair_items es)"
      using s(4) Cons by (auto simp: map_eq_append_conv)
    obtain v vs' where v: "vs = v # vs'" "tk_item v \<noteq> op_item (CHR ''}'')"
      using u(2) by (auto simp: pair_items_def entry_items_def string_item_def)
    obtain y where y: "parse_pair (parse_value m strtod) qdict_new (vs @ ws @ c # rest) None =
        Inr (Some (qdict_put_obj qdict_new (fst e) y), ws @ c # rest, None)" "jval_of y = jval_of (snd e)"
      using parse_pair_items[OF _ _ u(2), of strtod m qdict_new "ws @ c # rest"] assms(2)[of e] n m s(1) u(1) Cons by auto
    have "\<exists>ps. parse_pairs (Suc (length (ws @ c # rest))) (parse_value m strtod) (qdict_put_obj qdict_new (fst e) y)
          (ws @ c # rest) None = Inr (Some (qd.put_all (qdict_put_obj qdict_new (fst e) y) ps), rest, None) \<and>
        map (map_prod id jval_of) ps = map (map_prod id jval_of) es"
      using assms(2) n m s(1) u(1) Cons by (intro parse_pairs_items[OF _ u(3) s(3)]) auto
    then obtain ps where "parse_pairs (Suc (length (ws @ c # rest))) (parse_value m strtod) (qdict_put_obj qdict_new (fst e) y)
          (ws @ c # rest) None = Inr (Some (qd.put_all (qdict_put_obj qdict_new (fst e) y) ps), rest, None)"
        "map (map_prod id jval_of) ps = map (map_prod id jval_of) es" by blast
    then show ?thesis
      using y v Cons s(2)
      by (intro exI[of _ "(fst e, y) # ps"])
         (auto simp: parse_object_def u(1) qd.put_all_def prod_eq_iff id_def simp del: parse_value.simps parse_pairs.simps)
  qed
  then obtain ps where ps: "parse_object (parse_value m strtod) (t # us @ c # rest) None =
      Inr (Some (QDict (qd.put_all qdict_new ps)), rest, None)"
      "map (map_prod id jval_of) ps = map (map_prod id jval_of) (entries_list d)" by blast
  have "parse_value n strtod (ts @ rest) None = Inr (Some (QDict (qd.put_all qdict_new ps)), rest, None)"
    using parse_value_object[OF ps(1)] by (simp add: s(1) m del: parse_value.simps)
  then show "\<exists>obj'. parse_value n strtod (ts @ rest) None = Inr (Some obj', rest, None) \<and> jval_of obj' = jval_of (QDict d)"
    using jval_put_all[OF ps(2) assms(1)] by blast
qed

lemma parses_printable: "printable obj \<Longrightarrow> parses strtod obj"
proof (induction obj)
  case (QList xs)
  then show ?case by (intro parses_list) (auto simp: list_all_iff)
next
  case (QDict d)
  then show ?case
    by (intro parses_dict) (auto simp: entries_map list_all_iff set_qdict_entries image_iff)
qed (simp_all add: parses_string parses_int parses_bool)

section \<open>The round trip\<close>

text \<open>A zero byte always makes the tokenizer report an error, and no token is longer than the text.\<close>

lemma lex_step_zero: "\<exists>tok. (Tk JSON_ERROR, tok) \<in> set (snd (lex_step p (CHR 0x00)))"
proof -
  obtain st tok where p: "p = (st, tok)" by (cases p)
  have "lex_first (CHR 0x00) = ((IN_START, []), [(Tk JSON_ERROR, [])])" by (simp add: lex_first_def char_classes)
  then show ?thesis
    using lookahead_code[of st] by (cases "json_lexer st 0") (auto simp: p simp del: json_lexer.simps)
qed

lemma lex_run_zero: "CHR 0x00 \<in> set s \<Longrightarrow> \<exists>tok. (Tk JSON_ERROR, tok) \<in> set (snd (lex_run p s))"
proof (induction s arbitrary: p)
  case (Cons c s)
  show ?case
  proof (cases "c = CHR 0x00")
    case True
    then show ?thesis using lex_step_zero[of p] by (fastforce split: prod.splits simp del: lex_step.simps)
  next
    case False
    then show ?thesis
      using Cons.IH[of "fst (lex_step p c)"] Cons.prems by (auto split: prod.splits simp del: lex_step.simps)
  qed
qed simp

lemma lex_first_size: "length (snd (fst (lex_first c))) + items_size (snd (lex_first c)) \<le> 1"
  by (auto simp: lex_first_def lex_item_def simp del: json_lexer.simps split: lex_code.splits)

lemma lex_step_size:
  "length (snd (fst (lex_step p c))) + items_size (snd (lex_step p c)) \<le> Suc (length (snd p))"
  using lex_first_size[of c]
  by (cases p) (auto simp: lex_item_def simp del: json_lexer.simps split: lex_code.splits prod.splits)

lemma lex_run_size: "length (snd (fst (lex_run p s))) + items_size (snd (lex_run p s)) \<le> length (snd p) + length s"
proof (induction s arbitrary: p)
  case (Cons c s)
  show ?case
    using lex_step_size[of p c] Cons.IH[of "fst (lex_step p c)"]
    by (auto split: prod.splits simp del: lex_step.simps)
qed simp

lemma lex_end_size: "items_size (lex_end p) \<le> length (snd p)"
  by (auto simp: lex_end_def lex_item_def simp del: json_lexer.simps split: lex_code.splits)

lemma lexes_all:
  assumes "lexes s items"
  shows "lex_all s = items" "items_size items \<le> length s"
    "list_all (\<lambda>i. fst i \<noteq> Tk JSON_ERROR) items \<Longrightarrow> CHR 0x00 \<notin> set s"
proof -
  obtain q out where q: "lex_run (IN_START, []) s = (q, out)" "out @ lex_end q = items"
    using assms unfolding lexes_def fresh_def by blast
  show "lex_all s = items" using q by (simp add: lex_all_def)
  show "items_size items \<le> length s"
    using lex_run_size[of "(IN_START, [])" s] lex_end_size[of q] q by auto
  assume "list_all (\<lambda>i. fst i \<noteq> Tk JSON_ERROR) items"
  then show "CHR 0x00 \<notin> set s"
    using lex_run_zero[of s "(IN_START, [])"] q(1) unfolding q(2)[symmetric]
    by (auto simp: list_all_iff) (metis UnI1 fst_conv)
qed

lemma items_no_error: "list_all (\<lambda>i. fst i \<noteq> Tk JSON_ERROR) (json_items obj)"
proof (induction obj)
  case (QList xs)
  have "list_all (\<lambda>i. fst i \<noteq> Tk JSON_ERROR) (comma_items (map json_items ys))" if "set ys \<subseteq> set xs" for ys
    using that QList by (induction ys) auto
  then show ?case using QList by (cases xs) (auto simp: list_items_def)
next
  case (QDict d)
  have e: "list_all (\<lambda>i. fst i \<noteq> Tk JSON_ERROR) (pair_items e)" if "e \<in> set (entries_list d)" for e
    using QDict[of "snd e"] that by (auto simp: pair_items_def entry_items_def string_item_def set_qdict_entries)
  have "list_all (\<lambda>i. fst i \<noteq> Tk JSON_ERROR) (comma_items (map pair_items es))" if "set es \<subseteq> set (entries_list d)" for es
    using that e by (induction es) auto
  then show ?case using e by (cases "entries_list d") (auto simp: list_items_def dict_items)
qed (simp_all add: string_item_def)

lemma from_json_items:
  assumes "printable obj" "nesting obj \<le> 1024" "lexes s (json_items obj)" "length s \<le> MAX_TOKEN_SIZE"
  shows "\<exists>obj'. qobject_from_json strtod s = Inr (Some obj') \<and> jval_of obj' = jval_of obj"
proof -
  note l = lexes_all[OF assms(3)]
  have "CHR 0x00 \<notin> set s" using l(3) items_no_error by blast
  then have c: "c_string s = s" by (simp add: c_string_def takeWhile_eq_all_conv) metis
  define ts where "ts = json_tokens s"
  have ts: "map tk_item ts = json_items obj" using json_tokens_refine[OF assms(4)] l(1) by (simp add: ts_def)
  have "process_tokens ts json_message_parser_init = (json_message_parser_init, [Some ts])"
    using assms l(2) ts by (intro splits_once) auto
  moreover obtain obj' where "parse_value (Suc (length ts)) strtod (ts @ []) None = Inr (Some obj', [], None)"
      "jval_of obj' = jval_of obj"
    using parsesE[OF parses_printable[OF assms(1)] ts, of "Suc (length ts)" strtod "[]"] by blast
  ultimately show ?thesis
    by (simp add: qobject_from_json_def from_jsonv_tokens c ts_def[symmetric] parse_json_def json_parser_parse_def
        del: parse_value.simps)
qed

lemma from_json_printed:
  assumes "printable obj" "nesting obj \<le> 1024" "length (to_json fmt_f obj [] pretty 0) \<le> MAX_TOKEN_SIZE"
  shows "\<exists>obj'. qobject_from_json strtod (to_json fmt_f obj [] pretty 0) = Inr (Some obj') \<and> jval_of obj' = jval_of obj"
  by (rule from_json_items[OF assms(1,2) lexes_to_json[OF assms(1)] assms(3)])

text \<open>White space behind the text does not matter.\<close>

lemma from_json_line:
  assumes "printable obj" "nesting obj \<le> 1024" "length (to_json fmt_f obj [] pretty 0) < MAX_TOKEN_SIZE"
  shows "\<exists>obj'. qobject_from_json strtod (to_json fmt_f obj [] pretty 0 @ [CHR 0x0A]) = Inr (Some obj') \<and>
    jval_of obj' = jval_of obj"
proof (rule from_json_items[OF assms(1,2)])
  have "closes [CHR 0x0A] []" by (intro closes_spaces) simp
  from passes_lexes[OF lexes_closes[OF lexes_to_json[OF assms(1)] this]]
  show "lexes (to_json fmt_f obj [] pretty 0 @ [CHR 0x0A]) (json_items obj)" by simp
qed (use assms(3) in simp)

text \<open>
  C14: Whatever the writer prints of an object with strings of the basic plane, without floats and nested at most 1024
  deep, plain or pretty, the reader answers with an equal object, if the text is not above 64 MB.
\<close>

theorem json_round_trip:
  assumes "printable obj" "nesting obj \<le> 1024"
    "text \<in> {qobject_to_json fmt_f obj, qobject_to_json_pretty fmt_f obj}" "length text \<le> MAX_TOKEN_SIZE"
  shows "\<exists>obj'. qobject_from_json strtod text = Inr (Some obj') \<and> jval_of obj' = jval_of obj"
  using assms from_json_printed[OF assms(1,2), of fmt_f False strtod] from_json_printed[OF assms(1,2), of fmt_f True strtod]
  by (auto simp: qobject_to_json_def qobject_to_json_pretty_def)

definition sample_json :: qobject where
  "sample_json = QList [QInt (- 5), QList [QBool 1, QString []], QDict qdict_new]"

lemma sample_json_text: "length (qobject_to_json_pretty fmt_f sample_json) \<le> 100"
proof -
  have e: "entries_list qdict_new = ([] :: (string \<times> qobject) list)"
    by (simp add: entries_list_def qdict_new_def)
  show ?thesis
    by (simp add: sample_json_def qobject_to_json_pretty_def to_json_list to_json_dict e bracketed_def entry_sep_def
        newline_indent_def snprintf_to_def fmt_d64_def dec_digits.simps to_json_string_def
        del: to_json.simps(3,4))
qed

theorem json_round_trip_witness:
  "\<exists>obj'. qobject_from_json (\<lambda>_. 0) (qobject_to_json_pretty (\<lambda>_. ''0'') sample_json) = Inr (Some obj') \<and>
     jval_of obj' = jval_of sample_json"
proof (rule json_round_trip)
  have "bmp_string []" unfolding bmp_string_def by (rule exI[of _ "[]"]) (simp add: utf8_string_def)
  moreover have "entries_list (map_qdict printable qdict_new) = []"
    by (simp add: entries_map) (simp add: entries_list_def qdict_new_def)
  ultimately show "printable sample_json" by (simp add: sample_json_def wf_qdict_new)
  have "entries_list (map_qdict nesting qdict_new) = []"
    by (simp add: entries_map) (simp add: entries_list_def qdict_new_def)
  then show "nesting sample_json \<le> 1024" by (simp add: sample_json_def)
  show "qobject_to_json_pretty (\<lambda>_. ''0'') sample_json
      \<in> {qobject_to_json (\<lambda>_. ''0'') sample_json, qobject_to_json_pretty (\<lambda>_. ''0'') sample_json}" by simp
  show "length (qobject_to_json_pretty (\<lambda>_. ''0'') sample_json) \<le> MAX_TOKEN_SIZE"
    using sample_json_text[of "\<lambda>_. ''0''"] by (simp add: MAX_TOKEN_SIZE_def)
qed

end
