(* ===== verification/Config_File.thy ===== *)
theory Config_File
  imports Variability JSON_Types JSON_Roundtrip
begin

text \<open>
  The configuration file of the extension (\<^verbatim>\<open>parse_variability_file\<close> of \<^verbatim>\<open>vl.c\<close>): a line of JSON per
  setting, read with \<^verbatim>\<open>fgets\<close> into a buffer of 2000 bytes until \<^verbatim>\<open>feof\<close>. The first line names the
  instruction classes; the others assign instructions to classes, mark instructions as erroneous,
  set the error windows and the faulty registers. The lines that only print are left out.
\<close>

section \<open>Reading lines\<close>

text \<open>A stream: the bytes that are left and the end-of-file flag, which only a read past the end sets.\<close>

record stream =
  left :: string
  at_eof :: bool

definition LINE_SIZE :: nat where "LINE_SIZE = 2000"

text \<open>At most \<open>n\<close> bytes up to and with a newline; the last component tells that the end was met.\<close>

primrec read_upto :: "nat \<Rightarrow> string \<Rightarrow> string \<times> string \<times> bool" where
  "read_upto 0 cs = ([], cs, False)"
| "read_upto (Suc n) cs =
     (case cs of
        [] \<Rightarrow> ([], [], True)
      | c # cs \<Rightarrow>
          if c = CHR 0x0A then ([c], cs, False)
          else (let (s, rest, eof) = read_upto n cs in (c # s, rest, eof)))"

text \<open>\<^verbatim>\<open>fgets(line, n, fp)\<close>: at the end of the file the buffer is left as it is.\<close>

definition fgets :: "nat \<Rightarrow> string \<Rightarrow> stream \<Rightarrow> string \<times> stream" where
  "fgets n line fp =
     (let (s, rest, eof) = read_upto (n - 1) (left fp);
          fp = \<lparr>left = rest, at_eof = at_eof fp \<or> eof\<rparr>
      in (if s = [] then line else s, fp))"

section \<open>One line\<close>

text \<open>The inner loops over the instruction names of an entry; \<open>set\<close> is the setter that the loop calls.\<close>

primrec insn_loop :: "(string \<Rightarrow> vstate \<Rightarrow> vstate result) \<Rightarrow> qobject list \<Rightarrow> vstate \<Rightarrow> vstate result" where
  "insn_loop set_insn [] st = Inr st"
| "insn_loop set_insn (v # vs) st =
     rbind (deref (qobject_to_qstring v)) (\<lambda>insn. rbind (set_insn insn st) (insn_loop set_insn vs))"

primrec entry_loop :: "(string \<Rightarrow> string \<Rightarrow> vstate \<Rightarrow> vstate result) \<Rightarrow> (string \<times> qobject) list \<Rightarrow> vstate \<Rightarrow> vstate result" where
  "entry_loop set_insn [] st = Inr st"
| "entry_loop set_insn (entry # es) st =
     rbind (deref (qobject_to_qlist (snd entry))) (\<lambda>insn_list.
     rbind (insn_loop (set_insn (fst entry)) (qlist_first insn_list) st) (entry_loop set_insn es))"

text \<open>The \<^verbatim>\<open>do\<close> loop reads its first entry without a test.\<close>

definition all_entries :: "(string \<Rightarrow> string \<Rightarrow> vstate \<Rightarrow> vstate result) \<Rightarrow> qobject qdict \<Rightarrow> vstate \<Rightarrow> vstate result" where
  "all_entries set_insn qdict st =
     rbind (qdict_entries qdict) (\<lambda>es. if es = [] then Inl Null_Deref else entry_loop set_insn es st)"

text \<open>The list in the first entry of the dictionary, whatever its key.\<close>

definition first_list :: "qobject qdict \<Rightarrow> qobject list option result" where
  "first_list qdict =
     (case qdict_first qdict of [] \<Rightarrow> Inl Null_Deref | entry # _ \<Rightarrow> Inr (qobject_to_qlist (snd entry)))"

definition parse_line_dict :: "qobject qdict \<Rightarrow> vstate \<Rightarrow> vstate result" where
  "parse_line_dict qdict st =
     (if qdict_haskey qdict ''y'' then all_entries update_insn_error_info qdict st
      else if qdict_haskey qdict ''start_pc'' \<and> qdict_haskey qdict ''end_pc'' then
        rbind (qdict_get_int qdict ''start_pc'') (\<lambda>start_pc.
        rbind (qdict_get_int qdict ''end_pc'') (\<lambda>end_pc. error_init_pc (ucast start_pc) (ucast end_pc) st))
      else if qdict_haskey qdict ''start_icount'' \<and> qdict_haskey qdict ''end_icount'' then
        rbind (qdict_get_int qdict ''start_icount'') (\<lambda>start_icount.
        rbind (qdict_get_int qdict ''end_icount'') (\<lambda>end_icount.
          error_init_icount (ucast start_icount) (ucast end_icount) st))
      else if qdict_haskey qdict ''error_regs'' then
        rbind (first_list qdict) (\<lambda>qlist. Inr (error_regs_init qlist st))
      else if qdict_haskey qdict ''mem_errors'' then
        rbind (first_list qdict) (\<lambda>qlist. Inr (mem_error_init qlist st))
      else all_entries update_insn_class_info qdict st)"

definition parse_line :: "(string \<Rightarrow> u64) \<Rightarrow> string \<Rightarrow> vstate \<Rightarrow> vstate result" where
  "parse_line strtod line st =
     rbind (qobject_from_json strtod line) (\<lambda>qobj.
     case qobj of
       None \<Rightarrow> Inr st
     | Some obj \<Rightarrow> rbind (deref (qobject_to_qdict obj)) (\<lambda>qdict. parse_line_dict qdict st))"

definition parse_first_line :: "(string \<Rightarrow> u64) \<Rightarrow> string \<Rightarrow> vstate \<Rightarrow> vstate result" where
  "parse_first_line strtod line st =
     rbind (qobject_from_json strtod line) (\<lambda>qobj.
     rbind (deref qobj) (\<lambda>obj.
     c_assert (qobject_type obj = QTYPE_QDICT) (
       rbind (deref (qobject_to_qdict obj)) (\<lambda>qdict.
       c_assert (0 < qdict_size qdict) (Inr (class_info_init qdict st))))))"

section \<open>The file\<close>

lemma read_upto_length: "read_upto n cs = (s, rest, eof) \<Longrightarrow> length s + length rest = length cs"
  by (induction n arbitrary: cs s rest eof) (auto split: list.splits if_splits prod.splits)

lemma read_upto_progress: "0 < n \<Longrightarrow> read_upto n cs = (s, rest, eof) \<Longrightarrow> s = [] \<Longrightarrow> eof"
  by (cases n) (auto split: list.splits if_splits prod.splits)

lemma fgets_decreases:
  assumes "\<not> at_eof fp" "fgets LINE_SIZE line fp = (line', fp')"
  shows "length (left fp') + of_bool (\<not> at_eof fp') < length (left fp) + 1"
proof -
  obtain s rest eof where r: "read_upto (LINE_SIZE - Suc 0) (left fp) = (s, rest, eof)" by (metis prod.exhaust)
  have "s = [] \<Longrightarrow> eof" using read_upto_progress[OF _ r] by (simp add: LINE_SIZE_def)
  then show ?thesis
    using assms read_upto_length[OF r] by (cases s) (auto simp: fgets_def r Let_def)
qed

function parse_lines :: "(string \<Rightarrow> u64) \<Rightarrow> string \<Rightarrow> stream \<Rightarrow> vstate \<Rightarrow> vstate result" where
  "parse_lines strtod line fp st =
     (if at_eof fp then Inr st
      else (case fgets LINE_SIZE line fp of (line, fp) \<Rightarrow>
              rbind (parse_line strtod line st) (parse_lines strtod line fp)))"
  by pat_completeness auto

termination parse_lines
  by (relation "measure (\<lambda>(strtod, line, fp, st). length (left fp) + of_bool (\<not> at_eof fp))")
     (simp, frule (1) fgets_decreases[OF _ sym], simp)

declare parse_lines.simps [simp del]

text \<open>
  The file's bytes, or \<open>None\<close> when it cannot be opened, which ends the emulator; \<open>line\<close> is what the
  uninitialised buffer holds.
\<close>

definition parse_variability_file :: "(string \<Rightarrow> u64) \<Rightarrow> string \<Rightarrow> string option \<Rightarrow> vstate \<Rightarrow> vstate result" where
  "parse_variability_file strtod line file st =
     (case file of
        None \<Rightarrow> Inl (Exit 0)
      | Some bytes \<Rightarrow>
          (case fgets LINE_SIZE line \<lparr>left = bytes, at_eof = False\<rparr> of (line, fp) \<Rightarrow>
             rbind (parse_first_line strtod line st) (parse_lines strtod line fp)))"

text \<open>The command line option: the instruction table is made before the file is read.\<close>

definition variability_option :: "(string \<Rightarrow> u64) \<Rightarrow> string \<Rightarrow> string option \<Rightarrow> vstate \<Rightarrow> (i32 \<times> vstate) result" where
  "variability_option strtod line file st =
     rbind (parse_variability_file strtod line file (st\<lparr>insn_map := init_instruction_set_map\<rparr>)) (\<lambda>st. Inr (1, st))"

section \<open>Lines of a file\<close>

definition nl :: "string \<Rightarrow> string" where "nl l = l @ [CHR 0x0A]"

definition short_line :: "string \<Rightarrow> bool" where
  "short_line l \<longleftrightarrow> CHR 0x0A \<notin> set l \<and> length l < LINE_SIZE - 1"

lemma read_upto_nl: "CHR 0x0A \<notin> set l \<Longrightarrow> length l < n \<Longrightarrow> read_upto n (nl l @ rest) = (nl l, rest, False)"
  by (induction l arbitrary: n) (auto simp: nl_def gr0_conv_Suc less_Suc_eq_0_disj Suc_less_eq2)

lemma read_upto_end: "CHR 0x0A \<notin> set l \<Longrightarrow> length l < n \<Longrightarrow> read_upto n l = (l, [], True)"
  by (induction l arbitrary: n) (auto simp: gr0_conv_Suc Suc_less_eq2)

lemma fgets_nl: "short_line l \<Longrightarrow> fgets LINE_SIZE line \<lparr>left = nl l @ rest, at_eof = False\<rparr> =
    (nl l, \<lparr>left = rest, at_eof = False\<rparr>)"
  using read_upto_nl[of l "LINE_SIZE - 1" rest] by (simp add: fgets_def short_line_def nl_def)

lemma fgets_end: "short_line l \<Longrightarrow> fgets LINE_SIZE line \<lparr>left = l, at_eof = False\<rparr> =
    (if l = [] then line else l, \<lparr>left = [], at_eof = True\<rparr>)"
  using read_upto_end[of l "LINE_SIZE - 1"] by (simp add: fgets_def short_line_def)

primrec run_lines :: "(string \<Rightarrow> u64) \<Rightarrow> string list \<Rightarrow> vstate \<Rightarrow> vstate result" where
  "run_lines strtod [] st = Inr st"
| "run_lines strtod (l # ls) st = rbind (parse_line strtod l st) (run_lines strtod ls)"

lemma run_lines_append: "run_lines strtod (xs @ ys) st = rbind (run_lines strtod xs st) (run_lines strtod ys)"
  by (induction xs arbitrary: st) (simp_all add: rbind_def split: sum.split)

text \<open>What is behind the last newline, or again the last line when nothing is.\<close>

lemma parse_lines_eq:
  assumes "list_all short_line ls" "short_line final"
  shows "parse_lines strtod line \<lparr>left = concat (map nl ls) @ final, at_eof = False\<rparr> st =
    run_lines strtod (map nl ls @ [if final = [] then last (line # map nl ls) else final]) st"
  using assms(1)
proof (induction ls arbitrary: line st)
  case Nil
  have "parse_lines strtod l \<lparr>left = [], at_eof = True\<rparr> st' = Inr st'" for l st'
    by (simp add: parse_lines.simps)
  then show ?case
    using fgets_end[OF assms(2), of line] by (subst parse_lines.simps) (simp add: rbind_def split: sum.split)
next
  case (Cons l ls)
  then have "parse_lines strtod line \<lparr>left = concat (map nl (l # ls)) @ final, at_eof = False\<rparr> st =
      rbind (parse_line strtod (nl l) st) (parse_lines strtod (nl l) \<lparr>left = concat (map nl ls) @ final, at_eof = False\<rparr>)"
    using fgets_nl[of l line "concat (map nl ls) @ final"] by (subst parse_lines.simps) simp
  moreover have "parse_lines strtod (nl l) \<lparr>left = concat (map nl ls) @ final, at_eof = False\<rparr> =
      run_lines strtod (map nl ls @ [if final = [] then last (nl l # map nl ls) else final])"
    using Cons by (intro ext) simp
  ultimately show ?case by simp
qed

lemma parse_file_eq:
  assumes "short_line l0" "list_all short_line ls" "short_line final"
  shows "parse_variability_file strtod line (Some (nl l0 @ concat (map nl ls) @ final)) st =
    rbind (parse_first_line strtod (nl l0) st)
      (run_lines strtod (map nl ls @ [if final = [] then last (nl l0 # map nl ls) else final]))"
proof -
  have "parse_lines strtod (nl l0) \<lparr>left = concat (map nl ls) @ final, at_eof = False\<rparr> =
      run_lines strtod (map nl ls @ [if final = [] then last (nl l0 # map nl ls) else final])"
    using parse_lines_eq[OF assms(2,3)] by blast
  then show ?thesis using fgets_nl[OF assms(1)] by (simp add: parse_variability_file_def)
qed

section \<open>Lines that change the instruction table\<close>

text \<open>Assignments to a field of the entries, in order: the last one for a name wins.\<close>

definition with_assigned :: "('c \<Rightarrow> variability_instruction_set \<Rightarrow> variability_instruction_set) \<Rightarrow>
    (string \<times> 'c) list \<Rightarrow> variability_instruction_set \<Rightarrow> variability_instruction_set" where
  "with_assigned upd ps e = foldl (\<lambda>e p. if instruction e = fst p then upd (snd p) e else e) e ps"

text \<open>A field: storing twice is storing the second value, and the name stays.\<close>

definition is_field :: "('c \<Rightarrow> variability_instruction_set \<Rightarrow> variability_instruction_set) \<Rightarrow> bool" where
  "is_field upd \<longleftrightarrow> (\<forall>c c' e. upd c (upd c' e) = upd c e) \<and> (\<forall>c e. instruction (upd c e) = instruction e)"

lemma with_assigned_append: "with_assigned upd (xs @ ys) e = with_assigned upd ys (with_assigned upd xs e)"
  by (simp add: with_assigned_def)

lemma with_assigned_name: "is_field upd \<Longrightarrow> instruction (with_assigned upd ps e) = instruction e"
  by (induction ps arbitrary: e) (simp_all add: with_assigned_def is_field_def)

lemma with_assigned_last:
  assumes "is_field upd"
  shows "with_assigned upd ps e = (case map_of (rev ps) (instruction e) of None \<Rightarrow> e | Some c \<Rightarrow> upd c e)"
proof (induction ps arbitrary: e)
  case (Cons p ps)
  then show ?case
    using assms by (auto simp: with_assigned_def is_field_def map_add_def split: option.splits)
qed (simp add: with_assigned_def)

lemma with_assigned_twice:
  assumes "is_field upd"
  shows "with_assigned upd ps (with_assigned upd ps e) = with_assigned upd ps e"
  using assms with_assigned_name[OF assms, of ps e]
  by (simp add: with_assigned_last[OF assms] is_field_def split: option.splits)

text \<open>A setter of the loops: an assignment, none, or the null pointer for an unknown name.\<close>

definition assigned :: "('c \<Rightarrow> variability_instruction_set \<Rightarrow> variability_instruction_set) \<Rightarrow> (string \<times> 'c) list \<Rightarrow> vstate \<Rightarrow> vstate" where
  "assigned upd ps st = st\<lparr>insn_map := map_option (map (with_assigned upd ps)) (insn_map st)\<rparr>"

definition known :: "vstate \<Rightarrow> string \<Rightarrow> bool" where
  "known st insn \<longleftrightarrow> (\<exists>m. insn_map st = Some m \<and> insn \<in> instruction ` set m)"

definition table_state :: "qobject qdict option \<Rightarrow> vstate \<Rightarrow> bool" where
  "table_state ci st \<longleftrightarrow> class_info st = ci \<and> (\<exists>m. insn_map st = Some m \<and> wf_insn_table m)"

definition table_setter :: "qobject qdict option \<Rightarrow> ('c \<Rightarrow> variability_instruction_set \<Rightarrow> variability_instruction_set) \<Rightarrow>
    (string \<Rightarrow> (string \<times> 'c) list) \<Rightarrow> (string \<Rightarrow> vstate \<Rightarrow> vstate result) \<Rightarrow> bool" where
  "table_setter ci upd asg set_insn \<longleftrightarrow>
     (\<forall>insn st. table_state ci st \<longrightarrow>
        set_insn insn st = (if asg insn = [] \<or> known st insn then Inr (assigned upd (asg insn) st) else Inl Null_Deref))"

lemma assigned_known: "is_field upd \<Longrightarrow> known (assigned upd ps st) = known st"
  by (fastforce simp: known_def assigned_def with_assigned_name image_iff fun_eq_iff)

lemma assigned_state: "is_field upd \<Longrightarrow> table_state ci st \<Longrightarrow> table_state ci (assigned upd ps st)"
  by (auto simp: table_state_def assigned_def wf_insn_table_map with_assigned_name)

lemma assigned_append: "assigned upd ys (assigned upd xs st) = assigned upd (xs @ ys) st"
  by (simp add: assigned_def option.map_comp comp_def with_assigned_append[abs_def])

lemma assigned_Nil: "assigned upd [] st = st"
  by (cases "insn_map st") (simp_all add: assigned_def with_assigned_def[abs_def])

lemma assigned_twice: "is_field upd \<Longrightarrow> assigned upd ps (assigned upd ps st) = assigned upd ps st"
  by (simp add: assigned_def option.map_comp comp_def with_assigned_twice)

definition insn_ok :: "(string \<Rightarrow> (string \<times> 'c) list) \<Rightarrow> vstate \<Rightarrow> qobject \<Rightarrow> bool" where
  "insn_ok asg st v \<longleftrightarrow> (\<exists>s. v = QString s \<and> (asg s = [] \<or> known st s))"

definition insn_assigns :: "(string \<Rightarrow> (string \<times> 'c) list) \<Rightarrow> qobject \<Rightarrow> (string \<times> 'c) list" where
  "insn_assigns asg v = (case v of QString s \<Rightarrow> asg s | _ \<Rightarrow> [])"

lemma insn_ok_string: "insn_ok asg st v \<Longrightarrow> \<exists>s. v = QString s"
  by (auto simp: insn_ok_def)

lemma insn_ok_assigned: "is_field upd \<Longrightarrow> insn_ok asg (assigned upd ps st) = insn_ok asg st"
  by (simp add: insn_ok_def assigned_known fun_eq_iff)

lemma insn_loop_eq:
  assumes "is_field upd" "table_setter ci upd asg set_insn"
  shows "table_state ci st \<Longrightarrow> insn_loop set_insn vs st =
    (if list_all (insn_ok asg st) vs then Inr (assigned upd (concat (map (insn_assigns asg) vs)) st) else Inl Null_Deref)"
proof (induction vs arbitrary: st)
  case (Cons v vs)
  note ok = insn_ok_assigned[OF assms(1)]
  show ?case
  proof (cases v)
    case (QString s)
    then show ?thesis
      using Cons assms(2) assigned_state[OF assms(1) Cons.prems]
      by (auto simp: table_setter_def insn_ok_def[of asg st "QString s"] insn_assigns_def[of asg "QString s"]
          qobject_to_qstring_def ok assigned_append)
  qed (auto simp: qobject_to_qstring_def dest: insn_ok_string)
qed (simp add: assigned_Nil)

definition entry_ok :: "(string \<Rightarrow> string \<Rightarrow> (string \<times> 'c) list) \<Rightarrow> vstate \<Rightarrow> string \<times> qobject \<Rightarrow> bool" where
  "entry_ok asg st e \<longleftrightarrow> (\<exists>vs. snd e = QList vs \<and> list_all (insn_ok (asg (fst e)) st) vs)"

definition entry_assigns :: "(string \<Rightarrow> string \<Rightarrow> (string \<times> 'c) list) \<Rightarrow> string \<times> qobject \<Rightarrow> (string \<times> 'c) list" where
  "entry_assigns asg e = (case snd e of QList vs \<Rightarrow> concat (map (insn_assigns (asg (fst e))) vs) | _ \<Rightarrow> [])"

lemma entry_loop_eq:
  assumes "is_field upd" "\<And>key. table_setter ci upd (asg key) (set_insn key)"
  shows "table_state ci st \<Longrightarrow> entry_loop set_insn es st =
    (if list_all (entry_ok asg st) es then Inr (assigned upd (concat (map (entry_assigns asg) es)) st) else Inl Null_Deref)"
proof (induction es arbitrary: st)
  case (Cons e es)
  have ok: "entry_ok asg (assigned upd ps st) = entry_ok asg st" for ps
    by (simp add: entry_ok_def insn_ok_assigned[OF assms(1)] fun_eq_iff)
  show ?case
  proof (cases "snd e")
    case (QList vs)
    then show ?thesis
      using Cons insn_loop_eq[OF assms(1) assms(2)[of "fst e"] Cons.prems, of vs] assigned_state[OF assms(1) Cons.prems]
      by (auto simp: entry_ok_def[of asg st e] qobject_to_qlist_def ok assigned_append entry_assigns_def[of asg e] qlist_first_def)
  qed (simp_all add: entry_ok_def[of asg st e] qobject_to_qlist_def)
qed (simp add: assigned_Nil)

lemma all_entries_eq:
  assumes "is_field upd" "\<And>key. table_setter ci upd (asg key) (set_insn key)" "table_state ci st" "wf_qdict d"
  shows "all_entries set_insn d st =
    (if entries_list d \<noteq> [] \<and> list_all (entry_ok asg st) (entries_list d)
     then Inr (assigned upd (concat (map (entry_assigns asg) (entries_list d))) st) else Inl Null_Deref)"
  using entry_loop_eq[OF assms(1,2,3)] by (simp add: all_entries_def qdict_entries_eq[OF assms(4)])

section \<open>The setters of the table\<close>

definition set_errorneous :: "bool \<Rightarrow> variability_instruction_set \<Rightarrow> variability_instruction_set" where
  "set_errorneous b e = e\<lparr>errorneous := b\<rparr>"

definition set_type :: "u8 \<Rightarrow> variability_instruction_set \<Rightarrow> variability_instruction_set" where
  "set_type t e = e\<lparr>instruction_type := t\<rparr>"

lemma fields: "is_field set_errorneous" "is_field set_type"
  by (simp_all add: is_field_def set_errorneous_def set_type_def)

definition error_assigns :: "string \<Rightarrow> string \<Rightarrow> (string \<times> bool) list" where
  "error_assigns key insn = [(insn, key = ''y'')]"

lemma set_map_entry_assigned:
  assumes "insn_map st = Some m" "wf_insn_table m"
  shows "rbind (set_map_entry (upd c) insn m) (\<lambda>m'. Inr (st\<lparr>insn_map := Some m'\<rparr>)) =
    (if known st insn then Inr (assigned upd [(insn, c)] st) else Inl Null_Deref)"
  using assms set_map_entry_eq[OF assms(2)] set_map_entry_miss[OF assms(2)]
  by (auto simp: known_def assigned_def with_assigned_def[abs_def])

lemma error_setter: "table_setter ci set_errorneous (error_assigns key) (update_insn_error_info key)"
proof -
  have "update_insn_error_info key insn st = rbind (set_map_entry (set_errorneous (key = ''y'')) insn m) (\<lambda>m'. Inr (st\<lparr>insn_map := Some m'\<rparr>))"
    if "insn_map st = Some m" for insn st m
    using that by (simp add: update_insn_error_info_def set_errorneous_def[abs_def])
  then show ?thesis
    by (auto simp: table_setter_def table_state_def error_assigns_def set_map_entry_assigned)
qed

text \<open>Class descriptions with an index and a name each.\<close>

definition wf_class_info :: "qobject qdict \<Rightarrow> bool" where
  "wf_class_info d \<longleftrightarrow> wf_qdict d \<and> entries_list d \<noteq> [] \<and>
     (\<forall>e \<in> set (entries_list d). \<exists>p i n. snd e = QDict p \<and>
        qdict_get p ''idx'' = Some (QInt i) \<and> qdict_get p ''class_name'' = Some (QString n))"

definition class_of :: "qobject qdict \<Rightarrow> string \<Rightarrow> i64" where
  "class_of d name = (case class_search name (entries_list d) of Inr i \<Rightarrow> i | Inl _ \<Rightarrow> - 1)"

definition class_assigns :: "qobject qdict \<Rightarrow> string \<Rightarrow> string \<Rightarrow> (string \<times> u8) list" where
  "class_assigns d key insn = (if class_of d key = - 1 then [] else [(insn, ucast (class_of d key))])"

lemma class_search_total:
  "(\<And>e. e \<in> set es \<Longrightarrow> \<exists>p i n. snd e = QDict p \<and>
        qdict_get p ''idx'' = Some (QInt i) \<and> qdict_get p ''class_name'' = Some (QString n)) \<Longrightarrow>
   \<exists>i. class_search name es = Inr i"
proof (induction es)
  case (Cons e es)
  obtain p i n where e: "snd e = QDict p" "qdict_get p ''idx'' = Some (QInt i)" "qdict_get p ''class_name'' = Some (QString n)"
    using Cons.prems[of e] by auto
  then show ?case
    using Cons
    by (auto simp: qobject_to_qdict_def qdict_get_int_def qdict_get_str_def qdict_get_obj_def qobject_type_def
        qobject_to_qint_def qobject_to_qstring_def)
qed simp

lemma class_setter:
  assumes "wf_class_info d"
  shows "table_setter (Some d) set_type (class_assigns d key) (update_insn_class_info key)"
proof -
  obtain i where i: "class_search key (entries_list d) = Inr i"
    using class_search_total[of "entries_list d" key] assms by (auto simp: wf_class_info_def)
  have "update_insn_class_info key insn st =
      (if i = - 1 then Inr st else rbind (set_map_entry (set_type (ucast i)) insn m) (\<lambda>m'. Inr (st\<lparr>insn_map := Some m'\<rparr>)))"
    if "insn_map st = Some m" "class_info st = Some d" for insn st m
    using that assms i
    by (simp add: update_insn_class_info_def wf_class_info_def qdict_entries_eq set_type_def[abs_def])
  then show ?thesis
    using i by (auto simp: table_setter_def table_state_def class_assigns_def class_of_def set_map_entry_assigned assigned_Nil)
qed

section \<open>Properties\<close>

text \<open>The keys by which the parser tells the kinds of lines apart.\<close>

definition special_keys :: "string set" where
  "special_keys = {''y'', ''start_pc'', ''start_icount'', ''error_regs'', ''mem_errors''}"

text \<open>Reading a line again changes nothing.\<close>

lemma all_entries_again:
  assumes "is_field upd" "\<And>key. table_setter ci upd (asg key) (set_insn key)" "table_state ci st" "wf_qdict d"
    "all_entries set_insn d st = Inr st'"
  shows "all_entries set_insn d st' = Inr st' \<and> table_state ci st'"
proof -
  have st': "st' = assigned upd (concat (map (entry_assigns asg) (entries_list d))) st"
    and ok: "entries_list d \<noteq> []" "list_all (entry_ok asg st) (entries_list d)"
    using assms(5) all_entries_eq[OF assms(1-4)] by (auto split: if_splits)
  have "entry_ok asg st' = entry_ok asg st"
    by (simp add: st' entry_ok_def insn_ok_assigned[OF assms(1)] fun_eq_iff)
  then show ?thesis
    using all_entries_eq[OF assms(1,2) assigned_state[OF assms(1,3)] assms(4)] ok assigned_state[OF assms(1,3)]
    by (simp add: st' assigned_twice[OF assms(1)])
qed

lemma window_again:
  "error_init_pc a b st = Inr st' \<Longrightarrow> error_init_pc a b st' = Inr st' \<and> insn_map st' = insn_map st \<and> class_info st' = class_info st"
  "error_init_icount a b st = Inr st' \<Longrightarrow> error_init_icount a b st' = Inr st' \<and> insn_map st' = insn_map st \<and> class_info st' = class_info st"
  by (auto simp: error_init_pc_def error_init_icount_def c_assert_eq_Inr_iff)

text \<open>The branch a line takes.\<close>

lemma parse_line_dict_cases:
  obtains "parse_line_dict d = all_entries update_insn_error_info d"
  | "parse_line_dict d = (\<lambda>st. rbind (qdict_get_int d ''start_pc'') (\<lambda>a. rbind (qdict_get_int d ''end_pc'')
        (\<lambda>b. error_init_pc (ucast a) (ucast b) st)))"
  | "parse_line_dict d = (\<lambda>st. rbind (qdict_get_int d ''start_icount'') (\<lambda>a. rbind (qdict_get_int d ''end_icount'')
        (\<lambda>b. error_init_icount (ucast a) (ucast b) st)))"
  | "parse_line_dict d = (\<lambda>st. rbind (first_list d) (\<lambda>qlist. Inr (error_regs_init qlist st)))"
  | "parse_line_dict d = (\<lambda>st. rbind (first_list d) (\<lambda>qlist. Inr (mem_error_init qlist st)))"
  | "parse_line_dict d = all_entries update_insn_class_info d"
proof -
  define A B C D E where "A \<longleftrightarrow> qdict_haskey d ''y''"
    and "B \<longleftrightarrow> qdict_haskey d ''start_pc'' \<and> qdict_haskey d ''end_pc''"
    and "C \<longleftrightarrow> qdict_haskey d ''start_icount'' \<and> qdict_haskey d ''end_icount''"
    and "D \<longleftrightarrow> qdict_haskey d ''error_regs''" and "E \<longleftrightarrow> qdict_haskey d ''mem_errors''"
  note p = parse_line_dict_def[of d, folded A_def B_def C_def D_def E_def]
  show thesis
    using that by (cases A; cases B; cases C; cases D; cases E; simp add: fun_eq_iff p)
qed

lemma parse_line_dict_again:
  assumes "wf_class_info ci" "table_state (Some ci) st" "wf_qdict d" "parse_line_dict d st = Inr st'"
  shows "parse_line_dict d st' = Inr st' \<and> table_state (Some ci) st'"
proof (cases rule: parse_line_dict_cases[of d])
  case 1
  then show ?thesis
    using assms(4) all_entries_again[OF fields(1) error_setter assms(2,3), where st' = st'] by simp
next
  case 2
  then obtain a b where "qdict_get_int d ''start_pc'' = Inr a" "qdict_get_int d ''end_pc'' = Inr b"
      "error_init_pc (ucast a) (ucast b) st = Inr st'"
    using assms(4) by (auto simp: rbind_eq_Inr_iff)
  with 2 window_again(1)[OF this(3)] assms(2) show ?thesis by (simp add: table_state_def)
next
  case 3
  then obtain a b where "qdict_get_int d ''start_icount'' = Inr a" "qdict_get_int d ''end_icount'' = Inr b"
      "error_init_icount (ucast a) (ucast b) st = Inr st'"
    using assms(4) by (auto simp: rbind_eq_Inr_iff)
  with 3 window_again(2)[OF this(3)] assms(2) show ?thesis by (simp add: table_state_def)
next
  case 4
  then obtain qlist where "first_list d = Inr qlist" "st' = error_regs_init qlist st"
    using assms(4) by (auto simp: rbind_eq_Inr_iff)
  with 4 assms(2) show ?thesis by (simp add: error_regs_init_def table_state_def)
next
  case 5
  then obtain qlist where "first_list d = Inr qlist" "st' = mem_error_init qlist st"
    using assms(4) by (auto simp: rbind_eq_Inr_iff)
  with 5 assms(2) show ?thesis by (simp add: mem_error_init_def table_state_def)
next
  case 6
  then show ?thesis
    using assms(4) all_entries_again[OF fields(2) class_setter[OF assms(1)] assms(2,3), where st' = st'] by simp
qed

lemma qobject_to_qdict_iff: "qobject_to_qdict obj = Some d \<longleftrightarrow> obj = QDict d"
  by (cases obj) (simp_all add: qobject_to_qdict_def)

lemma parse_first_lineD:
  assumes "parse_first_line strtod l st = Inr st1"
  obtains ci where "qobject_from_json strtod l = Inr (Some (QDict ci))" "0 < qdict_size ci" "st1 = class_info_init ci st"
  using assms by (auto simp: parse_first_line_def rbind_eq_Inr_iff c_assert_eq_Inr_iff deref_eq_Inr_iff qobject_to_qdict_iff)

lemma parse_line_again:
  assumes "wf_class_info ci" "table_state (Some ci) st" "parse_line strtod l st = Inr st'"
  shows "parse_line strtod l st' = Inr st' \<and> table_state (Some ci) st'"
proof -
  obtain qobj where q: "qobject_from_json strtod l = Inr qobj" using assms(3) by (auto simp: parse_line_def rbind_eq_Inr_iff)
  show ?thesis
  proof (cases qobj)
    case (Some obj)
    then obtain d where d: "obj = QDict d" "parse_line_dict d st = Inr st'"
      using assms(3) q by (auto simp: parse_line_def rbind_eq_Inr_iff deref_eq_Inr_iff qobject_to_qdict_iff)
    have "wf_qdict d" using from_json_wf[of strtod l obj] q Some d(1) by simp
    from parse_line_dict_again[OF assms(1,2) this d(2)] show ?thesis
      using q Some d(1) by (simp add: parse_line_def qobject_to_qdict_def)
  qed (use assms q in \<open>simp add: parse_line_def\<close>)
qed

lemma run_lines_state:
  "wf_class_info ci \<Longrightarrow> table_state (Some ci) st \<Longrightarrow> run_lines strtod ls st = Inr st' \<Longrightarrow> table_state (Some ci) st'"
proof (induction ls arbitrary: st)
  case (Cons l ls)
  obtain st1 where st1: "parse_line strtod l st = Inr st1" "run_lines strtod ls st1 = Inr st'"
    using Cons.prems(3) by (auto simp: rbind_eq_Inr_iff)
  show ?case
    by (rule Cons.IH[OF Cons.prems(1) parse_line_again[OF Cons.prems(1,2) st1(1), THEN conjunct2] st1(2)])
qed simp

text \<open>
  A file that ends with a newline has its last line processed twice, because the end of the file shows only after
  the next read has failed and left the buffer as it was. As every setting is an assignment this does no harm when
  there is a line after the first: the file has the effect of its lines, each taken once.
\<close>

lemma config_lines_once:
  assumes "short_line l0" "list_all short_line ls" "ls \<noteq> []" "insn_map st = Some m" "wf_insn_table m"
    and "\<And>st1 ci. parse_first_line strtod (nl l0) st = Inr st1 \<Longrightarrow> class_info st1 = Some ci \<Longrightarrow> wf_class_info ci"
  shows "parse_variability_file strtod line (Some (concat (map nl (l0 # ls)))) st =
    rbind (parse_first_line strtod (nl l0) st) (run_lines strtod (map nl ls))"
proof (cases "parse_first_line strtod (nl l0) st")
  case (Inr st1)
  obtain ci where "st1 = class_info_init ci st" by (rule parse_first_lineD[OF Inr])
  then have "class_info st1 = Some ci" "insn_map st1 = insn_map st" by (simp_all add: class_info_init_def)
  then have wf: "wf_class_info ci" and ts: "table_state (Some ci) st1"
    using assms(4-6) Inr by (auto simp: table_state_def)
  have b: "map nl ls = map nl (butlast ls) @ [nl (last ls)]" using assms(3) by (metis append_butlast_last_id list.map(1,2) map_append)
  have "run_lines strtod (map nl ls @ [last (map nl ls)]) st1 = run_lines strtod (map nl ls) st1"
  proof (cases "run_lines strtod (map nl ls) st1")
    case (Inr st2)
    then obtain st' where st': "run_lines strtod (map nl (butlast ls)) st1 = Inr st'" "parse_line strtod (nl (last ls)) st' = Inr st2"
      unfolding b by (auto simp: run_lines_append rbind_eq_Inr_iff)
    have "parse_line strtod (nl (last ls)) st2 = Inr st2"
      using parse_line_again[OF wf run_lines_state[OF wf ts st'(1)] st'(2)] by simp
    then show ?thesis using Inr assms(3) by (simp add: run_lines_append last_map)
  qed (simp add: run_lines_append)
  then show ?thesis
    using parse_file_eq[OF assms(1,2), of "[]" strtod line st] Inr assms(3) by (simp add: short_line_def LINE_SIZE_def)
qed (use parse_file_eq[OF assms(1,2), of "[]" strtod line st] in \<open>simp add: short_line_def LINE_SIZE_def\<close>)

end
