(* ===== verification/Config_Classes.thy ===== *)
theory Config_Classes
  imports Config_File
begin

text \<open>
  What a configuration file does to the instruction classes: a file is given by the JSON values of its lines,
  written by the writer of \<^verbatim>\<open>qjson.c\<close>, and its effect is described on the table of instructions.
\<close>

section \<open>Dictionaries that are equal as JSON values\<close>

lemma wf_dict_get_entry: "wf_qdict d \<Longrightarrow> qdict_get d k = Some v \<longleftrightarrow> (k, v) \<in> set (entries_list d)"
  using map_of_eq_Some_iff[OF entries_list_distinct, of d k v] entries_list_get[of d] by simp

lemma jval_get:
  assumes "jval_of (QDict d') = jval_of (QDict d)" "wf_qdict d" "wf_qdict d'"
  shows "map_option jval_of (qdict_get d' k) = map_option jval_of (qdict_get d k)"
proof -
  have "qdict_get (map_qdict jval_of d') = qdict_get (map_qdict jval_of d)" using assms(1) by simp
  then show ?thesis
    using qdict_get_map[OF wf_qdict_length[OF assms(2)], of jval_of k] qdict_get_map[OF wf_qdict_length[OF assms(3)], of jval_of k] by simp
qed

lemma jval_inv:
  "jval_of v = JInt i \<longleftrightarrow> v = QInt i"
  "jval_of v = JString s \<longleftrightarrow> v = QString s"
  "jval_of v = JDict f \<longleftrightarrow> (\<exists>d. v = QDict d \<and> f = qdict_get (map_qdict jval_of d))"
  "jval_of v = JList js \<longleftrightarrow> (\<exists>xs. v = QList xs \<and> js = map jval_of xs)"
  by (cases v; auto)+

lemma jval_strings: "map jval_of xs = map JString names \<longleftrightarrow> xs = map QString names"
proof (induction names arbitrary: xs)
  case (Cons n names)
  then show ?case by (cases xs) (simp_all add: jval_inv)
qed simp

lemma jval_string_list: "jval_of v = JList (map JString names) \<longleftrightarrow> v = QList (map QString names)"
  by (cases v) (simp_all add: jval_strings)

text \<open>Instruction \<open>n\<close> is listed under the class name \<open>k\<close>; the class of that name has the index \<open>i\<close>.\<close>

definition listed :: "qobject qdict \<Rightarrow> string \<Rightarrow> string \<Rightarrow> bool" where
  "listed d n k \<longleftrightarrow> (\<exists>names. qdict_get d k = Some (QList (map QString names)) \<and> n \<in> set names)"

definition class_has_index :: "qobject qdict \<Rightarrow> string \<Rightarrow> i64 \<Rightarrow> bool" where
  "class_has_index ci k i \<longleftrightarrow> (\<exists>key p. qdict_get ci key = Some (QDict p) \<and>
     qdict_get p ''idx'' = Some (QInt i) \<and> qdict_get p ''class_name'' = Some (QString k))"

definition class_line :: "insn_table \<Rightarrow> qobject qdict \<Rightarrow> qobject qdict \<Rightarrow> bool" where
  "class_line m ci d \<longleftrightarrow> wf_qdict d \<and> (\<exists>k. qdict_haskey d k) \<and> (\<forall>k \<in> special_keys. \<not> qdict_haskey d k) \<and>
     (\<forall>k v. qdict_get d k = Some v \<longrightarrow> (\<exists>i. class_has_index ci k i) \<and> \<not> class_has_index ci k (- 1) \<and>
        (\<exists>names. v = QList (map QString names) \<and> set names \<subseteq> instruction ` set m))"

lemma class_search_index:
  "(\<And>e. e \<in> set es \<Longrightarrow> \<exists>p i n. snd e = QDict p \<and>
        qdict_get p ''idx'' = Some (QInt i) \<and> qdict_get p ''class_name'' = Some (QString n)) \<Longrightarrow>
   (\<exists>e p i. e \<in> set es \<and> snd e = QDict p \<and> qdict_get p ''idx'' = Some (QInt i) \<and>
      qdict_get p ''class_name'' = Some (QString name) \<and> class_search name es = Inr i) \<or>
   (\<forall>e \<in> set es. \<forall>p. snd e = QDict p \<longrightarrow> qdict_get p ''class_name'' \<noteq> Some (QString name)) \<and> class_search name es = Inr (- 1)"
proof (induction es)
  case (Cons e es)
  obtain p i n where e: "snd e = QDict p" "qdict_get p ''idx'' = Some (QInt i)" "qdict_get p ''class_name'' = Some (QString n)"
    using Cons.prems[of e] by auto
  have s: "class_search name (e # es) = (if n = name then Inr i else class_search name es)"
    using e by (simp add: qobject_to_qdict_def qdict_get_int_def qdict_get_str_def qdict_get_obj_def
        qobject_type_def qobject_to_qint_def qobject_to_qstring_def)
  show ?case
  proof (cases "n = name")
    case True
    then show ?thesis using e s by (intro disjI1 exI[of _ e] exI[of _ p] exI[of _ i]) simp
  next
    case False
    then show ?thesis using e s Cons by simp blast
  qed
qed simp

lemma class_of_index:
  assumes "wf_class_info ci" "class_has_index ci k i"
  shows "class_has_index ci k (class_of ci k)"
proof -
  have g: "qdict_get ci key = Some v \<longleftrightarrow> (key, v) \<in> set (entries_list ci)" for key v
    using assms(1) by (simp add: wf_class_info_def wf_dict_get_entry)
  obtain key p where "(key, QDict p) \<in> set (entries_list ci)" "qdict_get p ''class_name'' = Some (QString k)"
    using assms(2) by (auto simp: class_has_index_def g)
  moreover note class_search_index[of "entries_list ci" k]
  ultimately show ?thesis
    using assms(1) by (fastforce simp: class_has_index_def g class_of_def wf_class_info_def)
qed

lemma jval_class_has_index:
  assumes "jval_of (QDict d') = jval_of (QDict d)" "wf_qobject (QDict d)" "wf_qobject (QDict d')"
  shows "class_has_index d' k i = class_has_index d k i"
proof -
  have "class_has_index b k i"
    if j: "jval_of (QDict a) = jval_of (QDict b)" and wf: "wf_qobject (QDict a)" "wf_qobject (QDict b)" and "class_has_index a k i" for a b
  proof -
    obtain key p where p: "qdict_get a key = Some (QDict p)" "qdict_get p ''idx'' = Some (QInt i)"
        "qdict_get p ''class_name'' = Some (QString k)" using \<open>class_has_index a k i\<close> by (auto simp: class_has_index_def)
    have "map_option jval_of (qdict_get b key) = Some (jval_of (QDict p))"
      using jval_get[OF j, of key] wf p(1) by (simp add: wf_qobject_dict del: jval_of.simps)
    then obtain q where q: "qdict_get b key = Some (QDict q)" "jval_of (QDict p) = jval_of (QDict q)"
      by (auto simp: jval_inv)
    have "wf_qdict p" "wf_qdict q" using wf p(1) q(1) by (metis wf_qobject_dict)+
    note g = jval_get[OF q(2) this(2,1)]
    have "qdict_get q ''idx'' = Some (QInt i)" "qdict_get q ''class_name'' = Some (QString k)"
      using g[of "''idx''"] g[of "''class_name''"] p(2,3) by (auto simp: jval_inv eq_commute[of "Some _"] simp del: map_option_eq_Some)
    then show ?thesis using q(1) by (auto simp: class_has_index_def)
  qed
  from this[of d' d] this[of d d'] assms show ?thesis by argo
qed

lemma printable_wf: "printable obj \<Longrightarrow> wf_qobject obj"
proof (induction obj)
  case (QDict d)
  then show ?case by (fastforce simp: entries_map list_all_iff set_qdict_entries)
qed (auto simp: list_all_iff)

text \<open>Dictionaries that are equal as JSON values.\<close>

definition same_dict :: "qobject qdict \<Rightarrow> qobject qdict \<Rightarrow> bool" where
  "same_dict d' d \<longleftrightarrow> wf_qobject (QDict d') \<and> wf_qobject (QDict d) \<and> jval_of (QDict d') = jval_of (QDict d)"

lemma same_dict_get: "same_dict d' d \<Longrightarrow> map_option jval_of (qdict_get d' k) = map_option jval_of (qdict_get d k)"
  by (rule jval_get) (simp_all add: same_dict_def)

lemma same_dict_class_has_index: "same_dict d' d \<Longrightarrow> class_has_index d' = class_has_index d"
  using jval_class_has_index by (simp add: same_dict_def fun_eq_iff)

lemma haskey_get: "qdict_haskey d k \<longleftrightarrow> qdict_get d k \<noteq> None"
  by (auto simp: qdict_haskey_def qdict_get_def split: list.splits)

lemma same_dict_haskey: "same_dict d' d \<Longrightarrow> qdict_haskey d' k = qdict_haskey d k"
  using same_dict_get[of d' d k] by (cases "qdict_get d k") (auto simp: haskey_get)

lemma same_dict_strings:
  assumes "same_dict d' d"
  shows "qdict_get d' k = Some (QList (map QString names)) \<longleftrightarrow> qdict_get d k = Some (QList (map QString names))"
proof -
  have "qdict_get x k = Some (QList (map QString names)) \<longleftrightarrow> map_option jval_of (qdict_get x k) = Some (JList (map JString names))" for x
    by (auto simp: jval_string_list)
  from this[of d] this[of d'] show ?thesis using same_dict_get[OF assms, of k] by (simp only:)
qed

lemma same_dict_listed: "same_dict d' d \<Longrightarrow> listed d' = listed d"
  by (simp add: listed_def same_dict_strings fun_eq_iff)

lemma same_class_line:
  assumes "same_dict d' d" "same_dict ci' ci" "class_line m ci d"
  shows "class_line m ci' d'"
proof -
  have "(\<exists>i. class_has_index ci k i) \<and> \<not> class_has_index ci k (- 1) \<and> (\<exists>names. v = QList (map QString names) \<and> set names \<subseteq> instruction ` set m)"
    if v: "qdict_get d' k = Some v" for k v
  proof -
    have "qdict_haskey d k" using v same_dict_haskey[OF assms(1), of k] by (simp add: haskey_get)
    then obtain v' where v': "qdict_get d k = Some v'" by (auto simp: haskey_get)
    then obtain names where "v' = QList (map QString names)" "set names \<subseteq> instruction ` set m"
        "\<exists>i. class_has_index ci k i" "\<not> class_has_index ci k (- 1)"
      using assms(3) unfolding class_line_def by blast
    then show ?thesis using same_dict_strings[OF assms(1), of k names] v v' by auto
  qed
  then show ?thesis
    using assms same_dict_haskey[OF assms(1)] same_dict_class_has_index[OF assms(2)]
    by (auto simp: class_line_def same_dict_def)
qed

lemma wf_class_info_get:
  "wf_class_info d \<longleftrightarrow> wf_qdict d \<and> (\<exists>k. qdict_haskey d k) \<and>
     (\<forall>k v. qdict_get d k = Some v \<longrightarrow> (\<exists>p i n. v = QDict p \<and>
        qdict_get p ''idx'' = Some (QInt i) \<and> qdict_get p ''class_name'' = Some (QString n)))"
proof (cases "wf_qdict d")
  case True
  have "entries_list d \<noteq> [] \<longleftrightarrow> (\<exists>k. qdict_haskey d k)"
    unfolding haskey_get by (metis entries_list_get[OF True] map_of_eq_None_iff list.set_intros(1) list.simps(15) neq_Nil_conv
      map_of.simps(1) image_insert insertI1)
  then show ?thesis using wf_dict_get_entry[OF True] True by (auto simp: wf_class_info_def)
qed (simp add: wf_class_info_def)

lemma same_wf_class_info:
  assumes "same_dict d' d" "wf_class_info d"
  shows "wf_class_info d'"
  unfolding wf_class_info_get
proof (intro conjI allI impI)
  fix k v assume v: "qdict_get d' k = Some v"
  then obtain v' where v': "qdict_get d k = Some v'"
    using same_dict_haskey[OF assms(1), of k] by (auto simp: haskey_get)
  then obtain p i n where p: "v' = QDict p" "qdict_get p ''idx'' = Some (QInt i)" "qdict_get p ''class_name'' = Some (QString n)"
    using assms(2) by (fastforce simp: wf_class_info_get)
  have "jval_of v = jval_of (QDict p)" using same_dict_get[OF assms(1), of k] v v' p(1) by simp
  then obtain q where q: "v = QDict q" by (auto simp: jval_inv)
  have "same_dict q p"
    using assms(1) v v' p(1) q same_dict_get[OF assms(1), of k] unfolding same_dict_def
    by (metis map_option_eq_Some option.inject option.simps(9) wf_qobject_dict)
  then show "\<exists>p i n. v = QDict p \<and> qdict_get p ''idx'' = Some (QInt i) \<and> qdict_get p ''class_name'' = Some (QString n)"
    using same_dict_get[of q p "''idx''"] same_dict_get[of q p "''class_name''"] p(2,3) q by (auto simp: jval_inv)
qed (use assms same_dict_haskey[OF assms(1)] in \<open>auto simp: same_dict_def wf_class_info_get\<close>)

text \<open>What a class line makes of an entry of the table.\<close>

definition reclassed :: "qobject qdict \<Rightarrow> qobject qdict \<Rightarrow> variability_instruction_set \<Rightarrow> variability_instruction_set \<Rightarrow> bool" where
  "reclassed ci d e e' \<longleftrightarrow>
     (if \<exists>k. listed d (instruction e) k
      then \<exists>k i. listed d (instruction e) k \<and> class_has_index ci k i \<and> e' = e\<lparr>instruction_type := ucast i\<rparr>
      else e' = e)"

lemma class_line_assigns:
  assumes "class_line m ci d" "wf_class_info ci"
  shows "(n, c) \<in> set (concat (map (entry_assigns (class_assigns ci)) (entries_list d))) \<longleftrightarrow>
    (\<exists>k. listed d n k \<and> c = ucast (class_of ci k))"
proof -
  have g: "qdict_get d k = Some v \<longleftrightarrow> (k, v) \<in> set (entries_list d)" for k v
    using assms(1) by (simp add: class_line_def wf_dict_get_entry)
  have e: "\<exists>names. v = QList (map QString names) \<and> class_of ci k \<noteq> - 1" if "(k, v) \<in> set (entries_list d)" for k v
    using that assms class_of_index[OF assms(2), of k] unfolding class_line_def g by metis
  have "(n, c) \<in> set (entry_assigns (class_assigns ci) (k, QList (map QString names))) \<longleftrightarrow> n \<in> set names \<and> c = ucast (class_of ci k)"
    if "class_of ci k \<noteq> - 1" for k names
    using that by (auto simp: entry_assigns_def insn_assigns_def class_assigns_def)
  then show ?thesis using e unfolding listed_def g by fastforce
qed

lemma class_line_effect:
  assumes "wf_class_info ci" "table_state (Some ci) st" "insn_map st = Some m" "class_line m ci d"
  shows "\<exists>m'. parse_line_dict d st = Inr (st\<lparr>insn_map := Some m'\<rparr>) \<and> list_all2 (reclassed ci d) m m'"
proof -
  let ?ps = "concat (map (entry_assigns (class_assigns ci)) (entries_list d))"
  let ?m' = "map (with_assigned set_type ?ps) m"
  have wf: "wf_qdict d" and g: "qdict_get d k = Some v \<longleftrightarrow> (k, v) \<in> set (entries_list d)" for k v
    using assms(4) by (simp_all add: class_line_def wf_dict_get_entry)
  have ne: "entries_list d \<noteq> []" using assms(4) g by (auto simp: class_line_def haskey_get)
  have "entry_ok (class_assigns ci) st e" if "e \<in> set (entries_list d)" for e
  proof -
    have "qdict_get d (fst e) = Some (snd e)" using that g by simp
    then obtain names where "snd e = QList (map QString names)" "set names \<subseteq> instruction ` set m"
      using assms(4) unfolding class_line_def by blast
    then show ?thesis using assms(3) by (auto simp: entry_ok_def list_all_iff insn_ok_def known_def)
  qed
  then have "all_entries update_insn_class_info d st = Inr (assigned set_type ?ps st)"
    using all_entries_eq[OF fields(2) class_setter[OF assms(1)] assms(2) wf] ne by (simp add: list_all_iff)
  then have p: "parse_line_dict d st = Inr (st\<lparr>insn_map := Some ?m'\<rparr>)"
    using assms(3,4) by (simp add: parse_line_dict_def class_line_def special_keys_def assigned_def)
  have "reclassed ci d e (with_assigned set_type ?ps e)" for e
  proof (cases "map_of (rev ?ps) (instruction e)")
    case None
    then have "\<not> (\<exists>k. listed d (instruction e) k)"
      using class_line_assigns[OF assms(4,1)] by (force simp: map_of_eq_None_iff)
    then show ?thesis using None by (simp add: with_assigned_last[OF fields(2)] reclassed_def)
  next
    case (Some c)
    then obtain k where k: "listed d (instruction e) k" "c = ucast (class_of ci k)"
      using map_of_SomeD[OF Some] class_line_assigns[OF assms(4,1)] by auto
    then have "class_has_index ci k (class_of ci k)"
      using assms(4) class_of_index[OF assms(1), of k] unfolding class_line_def listed_def by blast
    then show ?thesis using k Some by (auto simp: with_assigned_last[OF fields(2)] reclassed_def set_type_def)
  qed
  then show ?thesis using p by (intro exI[of _ ?m']) (simp add: list_all2_conv_all_nth)
qed

lemma written_line:
  assumes "printable (QDict d)" "nesting (QDict d) \<le> 1024" "short_line (qobject_to_json fmt_f (QDict d))"
  shows "\<exists>d'. qobject_from_json strtod (nl (qobject_to_json fmt_f (QDict d))) = Inr (Some (QDict d')) \<and> same_dict d' d"
proof -
  have "length (to_json fmt_f (QDict d) [] False 0) < MAX_TOKEN_SIZE"
    using assms(3) by (simp add: short_line_def qobject_to_json_def LINE_SIZE_def MAX_TOKEN_SIZE_def del: to_json.simps)
  from from_json_line[OF assms(1,2) this, of strtod]
  obtain obj where obj: "qobject_from_json strtod (nl (qobject_to_json fmt_f (QDict d))) = Inr (Some obj)" "jval_of obj = jval_of (QDict d)"
    by (auto simp: nl_def qobject_to_json_def simp del: to_json.simps jval_of.simps)
  moreover have "wf_qobject obj" using from_json_wf[of strtod "nl (qobject_to_json fmt_f (QDict d))" obj] obj(1) by simp
  ultimately show ?thesis
    using printable_wf[OF assms(1)] by (auto simp: jval_inv same_dict_def simp del: wf_qobject.simps)
qed

section \<open>A sample configuration\<close>

lemma set_entries: "wf_qdict d \<Longrightarrow> set (entries_list d) = {e. qdict_get d (fst e) = Some (snd e)}"
  by (auto simp: wf_dict_get_entry)

lemma distinct_entries: "wf_qdict d \<Longrightarrow> distinct (entries_list d)"
  using entries_list_distinct[of d] by (simp add: distinct_map)

lemma entries_put_new: "entries_list (qdict_put_obj qdict_new k v) = [(k, v)]"
proof -
  let ?d = "qdict_put_obj qdict_new k v"
  have wf: "wf_qdict ?d" by (simp add: wf_qdict_put wf_qdict_new)
  have s: "set (entries_list ?d) = {(k, v)}"
    unfolding set_entries[OF wf] by (auto simp: qdict_get_put wf_qdict_new qdict_get_new split: if_splits)
  have "length (entries_list ?d) = 1" using distinct_card[OF distinct_entries[OF wf]] s by simp
  then show ?thesis using s by (auto simp: length_Suc_conv)
qed

lemma entries_put_two:
  assumes "k \<noteq> l"
  shows "entries_list (qdict_put_obj (qdict_put_obj qdict_new k v) l w) \<in> {[(k, v), (l, w)], [(l, w), (k, v)]}"
proof -
  let ?d = "qdict_put_obj (qdict_put_obj qdict_new k v) l w"
  have wf: "wf_qdict ?d" by (simp add: wf_qdict_put wf_qdict_new)
  have s: "set (entries_list ?d) = {(k, v), (l, w)}"
    unfolding set_entries[OF wf] using assms by (auto simp: qdict_get_put wf_qdict_put wf_qdict_new qdict_get_new split: if_splits)
  have "length (entries_list ?d) = 2" using distinct_card[OF distinct_entries[OF wf]] s assms by simp
  then obtain x y where "entries_list ?d = [x, y]" by (auto simp: length_Suc_conv numeral_2_eq_2)
  then show ?thesis using s assms by (auto simp: doubleton_eq_iff)
qed

text \<open>Printable ASCII strings without quotes and backslashes are printed as they are.\<close>

definition plain :: "char \<Rightarrow> bool" where
  "plain c \<longleftrightarrow> 32 \<le> (of_char c :: nat) \<and> of_char c \<le> (126 :: nat) \<and> c \<noteq> CHR 0x22 \<and> c \<noteq> CHR 0x5C"

lemma plain_byte:
  assumes "plain c"
  shows "byte c \<noteq> 0" "byte c \<le> 0x7F" "chr (byte c) = c"
proof -
  obtain n where n: "of_char c = (n :: nat)" "32 \<le> n" "n \<le> 126" using assms by (auto simp: plain_def)
  then have u: "unat (byte c) = n" by (simp add: byte_def unat_of_nat)
  then show "byte c \<le> 0x7F" using n by (simp add: word_le_nat_alt)
  show "chr (byte c) = c" using char_of_char[of c, where ?'a = nat] by (simp only: chr_def u n(1))
  show "byte c \<noteq> 0" using u n by auto
qed

lemma plain_bmp: "list_all plain s \<Longrightarrow> bmp_string s"
proof (induction s)
  case Nil
  show ?case unfolding bmp_string_def by (rule exI[of _ "[]"]) (simp add: utf8_string_def)
next
  case (Cons c s)
  then obtain ws where "0 \<notin> set ws" "s = utf8_string ws" by (auto simp: bmp_string_def)
  moreover have "wchar_to_utf8 (byte c) = [c]" "byte c \<noteq> 0"
    using plain_byte[of c] utf8_one(3)[of "byte c"] Cons.prems by (simp_all add: wchar_to_utf8_def)
  ultimately show ?case unfolding bmp_string_def by (intro exI[of _ "byte c # ws"]) (simp add: utf8_string_def)
qed

lemma escape_chars_plain: "list_all plain s \<Longrightarrow> escape_chars s = s"
proof (induction s)
  case (Cons c s)
  then have c: "plain c" by simp
  obtain n where n: "of_char c = (n :: nat)" "32 \<le> n" "n \<le> 126" using c by (auto simp: plain_def)
  then have "sint (promote_char c) = int n" by (simp add: promote_char_def signed_of_nat signed_take_bit_int_eq_self)
  moreover have "c \<noteq> CHR 0x08" "c \<noteq> CHR 0x0C" "c \<noteq> CHR 0x0A" "c \<noteq> CHR 0x0D" "c \<noteq> CHR 0x09" using n(1,2) by auto
  ultimately have "escape_one c = [c]" using c n(2) by (simp add: escape_one_def plain_def)
  then show ?case
    using Cons escape_chars_1[OF plain_byte(1)[OF c] utf8_one(1,2)[OF plain_byte(2)[OF c]]] by (simp del: escape_chars.simps(2))
qed simp

definition config_class :: "qobject qdict" where
  "config_class = qdict_put_obj (qdict_put_obj qdict_new ''idx'' (QInt 2)) ''class_name'' (QString ''fast'')"

definition config_classes :: "qobject qdict" where
  "config_classes = qdict_put_obj qdict_new ''0'' (QDict config_class)"

definition config_line :: "qobject qdict" where
  "config_line = qdict_put_obj qdict_new ''fast'' (QList [QString ''MUL'', QString ''SMMLA''])"


lemma config_wf: "wf_qdict config_class" "wf_qdict config_classes" "wf_qdict config_line"
  by (simp_all add: config_class_def config_classes_def config_line_def wf_qdict_put wf_qdict_new)

lemma config_get:
  "qdict_get config_class = [''idx'' \<mapsto> QInt 2, ''class_name'' \<mapsto> QString ''fast'']"
  "qdict_get config_classes = [''0'' \<mapsto> QDict config_class]"
  "qdict_get config_line = [''fast'' \<mapsto> QList [QString ''MUL'', QString ''SMMLA'']]"
  by (simp_all add: config_class_def config_classes_def config_line_def wf_qdict_put wf_qdict_new qdict_get_put qdict_get_new)

lemma config_entries:
  "entries_list config_class \<in> {[(''idx'', QInt 2), (''class_name'', QString ''fast'')], [(''class_name'', QString ''fast''), (''idx'', QInt 2)]}"
  "entries_list config_classes = [(''0'', QDict config_class)]"
  "entries_list config_line = [(''fast'', QList [QString ''MUL'', QString ''SMMLA''])]"
  using entries_put_two[of "''idx''" "''class_name''" "QInt 2" "QString ''fast''"]
  by (simp_all add: config_class_def config_classes_def config_line_def entries_put_new)

lemma config_bmp: "bmp_string ''idx''" "bmp_string ''class_name''" "bmp_string ''fast''" "bmp_string ''0''" "bmp_string ''MUL''" "bmp_string ''SMMLA''"
  by (rule plain_bmp, simp add: plain_def)+

lemma config_escape:
  "escape_chars ''idx'' = ''idx''" "escape_chars ''class_name'' = ''class_name''" "escape_chars ''fast'' = ''fast''"
  "escape_chars ''0'' = ''0''" "escape_chars ''MUL'' = ''MUL''" "escape_chars ''SMMLA'' = ''SMMLA''"
  by (rule escape_chars_plain, simp add: plain_def)+

lemma config_printable: "printable (QDict config_classes)" "printable (QDict config_line)"
  using config_entries(1) by (auto simp: config_wf entries_map config_entries(2,3) config_bmp)

lemma config_nesting: "nesting (QDict config_classes) = 2" "nesting (QDict config_line) = 2"
  using config_entries(1) by (auto simp: entries_map config_entries(2,3))

lemma digit_two: "digit_char 2 = CHR ''2''"
  by code_simp

lemma config_text: "short_line (qobject_to_json fmt_f (QDict config_classes))" "short_line (qobject_to_json fmt_f (QDict config_line))"
  using config_entries(1)
  by (auto simp: qobject_to_json_def to_json_list to_json_dict entry_json_def config_entries(2,3) bracketed_def entry_sep_def
        newline_indent_def snprintf_to_def fmt_d64_def dec_digits.simps digit_two to_json_string_def config_escape short_line_def LINE_SIZE_def
        simp del: to_json.simps(3,4) escape_chars.simps)
definition plain_state :: vstate where
  "plain_state = sample_state\<lparr>insn_map := Some arm_instructions\<rparr>"

lemma config_known: "''MUL'' \<in> instruction ` set arm_instructions" "''SMMLA'' \<in> instruction ` set arm_instructions"
  by (simp_all add: arm_instructions_def mk_insn_def)

lemma config_class_index: "class_has_index config_classes k i \<longleftrightarrow> k = ''fast'' \<and> i = 2"
  by (auto simp: class_has_index_def config_get split: if_splits)

lemma config_wf_classes: "wf_class_info config_classes"
  by (simp add: wf_class_info_get haskey_get config_wf config_get)

lemma config_class_line: "class_line arm_instructions config_classes config_line"
proof -
  have "\<exists>names. QList [QString ''MUL'', QString ''SMMLA''] = QList (map QString names) \<and> set names \<subseteq> instruction ` set arm_instructions"
    using config_known by (intro exI[of _ "[''MUL'', ''SMMLA'']"]) simp
  then show ?thesis
    by (simp add: class_line_def haskey_get config_wf config_get config_class_index special_keys_def)
qed

section \<open>Properties\<close>

text \<open>
  C12: A configuration file of two lines as the writer prints them, one that describes the classes and one that
  lists instructions under their names, sets the class of every listed instruction to the index of a class that it
  is listed under, and leaves the rest of the table alone.
\<close>

theorem config_assigns_classes:
  assumes "printable (QDict ci)" "nesting (QDict ci) \<le> 1024" "short_line (qobject_to_json fmt_f (QDict ci))"
    and "printable (QDict d)" "nesting (QDict d) \<le> 1024" "short_line (qobject_to_json fmt_f (QDict d))"
    and "wf_class_info ci" "insn_map st = Some m" "wf_insn_table m" "class_line m ci d"
  shows "\<exists>st' m'. parse_variability_file strtod line
      (Some (concat (map nl [qobject_to_json fmt_f (QDict ci), qobject_to_json fmt_f (QDict d)]))) st = Inr st' \<and>
    insn_map st' = Some m' \<and> list_all2 (reclassed ci d) m m'"
proof -
  obtain ci' where ci': "qobject_from_json strtod (nl (qobject_to_json fmt_f (QDict ci))) = Inr (Some (QDict ci'))" "same_dict ci' ci"
    using written_line[OF assms(1-3)] by blast
  obtain d' where d': "qobject_from_json strtod (nl (qobject_to_json fmt_f (QDict d))) = Inr (Some (QDict d'))" "same_dict d' d"
    using written_line[OF assms(4-6)] by blast
  note wf = same_wf_class_info[OF ci'(2) assms(7)]
  have "0 < qdict_size ci'" using wf by (auto simp: wf_class_info_def qdict_size_def wf_qdict_size entries_list_def)
  then have first: "parse_first_line strtod (nl (qobject_to_json fmt_f (QDict ci))) st = Inr (class_info_init ci' st)"
    using ci'(1) by (simp add: parse_first_line_def qobject_to_qdict_def qobject_type_def)
  have ts: "table_state (Some ci') (class_info_init ci' st)" "insn_map (class_info_init ci' st) = Some m"
    using assms(8,9) by (simp_all add: table_state_def class_info_init_def)
  obtain m' where m': "parse_line_dict d' (class_info_init ci' st) = Inr (class_info_init ci' st\<lparr>insn_map := Some m'\<rparr>)"
      "list_all2 (reclassed ci' d') m m'"
    using class_line_effect[OF wf ts same_class_line[OF d'(2) ci'(2) assms(10)]] by blast
  have "reclassed ci' d' = reclassed ci d"
    using same_dict_listed[OF d'(2)] same_dict_class_has_index[OF ci'(2)] by (simp add: reclassed_def fun_eq_iff)
  moreover have "parse_variability_file strtod line
      (Some (concat (map nl [qobject_to_json fmt_f (QDict ci), qobject_to_json fmt_f (QDict d)]))) st =
    rbind (parse_first_line strtod (nl (qobject_to_json fmt_f (QDict ci))) st) (run_lines strtod (map nl [qobject_to_json fmt_f (QDict d)]))"
    using assms(3,6,8,9) first wf by (intro config_lines_once) (auto simp: class_info_init_def)
  ultimately show ?thesis
    using first m' d'(1) by (simp add: parse_line_def qobject_to_qdict_def)
qed

theorem config_assigns_classes_witness:
  "\<exists>st' m'. parse_variability_file (\<lambda>_. 0) [] (Some (concat (map nl
       [qobject_to_json (\<lambda>_. []) (QDict config_classes), qobject_to_json (\<lambda>_. []) (QDict config_line)]))) plain_state = Inr st' \<and>
     insn_map st' = Some m' \<and> list_all2 (reclassed config_classes config_line) arm_instructions m'"
  by (rule config_assigns_classes[OF config_printable(1) _ config_text(1) config_printable(2) _ config_text(2) config_wf_classes
        _ wf_arm_instructions config_class_line]) (simp_all add: config_nesting plain_state_def del: nesting.simps)

text \<open>
  C13: A file whose only line names the classes crashes the emulator when that line ends with a newline: the line is
  taken a second time, as an assignment of instructions, and the description of a class is not a list.
\<close>

theorem config_one_line_crashes:
  assumes "short_line l0" "parse_first_line strtod (nl l0) st = Inr st1" "class_info st1 = Some ci" "wf_class_info ci"
    and "\<forall>k \<in> special_keys. \<not> qdict_haskey ci k"
  shows "parse_variability_file strtod line (Some (nl l0)) st = Inl Null_Deref"
proof -
  have q: "qobject_from_json strtod (nl l0) = Inr (Some (QDict ci))"
    by (rule parse_first_lineD[OF assms(2)]) (use assms(3) in \<open>simp add: class_info_init_def\<close>)
  have "all_entries update_insn_class_info ci st1 = Inl Null_Deref"
    using assms(4) by (cases "entries_list ci") (auto simp: wf_class_info_def all_entries_def qdict_entries_eq qobject_to_qlist_def)
  then have "parse_line strtod (nl l0) st1 = Inl Null_Deref"
    using assms(5) q by (simp add: parse_line_def qobject_to_qdict_def parse_line_dict_def special_keys_def)
  then show ?thesis
    using parse_file_eq[OF assms(1), of "[]" "[]" strtod line st] assms(2) by (simp add: short_line_def LINE_SIZE_def)
qed

theorem config_one_line_crashes_witness:
  "parse_variability_file (\<lambda>_. 0) [] (Some (nl (qobject_to_json (\<lambda>_. []) (QDict config_classes)))) plain_state = Inl Null_Deref"
proof -
  obtain ci where ci: "qobject_from_json (\<lambda>_. 0) (nl (qobject_to_json (\<lambda>_. []) (QDict config_classes))) = Inr (Some (QDict ci))"
      "same_dict ci config_classes"
    using written_line[OF config_printable(1) _ config_text(1)] by (auto simp: config_nesting simp del: nesting.simps)
  note wf = same_wf_class_info[OF ci(2) config_wf_classes]
  have "0 < qdict_size ci" using wf by (auto simp: wf_class_info_def qdict_size_def wf_qdict_size entries_list_def)
  then have "parse_first_line (\<lambda>_. 0) (nl (qobject_to_json (\<lambda>_. []) (QDict config_classes))) plain_state = Inr (class_info_init ci plain_state)"
    using ci(1) by (simp add: parse_first_line_def qobject_to_qdict_def qobject_type_def)
  from config_one_line_crashes[OF config_text(1) this _ wf] show ?thesis
    using same_dict_haskey[OF ci(2)] by (simp add: class_info_init_def haskey_get[of config_classes] config_get special_keys_def)
qed

end
