(* ===== verification/ARM_GIC.thy ===== *)
theory ARM_GIC
  imports Vemu_Interfaces Savevm_Words
begin

text \<open>
  The interrupt controller of the ARM cores (\<^verbatim>\<open>hw/arm_gic.c\<close>). The file is included by the controllers that set its
  macros: whether it is an NVIC, the number of CPUs and the number of interrupts are a configuration that the operations
  take as an argument. Interrupt numbers are natural numbers, priorities are integers, sets of CPUs are words of which
  the low \<^verbatim>\<open>NCPU\<close> bits are kept, as in the bit fields of the source.
\<close>

section \<open>State\<close>

record gic_config =
  NVIC :: bool
  NCPU :: nat
  GIC_NIRQ :: nat

definition nvic_config :: gic_config where
  "nvic_config = \<lparr>NVIC = True, NCPU = 1, GIC_NIRQ = 96\<rparr>"

definition realview_config :: gic_config where
  "realview_config = \<lparr>NVIC = False, NCPU = 1, GIC_NIRQ = 96\<rparr>"

definition arm11mpcore_config :: gic_config where
  "arm11mpcore_config = \<lparr>NVIC = False, NCPU = 4, GIC_NIRQ = 64\<rparr>"

definition a9mpcore_config :: gic_config where
  "a9mpcore_config = \<lparr>NVIC = False, NCPU = 4, GIC_NIRQ = 96\<rparr>"

definition GIC_BASE_IRQ :: "gic_config \<Rightarrow> nat" where
  "GIC_BASE_IRQ cfg = (if NVIC cfg then 32 else 0)"

definition gic_id :: "gic_config \<Rightarrow> u32 list" where
  "gic_id cfg = (if NVIC cfg then [0x00, 0xb0, 0x1b, 0x00, 0x0d, 0xe0, 0x05, 0xb1]
     else [0x90, 0x13, 0x04, 0x00, 0x0d, 0xf0, 0x05, 0xb1])"

definition ALL_CPU_MASK :: "gic_config \<Rightarrow> u32" where
  "ALL_CPU_MASK cfg = push_bit (NCPU cfg) 1 - 1"

record gic_irq_state =
  irq_enabled :: bool
  irq_pending :: u32
  irq_active :: u32
  irq_level :: u32
  irq_model :: bool
  irq_trigger :: bool

record gic_state =
  parent_irq :: "bool list"
  gic_enabled :: int
  cpu_enabled :: "int list"
  irq_state :: "gic_irq_state list"
  irq_target :: "u32 list"
  priority1 :: "int list list"
  priority2 :: "int list"
  last_active :: "nat list list"
  priority_mask :: "int list"
  running_irq :: "nat list"
  running_priority :: "int list"
  current_pending :: "nat list"
  num_cpu :: nat

definition NUM_CPU :: "gic_config \<Rightarrow> gic_state \<Rightarrow> nat" where
  "NUM_CPU cfg s = (if NCPU cfg > 1 then num_cpu s else 1)"

section \<open>The macros\<close>

definition aget2 :: "'a list list \<Rightarrow> nat \<Rightarrow> nat \<Rightarrow> 'a result" where
  "aget2 xs i j = rbind (aget xs i) (\<lambda>row. aget row j)"

definition aset2 :: "'a list list \<Rightarrow> nat \<Rightarrow> nat \<Rightarrow> 'a \<Rightarrow> 'a list list result" where
  "aset2 xs i j v = rbind (aget xs i) (\<lambda>row. rbind (aset row j v) (aset xs i))"

definition with_irq :: "(gic_irq_state \<Rightarrow> gic_irq_state) \<Rightarrow> nat \<Rightarrow> gic_state \<Rightarrow> gic_state result" where
  "with_irq f irq s =
     rbind (aget (irq_state s) irq) (\<lambda>i. Inr (s\<lparr>irq_state := (irq_state s)[irq := f i]\<rparr>))"

definition test_irq :: "(gic_irq_state \<Rightarrow> bool) \<Rightarrow> nat \<Rightarrow> gic_state \<Rightarrow> bool result" where
  "test_irq p irq s = rbind (aget (irq_state s) irq) (\<lambda>i. Inr (p i))"

definition GIC_SET_PENDING :: "gic_config \<Rightarrow> nat \<Rightarrow> u32 \<Rightarrow> gic_state \<Rightarrow> gic_state result" where
  "GIC_SET_PENDING cfg irq cm = with_irq (\<lambda>i. i\<lparr>irq_pending := (irq_pending i OR cm) AND ALL_CPU_MASK cfg\<rparr>) irq"

definition GIC_CLEAR_PENDING :: "nat \<Rightarrow> u32 \<Rightarrow> gic_state \<Rightarrow> gic_state result" where
  "GIC_CLEAR_PENDING irq cm = with_irq (\<lambda>i. i\<lparr>irq_pending := irq_pending i AND NOT cm\<rparr>) irq"

definition GIC_TEST_PENDING :: "u32 \<Rightarrow> gic_irq_state \<Rightarrow> bool" where
  "GIC_TEST_PENDING cm i \<longleftrightarrow> irq_pending i AND cm \<noteq> 0"

definition GIC_TEST_ACTIVE :: "u32 \<Rightarrow> gic_irq_state \<Rightarrow> bool" where
  "GIC_TEST_ACTIVE cm i \<longleftrightarrow> irq_active i AND cm \<noteq> 0"

definition GIC_TEST_LEVEL :: "u32 \<Rightarrow> gic_irq_state \<Rightarrow> bool" where
  "GIC_TEST_LEVEL cm i \<longleftrightarrow> irq_level i AND cm \<noteq> 0"

definition GIC_GET_PRIORITY :: "nat \<Rightarrow> nat \<Rightarrow> gic_state \<Rightarrow> int result" where
  "GIC_GET_PRIORITY irq cpu s = (if irq < 32 then aget2 (priority1 s) irq cpu else aget (priority2 s) (irq - 32))"

definition GIC_TARGET :: "gic_config \<Rightarrow> nat \<Rightarrow> gic_state \<Rightarrow> u32 result" where
  "GIC_TARGET cfg irq s = (if NVIC cfg then Inr 1 else aget (irq_target s) irq)"

definition qemu_set_irq_parent :: "nat \<Rightarrow> bool \<Rightarrow> gic_state \<Rightarrow> gic_state result" where
  "qemu_set_irq_parent cpu level s = rbind (aset (parent_irq s) cpu level) (\<lambda>l. Inr (s\<lparr>parent_irq := l\<rparr>))"

section \<open>Choosing the interrupt\<close>

text \<open>The search for the enabled and pending interrupt of the smallest priority number.\<close>

fun gic_best :: "gic_state \<Rightarrow> nat \<Rightarrow> nat list \<Rightarrow> int \<times> nat \<Rightarrow> (int \<times> nat) result" where
  "gic_best s cpu [] best = Inr best"
| "gic_best s cpu (irq # irqs) (best_prio, best_irq) =
     rbind (test_irq (\<lambda>i. irq_enabled i \<and> GIC_TEST_PENDING (push_bit cpu 1) i) irq s) (\<lambda>b.
     if b then
       rbind (GIC_GET_PRIORITY irq cpu s) (\<lambda>p.
       gic_best s cpu irqs (if p < best_prio then (p, irq) else (best_prio, best_irq)))
     else gic_best s cpu irqs (best_prio, best_irq))"

text \<open>The loop over the CPUs; a CPU interface that is switched off ends the function.\<close>

fun gic_update_loop :: "gic_config \<Rightarrow> nat list \<Rightarrow> gic_state \<Rightarrow> gic_state result" where
  "gic_update_loop cfg [] s = Inr s"
| "gic_update_loop cfg (cpu # cpus) s =
     rbind (aset (current_pending s) cpu 1023) (\<lambda>l.
     let s = s\<lparr>current_pending := l\<rparr>
     in rbind (aget (cpu_enabled s) cpu) (\<lambda>en.
        if gic_enabled s = 0 \<or> en = 0 then qemu_set_irq_parent cpu False s
        else
          rbind (gic_best s cpu [0..<GIC_NIRQ cfg] (0x100, 1023)) (\<lambda>(best_prio, best_irq).
          rbind (aget (priority_mask s) cpu) (\<lambda>pm.
          rbind (aget (running_priority s) cpu) (\<lambda>rp.
          let s = (if best_prio \<le> pm then s\<lparr>current_pending := (current_pending s)[cpu := best_irq]\<rparr> else s)
          in rbind (qemu_set_irq_parent cpu (best_prio \<le> pm \<and> best_prio < rp) s) (gic_update_loop cfg cpus))))))"

definition gic_update :: "gic_config \<Rightarrow> gic_state \<Rightarrow> gic_state result" where
  "gic_update cfg s = gic_update_loop cfg [0..<NUM_CPU cfg s] s"

definition gic_set_pending_private :: "gic_config \<Rightarrow> nat \<Rightarrow> nat \<Rightarrow> gic_state \<Rightarrow> gic_state result" where
  "gic_set_pending_private cfg cpu irq s =
     (let cm = push_bit cpu 1
      in rbind (test_irq (GIC_TEST_PENDING cm) irq s) (\<lambda>b.
         if b then Inr s else rbind (GIC_SET_PENDING cfg irq cm s) (gic_update cfg)))"

definition gic_set_irq :: "gic_config \<Rightarrow> nat \<Rightarrow> bool \<Rightarrow> gic_state \<Rightarrow> gic_state result" where
  "gic_set_irq cfg line level s =
     (let irq = line + 32
      in rbind (test_irq (GIC_TEST_LEVEL (ALL_CPU_MASK cfg)) irq s) (\<lambda>old.
         if level = old then Inr s
         else
           rbind (if level then
                    rbind (with_irq (\<lambda>i. i\<lparr>irq_level := ALL_CPU_MASK cfg\<rparr>) irq s) (\<lambda>s.
                    rbind (test_irq (\<lambda>i. irq_trigger i \<or> irq_enabled i) irq s) (\<lambda>b.
                    if b then rbind (GIC_TARGET cfg irq s) (\<lambda>tgt. GIC_SET_PENDING cfg irq tgt s) else Inr s))
                  else with_irq (\<lambda>i. i\<lparr>irq_level := irq_level i AND NOT (ALL_CPU_MASK cfg)\<rparr>) irq s) (gic_update cfg)))"

section \<open>Acknowledging and completing\<close>

definition gic_set_running_irq :: "gic_config \<Rightarrow> nat \<Rightarrow> nat \<Rightarrow> gic_state \<Rightarrow> gic_state result" where
  "gic_set_running_irq cfg cpu irq s =
     rbind (aset (running_irq s) cpu irq) (\<lambda>l.
     rbind (if irq = 1023 then Inr 0x100 else GIC_GET_PRIORITY irq cpu s) (\<lambda>p.
     rbind (aset (running_priority s) cpu p) (\<lambda>l'.
     gic_update cfg (s\<lparr>running_irq := l, running_priority := l'\<rparr>))))"

definition gic_acknowledge_irq :: "gic_config \<Rightarrow> nat \<Rightarrow> gic_state \<Rightarrow> (nat \<times> gic_state) result" where
  "gic_acknowledge_irq cfg cpu s =
     rbind (aget (current_pending s) cpu) (\<lambda>new_irq.
     rbind (aget (running_priority s) cpu) (\<lambda>rp.
     rbind (if new_irq = 1023 then Inr True else rbind (GIC_GET_PRIORITY new_irq cpu s) (\<lambda>p. Inr (rp \<le> p))) (\<lambda>none.
     if none then Inr (1023, s)
     else
       rbind (aget (running_irq s) cpu) (\<lambda>r.
       rbind (aset2 (last_active s) new_irq cpu r) (\<lambda>la.
       let s = s\<lparr>last_active := la\<rparr>
       in rbind (test_irq irq_model new_irq s) (\<lambda>model.
          rbind (GIC_CLEAR_PENDING new_irq (if model then ALL_CPU_MASK cfg else push_bit cpu 1) s) (\<lambda>s.
          rbind (gic_set_running_irq cfg cpu new_irq s) (\<lambda>s. Inr (new_irq, s)))))))))"

text \<open>The walk along the chain of interrupted interrupts. \<open>None\<close>: it does not end.\<close>

partial_function (option) unlink_irq :: "nat \<Rightarrow> nat \<Rightarrow> nat \<Rightarrow> nat list list \<Rightarrow> nat list list result option" where
  "unlink_irq cpu irq tmp la =
     (case aget2 la tmp cpu of
        Inl e \<Rightarrow> Some (Inl e)
      | Inr next \<Rightarrow>
          if next = 1023 then Some (Inr la)
          else if next = irq then Some (rbind (aget2 la irq cpu) (aset2 la tmp cpu))
          else unlink_irq cpu irq next la)"

definition gic_complete_irq :: "gic_config \<Rightarrow> nat \<Rightarrow> nat \<Rightarrow> gic_state \<Rightarrow> gic_state result" where
  "gic_complete_irq cfg cpu irq s =
     rbind (aget (running_irq s) cpu) (\<lambda>r.
     if r = 1023 then Inr s
     else
       let cm = push_bit cpu 1
       in rbind (if irq = 1023 then Inr (False, s)
                 else rbind (test_irq (\<lambda>i. \<not> irq_trigger i \<and> irq_enabled i \<and> GIC_TEST_LEVEL cm i) irq s) (\<lambda>b.
                      if \<not> b then Inr (False, s)
                      else rbind (GIC_TARGET cfg irq s) (\<lambda>tgt.
                           if tgt AND cm \<noteq> 0 then rbind (GIC_SET_PENDING cfg irq cm s) (\<lambda>s. Inr (True, s))
                           else Inr (False, s)))) (\<lambda>(update, s).
          if irq \<noteq> r then
            (case unlink_irq cpu irq r (last_active s) of
               None \<Rightarrow> Inl Diverges
             | Some res \<Rightarrow>
                 rbind res (\<lambda>la.
                 let s = s\<lparr>last_active := la\<rparr>
                 in if update then gic_update cfg s else Inr s))
          else rbind (aget2 (last_active s) r cpu) (\<lambda>prev. gic_set_running_irq cfg cpu prev s)))"

section \<open>Distributor registers\<close>

definition gic_bits :: "(gic_irq_state \<Rightarrow> bool) \<Rightarrow> nat \<Rightarrow> gic_state \<Rightarrow> u32 result" where
  "gic_bits p irq s =
     for_upto 8 (\<lambda>i res. rbind (test_irq p (irq + i) s) (\<lambda>b. Inr (if b then res OR push_bit i 1 else res))) 0"

definition gic_dist_readb :: "gic_config \<Rightarrow> nat \<Rightarrow> nat \<Rightarrow> gic_state \<Rightarrow> u32 result" where
  "gic_dist_readb cfg cpu offset s =
     (let cm = push_bit cpu 1 in
      if offset < 0x100 then
        if NVIC cfg then Inl Hw_Error
        else if offset = 0 then Inr (word_of_int (gic_enabled s))
        else if offset = 4 then Inr (of_nat (GIC_NIRQ cfg div 32 - 1) OR push_bit 5 (of_nat (NUM_CPU cfg s) - 1))
        else if offset < 0x08 then Inr 0
        else Inl Hw_Error
      else if offset < 0x200 then
        let irq = (if offset < 0x180 then (offset - 0x100) * 8 else (offset - 0x180) * 8) + GIC_BASE_IRQ cfg
        in if GIC_NIRQ cfg \<le> irq then Inl Hw_Error else gic_bits irq_enabled irq s
      else if offset < 0x300 then
        let irq = (if offset < 0x280 then (offset - 0x200) * 8 else (offset - 0x280) * 8) + GIC_BASE_IRQ cfg
        in if GIC_NIRQ cfg \<le> irq then Inl Hw_Error
           else gic_bits (GIC_TEST_PENDING (if irq < 32 then cm else ALL_CPU_MASK cfg)) irq s
      else if offset < 0x400 then
        let irq = (offset - 0x300) * 8 + GIC_BASE_IRQ cfg
        in if GIC_NIRQ cfg \<le> irq then Inl Hw_Error
           else gic_bits (GIC_TEST_ACTIVE (if irq < 32 then cm else ALL_CPU_MASK cfg)) irq s
      else if offset < 0x800 then
        let irq = (offset - 0x400) + GIC_BASE_IRQ cfg
        in if GIC_NIRQ cfg \<le> irq then Inl Hw_Error
           else rbind (GIC_GET_PRIORITY irq cpu s) (\<lambda>p. Inr (word_of_int p))
      else if \<not> NVIC cfg \<and> offset < 0xc00 then
        let irq = (offset - 0x800) + GIC_BASE_IRQ cfg
        in if GIC_NIRQ cfg \<le> irq then Inl Hw_Error
           else if 29 \<le> irq \<and> irq \<le> 31 then Inr cm else GIC_TARGET cfg irq s
      else if \<not> NVIC cfg \<and> offset < 0xf00 then
        let irq = (offset - 0xc00) * 2 + GIC_BASE_IRQ cfg
        in if GIC_NIRQ cfg \<le> irq then Inl Hw_Error
           else for_upto 4 (\<lambda>i res.
                  rbind (test_irq irq_model (irq + i) s) (\<lambda>m.
                  rbind (test_irq irq_trigger (irq + i) s) (\<lambda>t.
                  Inr ((if m then res OR push_bit (i * 2) 1 else res) OR (if t then push_bit (i * 2) 2 else 0))))) 0
      else if offset < 0xfe0 then Inl Hw_Error
      else if offset mod 4 \<noteq> 0 then Inr 0
      else aget (gic_id cfg) ((offset - 0xfe0) div 4))"

definition gic_dist_readw :: "gic_config \<Rightarrow> nat \<Rightarrow> nat \<Rightarrow> gic_state \<Rightarrow> u32 result" where
  "gic_dist_readw cfg cpu offset s =
     rbind (gic_dist_readb cfg cpu offset s) (\<lambda>lo.
     rbind (gic_dist_readb cfg cpu (offset + 1) s) (\<lambda>hi. Inr (lo OR push_bit 8 hi)))"

text \<open>The part of \<^verbatim>\<open>gic_dist_readl\<close> that does not go to the NVIC registers.\<close>

definition gic_dist_readl :: "gic_config \<Rightarrow> nat \<Rightarrow> nat \<Rightarrow> gic_state \<Rightarrow> u32 result" where
  "gic_dist_readl cfg cpu offset s =
     rbind (gic_dist_readw cfg cpu offset s) (\<lambda>lo.
     rbind (gic_dist_readw cfg cpu (offset + 2) s) (\<lambda>hi. Inr (lo OR push_bit 16 hi)))"

definition write_set_enable :: "gic_config \<Rightarrow> nat \<Rightarrow> nat \<Rightarrow> u32 \<Rightarrow> gic_state \<Rightarrow> gic_state result" where
  "write_set_enable cfg cpu irq value s =
     (let value = (if irq < 16 then 0xff else value)
      in for_upto 8 (\<lambda>i s.
           if bit value i then
             rbind (if irq < 32 then Inr (push_bit cpu 1) else GIC_TARGET cfg irq s) (\<lambda>mask.
             rbind (with_irq (\<lambda>st. st\<lparr>irq_enabled := True\<rparr>) (irq + i) s) (\<lambda>s.
             rbind (test_irq (\<lambda>st. GIC_TEST_LEVEL mask st \<and> \<not> irq_trigger st) (irq + i) s) (\<lambda>b.
             if b then GIC_SET_PENDING cfg (irq + i) mask s else Inr s)))
           else Inr s) s)"

definition write_clear_enable :: "nat \<Rightarrow> u32 \<Rightarrow> gic_state \<Rightarrow> gic_state result" where
  "write_clear_enable irq value s =
     (let value = (if irq < 16 then 0 else value)
      in for_upto 8 (\<lambda>i s. if bit value i then with_irq (\<lambda>st. st\<lparr>irq_enabled := False\<rparr>) (irq + i) s else Inr s) s)"

definition write_set_pending :: "gic_config \<Rightarrow> nat \<Rightarrow> u32 \<Rightarrow> gic_state \<Rightarrow> gic_state result" where
  "write_set_pending cfg irq value s =
     (let irq = (if irq < 16 then 0 else irq)
      in for_upto 8 (\<lambda>i s.
           if bit value i then rbind (GIC_TARGET cfg irq s) (\<lambda>tgt. GIC_SET_PENDING cfg (irq + i) tgt s) else Inr s) s)"

definition write_clear_pending :: "gic_config \<Rightarrow> nat \<Rightarrow> u32 \<Rightarrow> gic_state \<Rightarrow> gic_state result" where
  "write_clear_pending cfg irq value s =
     for_upto 8 (\<lambda>i s. if bit value i then GIC_CLEAR_PENDING (irq + i) (ALL_CPU_MASK cfg) s else Inr s) s"

definition write_priority :: "nat \<Rightarrow> nat \<Rightarrow> u32 \<Rightarrow> gic_state \<Rightarrow> gic_state result" where
  "write_priority cpu irq value s =
     (if irq < 32 then rbind (aset2 (priority1 s) irq cpu (sint value)) (\<lambda>l. Inr (s\<lparr>priority1 := l\<rparr>))
      else rbind (aset (priority2 s) (irq - 32) (sint value)) (\<lambda>l. Inr (s\<lparr>priority2 := l\<rparr>)))"

definition write_target :: "gic_config \<Rightarrow> nat \<Rightarrow> u32 \<Rightarrow> gic_state \<Rightarrow> gic_state result" where
  "write_target cfg irq value s =
     (let value = (if irq < 29 then 0 else if irq < 32 then ALL_CPU_MASK cfg else value)
      in rbind (aset (irq_target s) irq (value AND ALL_CPU_MASK cfg)) (\<lambda>l. Inr (s\<lparr>irq_target := l\<rparr>)))"

definition write_config :: "nat \<Rightarrow> u32 \<Rightarrow> gic_state \<Rightarrow> gic_state result" where
  "write_config irq value s =
     (let value = (if irq < 32 then value OR 0xaa else value)
      in for_upto 4 (\<lambda>i s. with_irq (\<lambda>st. st\<lparr>irq_model := bit value (i * 2), irq_trigger := bit value (i * 2 + 1)\<rparr>) (irq + i) s) s)"

definition gic_dist_writeb :: "gic_config \<Rightarrow> nat \<Rightarrow> nat \<Rightarrow> u32 \<Rightarrow> gic_state \<Rightarrow> gic_state result" where
  "gic_dist_writeb cfg cpu offset value s =
     rbind
       (if offset < 0x100 then
          if NVIC cfg then Inl Hw_Error
          else if offset = 0 then Inr (s\<lparr>gic_enabled := uint (value AND 1)\<rparr>)
          else if offset < 4 then Inr s
          else Inl Hw_Error
        else if offset < 0x180 then
          let irq = (offset - 0x100) * 8 + GIC_BASE_IRQ cfg
          in if GIC_NIRQ cfg \<le> irq then Inl Hw_Error else write_set_enable cfg cpu irq value s
        else if offset < 0x200 then
          let irq = (offset - 0x180) * 8 + GIC_BASE_IRQ cfg
          in if GIC_NIRQ cfg \<le> irq then Inl Hw_Error else write_clear_enable irq value s
        else if offset < 0x280 then
          let irq = (offset - 0x200) * 8 + GIC_BASE_IRQ cfg
          in if GIC_NIRQ cfg \<le> irq then Inl Hw_Error else write_set_pending cfg irq value s
        else if offset < 0x300 then
          let irq = (offset - 0x280) * 8 + GIC_BASE_IRQ cfg
          in if GIC_NIRQ cfg \<le> irq then Inl Hw_Error else write_clear_pending cfg irq value s
        else if offset < 0x400 then Inl Hw_Error
        else if offset < 0x800 then
          let irq = (offset - 0x400) + GIC_BASE_IRQ cfg
          in if GIC_NIRQ cfg \<le> irq then Inl Hw_Error else write_priority cpu irq value s
        else if \<not> NVIC cfg \<and> offset < 0xc00 then
          let irq = (offset - 0x800) + GIC_BASE_IRQ cfg
          in if GIC_NIRQ cfg \<le> irq then Inl Hw_Error else write_target cfg irq value s
        else if \<not> NVIC cfg \<and> offset < 0xf00 then
          let irq = (offset - 0xc00) * 4 + GIC_BASE_IRQ cfg
          in if GIC_NIRQ cfg \<le> irq then Inl Hw_Error else write_config irq value s
        else Inl Hw_Error) (gic_update cfg)"

definition gic_dist_writew :: "gic_config \<Rightarrow> nat \<Rightarrow> nat \<Rightarrow> u32 \<Rightarrow> gic_state \<Rightarrow> gic_state result" where
  "gic_dist_writew cfg cpu offset value s =
     rbind (gic_dist_writeb cfg cpu offset (value AND 0xff) s) (gic_dist_writeb cfg cpu (offset + 1) (drop_bit 8 value))"

text \<open>The part of \<^verbatim>\<open>gic_dist_writel\<close> that does not go to the NVIC registers; at \<open>0xf00\<close> is the software interrupt.\<close>

definition gic_dist_writel :: "gic_config \<Rightarrow> nat \<Rightarrow> nat \<Rightarrow> u32 \<Rightarrow> gic_state \<Rightarrow> gic_state result" where
  "gic_dist_writel cfg cpu offset value s =
     (if offset = 0xf00 then
        let irq = unat (value AND 0x3ff);
            filt = drop_bit 24 value AND 3;
            msk = (if filt = 0 then drop_bit 16 value AND ALL_CPU_MASK cfg
                   else if filt = 1 then ALL_CPU_MASK cfg XOR push_bit cpu 1
                   else if filt = 2 then push_bit cpu 1
                   else ALL_CPU_MASK cfg)
        in rbind (GIC_SET_PENDING cfg irq msk s) (gic_update cfg)
      else
        rbind (gic_dist_writew cfg cpu offset (value AND 0xffff) s) (gic_dist_writew cfg cpu (offset + 2) (drop_bit 16 value)))"

section \<open>CPU interface\<close>

definition gic_cpu_read :: "gic_config \<Rightarrow> nat \<Rightarrow> nat \<Rightarrow> gic_state \<Rightarrow> (u32 \<times> gic_state) result" where
  "gic_cpu_read cfg cpu offset s =
     (if offset = 0x00 then rbind (aget (cpu_enabled s) cpu) (\<lambda>v. Inr (word_of_int v, s))
      else if offset = 0x04 then rbind (aget (priority_mask s) cpu) (\<lambda>v. Inr (word_of_int v, s))
      else if offset = 0x08 then Inr (0, s)
      else if offset = 0x0c then rbind (gic_acknowledge_irq cfg cpu s) (\<lambda>(irq, s). Inr (of_nat irq, s))
      else if offset = 0x14 then rbind (aget (running_priority s) cpu) (\<lambda>v. Inr (word_of_int v, s))
      else if offset = 0x18 then rbind (aget (current_pending s) cpu) (\<lambda>v. Inr (of_nat v, s))
      else Inl Hw_Error)"

definition gic_cpu_write :: "gic_config \<Rightarrow> nat \<Rightarrow> nat \<Rightarrow> u32 \<Rightarrow> gic_state \<Rightarrow> gic_state result" where
  "gic_cpu_write cfg cpu offset value s =
     (if offset = 0x00 then
        rbind (aset (cpu_enabled s) cpu (uint (value AND 1))) (\<lambda>l. gic_update cfg (s\<lparr>cpu_enabled := l\<rparr>))
      else if offset = 0x04 then
        rbind (aset (priority_mask s) cpu (uint (value AND 0xff))) (\<lambda>l. gic_update cfg (s\<lparr>priority_mask := l\<rparr>))
      else if offset = 0x08 then gic_update cfg s
      else if offset = 0x10 then gic_complete_irq cfg cpu (unat (value AND 0x3ff)) s
      else Inl Hw_Error)"

section \<open>Reset\<close>

definition irq_zero :: gic_irq_state where
  "irq_zero = \<lparr>irq_enabled = False, irq_pending = 0, irq_active = 0, irq_level = 0, irq_model = False, irq_trigger = False\<rparr>"

definition reset_cpu :: "gic_config \<Rightarrow> nat \<Rightarrow> gic_state \<Rightarrow> gic_state" where
  "reset_cpu cfg i s =
     s\<lparr>priority_mask := (priority_mask s)[i := 0xf0], current_pending := (current_pending s)[i := 1023],
       running_irq := (running_irq s)[i := 1023], running_priority := (running_priority s)[i := 0x100],
       cpu_enabled := (cpu_enabled s)[i := if NVIC cfg then 1 else 0]\<rparr>"

definition gic_reset :: "gic_config \<Rightarrow> gic_state \<Rightarrow> gic_state" where
  "gic_reset cfg s =
     (let s = s\<lparr>irq_state := replicate (GIC_NIRQ cfg) irq_zero\<rparr>;
          s = fold (reset_cpu cfg) [0..<NUM_CPU cfg s] s;
          s = s\<lparr>irq_state := replicate 16 (irq_zero\<lparr>irq_enabled := True, irq_trigger := True\<rparr>) @ drop 16 (irq_state s)\<rparr>
      in s\<lparr>gic_enabled := (if NVIC cfg then 1 else 0)\<rparr>)"

text \<open>A device is allocated with all bytes zero.\<close>

definition gic_zero :: "gic_config \<Rightarrow> gic_state" where
  "gic_zero cfg =
     \<lparr>parent_irq = replicate (NCPU cfg) False, gic_enabled = 0, cpu_enabled = replicate (NCPU cfg) 0,
      irq_state = replicate (GIC_NIRQ cfg) irq_zero, irq_target = replicate (GIC_NIRQ cfg) 0,
      priority1 = replicate 32 (replicate (NCPU cfg) 0), priority2 = replicate (GIC_NIRQ cfg - 32) 0,
      last_active = replicate (GIC_NIRQ cfg) (replicate (NCPU cfg) 0), priority_mask = replicate (NCPU cfg) 0,
      running_irq = replicate (NCPU cfg) 0, running_priority = replicate (NCPU cfg) 0,
      current_pending = replicate (NCPU cfg) 0, num_cpu = 0\<rparr>"

definition gic_init :: "gic_config \<Rightarrow> nat \<Rightarrow> gic_state" where
  "gic_init cfg n = gic_reset cfg ((gic_zero cfg)\<lparr>num_cpu := n\<rparr>)"

end
