(* ===== verification/GIC_Nesting.thy ===== *)
theory GIC_Nesting
  imports ARM_GIC
begin

text \<open>
  Properties of the interrupt controller: which interrupt an update chooses, the stack of nested interrupts that
  acknowledging and completing maintain, and the ways in which a guest can break it.
\<close>

section \<open>Well-formed states\<close>

definition wf_gic :: "gic_config \<Rightarrow> gic_state \<Rightarrow> bool" where
  "wf_gic cfg s \<longleftrightarrow>
     32 \<le> GIC_NIRQ cfg \<and> GIC_NIRQ cfg < 1023 \<and> 0 < NUM_CPU cfg s \<and> NUM_CPU cfg s \<le> NCPU cfg \<and>
     length (parent_irq s) = NCPU cfg \<and> length (cpu_enabled s) = NCPU cfg \<and> length (priority_mask s) = NCPU cfg \<and>
     length (running_irq s) = NCPU cfg \<and> length (running_priority s) = NCPU cfg \<and> length (current_pending s) = NCPU cfg \<and>
     length (irq_state s) = GIC_NIRQ cfg \<and> length (irq_target s) = GIC_NIRQ cfg \<and>
     length (priority1 s) = 32 \<and> (\<forall>i < 32. length (priority1 s ! i) = NCPU cfg) \<and> length (priority2 s) = GIC_NIRQ cfg - 32 \<and>
     length (last_active s) = GIC_NIRQ cfg \<and> (\<forall>i < GIC_NIRQ cfg. length (last_active s ! i) = NCPU cfg) \<and>
     (\<forall>cpu < NCPU cfg. priority_mask s ! cpu \<le> 0xff \<and> (current_pending s ! cpu = 1023 \<or> current_pending s ! cpu < GIC_NIRQ cfg))"

definition prio :: "gic_state \<Rightarrow> nat \<Rightarrow> nat \<Rightarrow> int" where
  "prio s cpu irq = (if irq < 32 then priority1 s ! irq ! cpu else priority2 s ! (irq - 32))"

definition ready :: "gic_state \<Rightarrow> nat \<Rightarrow> nat \<Rightarrow> bool" where
  "ready s cpu irq \<longleftrightarrow> irq_enabled (irq_state s ! irq) \<and> GIC_TEST_PENDING (push_bit cpu 1) (irq_state s ! irq)"

lemma get_priority: "wf_gic cfg s \<Longrightarrow> irq < GIC_NIRQ cfg \<Longrightarrow> cpu < NCPU cfg \<Longrightarrow> GIC_GET_PRIORITY irq cpu s = Inr (prio s cpu irq)"
  by (auto simp: GIC_GET_PRIORITY_def aget2_def prio_def wf_gic_def)

lemma test_irq_eq: "wf_gic cfg s \<Longrightarrow> irq < GIC_NIRQ cfg \<Longrightarrow> test_irq p irq s = Inr (p (irq_state s ! irq))"
  by (simp add: test_irq_def wf_gic_def)

lemma with_irq_eq: "wf_gic cfg s \<Longrightarrow> irq < GIC_NIRQ cfg \<Longrightarrow>
    with_irq f irq s = Inr (s\<lparr>irq_state := (irq_state s)[irq := f (irq_state s ! irq)]\<rparr>)"
  by (simp add: with_irq_def wf_gic_def)

section \<open>The chosen interrupt\<close>

text \<open>The ready interrupt of the smallest priority number and, among equals, of the smallest number.\<close>

definition highest :: "nat \<Rightarrow> gic_state \<Rightarrow> nat \<Rightarrow> nat \<Rightarrow> bool" where
  "highest n s cpu i \<longleftrightarrow> i < n \<and> ready s cpu i \<and> prio s cpu i < 0x100 \<and>
     (\<forall>j < n. ready s cpu j \<longrightarrow> prio s cpu i < prio s cpu j \<or> prio s cpu i = prio s cpu j \<and> i \<le> j)"

lemma gic_best_append: "gic_best s cpu (xs @ ys) b = rbind (gic_best s cpu xs b) (gic_best s cpu ys)"
  by (induction s cpu xs b rule: gic_best.induct) (auto simp: rbind_assoc intro!: rbind_cong)

lemma gic_best_highest:
  assumes "wf_gic cfg s" "cpu < NCPU cfg" "n \<le> GIC_NIRQ cfg"
  shows "\<exists>p i. gic_best s cpu [0..<n] (0x100, 1023) = Inr (p, i) \<and>
    (highest n s cpu i \<and> p = prio s cpu i \<or> p = 0x100 \<and> i = 1023 \<and> (\<forall>j < n. ready s cpu j \<longrightarrow> 0x100 \<le> prio s cpu j))"
  using assms(3)
proof (induction n)
  case (Suc n)
  then obtain p i where IH: "gic_best s cpu [0..<n] (0x100, 1023) = Inr (p, i)"
      "highest n s cpu i \<and> p = prio s cpu i \<or> p = 0x100 \<and> i = 1023 \<and> (\<forall>j < n. ready s cpu j \<longrightarrow> 0x100 \<le> prio s cpu j)"
    by auto
  have n: "n < GIC_NIRQ cfg" using Suc.prems by simp
  have "gic_best s cpu [0..<Suc n] (0x100, 1023) = Inr (if ready s cpu n \<and> prio s cpu n < p then (prio s cpu n, n) else (p, i))"
    using IH(1) by (simp add: gic_best_append test_irq_eq[OF assms(1) n] get_priority[OF assms(1) n assms(2)] ready_def)
  moreover have "highest (Suc n) s cpu n" if "ready s cpu n" "prio s cpu n < p"
    using that IH(2) by (fastforce simp: highest_def less_Suc_eq)
  moreover have "highest (Suc n) s cpu i" if "highest n s cpu i" "p = prio s cpu i" "\<not> (ready s cpu n \<and> prio s cpu n < p)"
    using that by (auto simp: highest_def less_Suc_eq)
  moreover have "\<forall>j < Suc n. ready s cpu j \<longrightarrow> 0x100 \<le> prio s cpu j"
    if "p = 0x100" "\<forall>j < n. ready s cpu j \<longrightarrow> 0x100 \<le> prio s cpu j" "\<not> (ready s cpu n \<and> prio s cpu n < p)"
    using that by (auto simp: less_Suc_eq)
  ultimately show ?case using IH(2) by (cases "ready s cpu n \<and> prio s cpu n < p") auto
qed simp

lemma highest_unique:
  assumes "highest n s cpu i" "highest n s cpu j"
  shows "i = j"
proof -
  have "prio s cpu i < prio s cpu j \<or> prio s cpu i = prio s cpu j \<and> i \<le> j" using assms unfolding highest_def by blast
  moreover have "prio s cpu j < prio s cpu i \<or> prio s cpu j = prio s cpu i \<and> j \<le> i" using assms unfolding highest_def by blast
  ultimately show ?thesis by linarith
qed

text \<open>Only the chosen interrupts and the lines of the CPUs change.\<close>

definition same_but_lines :: "gic_state \<Rightarrow> gic_state \<Rightarrow> bool" where
  "same_but_lines s s' \<longleftrightarrow> irq_state s' = irq_state s \<and> priority1 s' = priority1 s \<and> priority2 s' = priority2 s \<and>
     last_active s' = last_active s \<and> priority_mask s' = priority_mask s \<and> running_irq s' = running_irq s \<and>
     running_priority s' = running_priority s \<and> gic_enabled s' = gic_enabled s \<and> cpu_enabled s' = cpu_enabled s \<and>
     irq_target s' = irq_target s \<and> num_cpu s' = num_cpu s"

lemma same_lines_refl [simp]: "same_but_lines s s"
  by (simp add: same_but_lines_def)

lemma same_lines_trans: "same_but_lines s s' \<Longrightarrow> same_but_lines s' s'' \<Longrightarrow> same_but_lines s s''"
  by (simp add: same_but_lines_def)

lemma same_linesD:
  assumes "same_but_lines s s'"
  shows "prio s' = prio s" "ready s' = ready s" "NUM_CPU cfg s' = NUM_CPU cfg s" "highest n s' = highest n s"
proof -
  show 1: "prio s' = prio s" "ready s' = ready s" "NUM_CPU cfg s' = NUM_CPU cfg s"
    using assms by (simp_all add: same_but_lines_def prio_def ready_def NUM_CPU_def fun_eq_iff)
  show "highest n s' = highest n s" by (simp add: highest_def fun_eq_iff 1)
qed

text \<open>One CPU of the loop.\<close>

definition chosen :: "gic_config \<Rightarrow> gic_state \<Rightarrow> nat \<Rightarrow> gic_state \<Rightarrow> bool" where
  "chosen cfg s cpu s' \<longleftrightarrow>
     (if \<exists>i. highest (GIC_NIRQ cfg) s cpu i \<and> prio s cpu i \<le> priority_mask s ! cpu
      then \<exists>i. highest (GIC_NIRQ cfg) s cpu i \<and> current_pending s' ! cpu = i \<and>
             parent_irq s' ! cpu = (prio s cpu i < running_priority s ! cpu)
      else current_pending s' ! cpu = 1023 \<and> \<not> parent_irq s' ! cpu)"

definition switched_on :: "gic_state \<Rightarrow> nat \<Rightarrow> bool" where
  "switched_on s cpu \<longleftrightarrow> gic_enabled s \<noteq> 0 \<and> cpu_enabled s ! cpu \<noteq> 0"

lemma update_one:
  assumes "wf_gic cfg s" "cpu < NCPU cfg"
  obtains s1 where "same_but_lines s s1" "wf_gic cfg s1"
    "\<And>c. c \<noteq> cpu \<Longrightarrow> current_pending s1 ! c = current_pending s ! c \<and> parent_irq s1 ! c = parent_irq s ! c"
    "gic_update_loop cfg (cpu # cpus) s = (if switched_on s cpu then gic_update_loop cfg cpus s1 else Inr s1)"
    "if switched_on s cpu then chosen cfg s cpu s1 else current_pending s1 ! cpu = 1023 \<and> \<not> parent_irq s1 ! cpu"
proof -
  let ?s = "s\<lparr>current_pending := (current_pending s)[cpu := 1023]\<rparr>"
  have same: "same_but_lines s ?s" by (simp add: same_but_lines_def)
  have wf: "wf_gic cfg ?s"
    using assms unfolding wf_gic_def by (auto simp: NUM_CPU_def nth_list_update)
  have len: "cpu < length (current_pending s)" "cpu < length (cpu_enabled s)" "cpu < length (parent_irq s)" "cpu < length (priority_mask s)"
    "cpu < length (running_priority s)" "length (current_pending s) = length (parent_irq s)"
    using assms by (simp_all add: wf_gic_def)
  show ?thesis
  proof (cases "switched_on s cpu")
    case False
    show ?thesis
    proof (rule that[of "?s\<lparr>parent_irq := (parent_irq s)[cpu := False]\<rparr>"])
      show "gic_update_loop cfg (cpu # cpus) s = (if switched_on s cpu then gic_update_loop cfg cpus (?s\<lparr>parent_irq := (parent_irq s)[cpu := False]\<rparr>)
          else Inr (?s\<lparr>parent_irq := (parent_irq s)[cpu := False]\<rparr>))"
        using False len by (auto simp: Let_def qemu_set_irq_parent_def switched_on_def)
    qed (use False len wf in \<open>auto simp: same_but_lines_def wf_gic_def NUM_CPU_def\<close>)
  next
    case True
    obtain p i where b: "gic_best ?s cpu [0..<GIC_NIRQ cfg] (0x100, 1023) = Inr (p, i)"
      "highest (GIC_NIRQ cfg) s cpu i \<and> p = prio s cpu i \<or> p = 0x100 \<and> i = 1023 \<and> (\<forall>j < GIC_NIRQ cfg. ready s cpu j \<longrightarrow> 0x100 \<le> prio s cpu j)"
      using gic_best_highest[OF wf assms(2) order_refl] unfolding same_linesD[OF same] by blast
    let ?ok = "p \<le> priority_mask s ! cpu"
    let ?t = "s\<lparr>current_pending := (current_pending s)[cpu := if ?ok then i else 1023],
        parent_irq := (parent_irq s)[cpu := ?ok \<and> p < running_priority s ! cpu]\<rparr>"
    have pm: "priority_mask s ! cpu \<le> 0xff" using assms by (simp add: wf_gic_def)
    show ?thesis
    proof (rule that[of ?t])
      show "same_but_lines s ?t" by (simp add: same_but_lines_def)
      show "wf_gic cfg ?t"
        using assms b(2) unfolding wf_gic_def by (auto simp: NUM_CPU_def nth_list_update highest_def)
      show "current_pending ?t ! c = current_pending s ! c \<and> parent_irq ?t ! c = parent_irq s ! c" if "c \<noteq> cpu" for c using that by simp
      show "gic_update_loop cfg (cpu # cpus) s = (if switched_on s cpu then gic_update_loop cfg cpus ?t else Inr ?t)"
        using True len b(1) by (simp add: Let_def qemu_set_irq_parent_def switched_on_def)
      show "if switched_on s cpu then chosen cfg s cpu ?t else current_pending ?t ! cpu = 1023 \<and> \<not> parent_irq ?t ! cpu"
        using True b(2) len pm highest_unique[of "GIC_NIRQ cfg" s cpu] by (auto simp: chosen_def) (auto simp: highest_def)
    qed
  qed
qed

lemma switched_same: "same_but_lines s s' \<Longrightarrow> switched_on s' = switched_on s"
  by (simp add: same_but_lines_def switched_on_def fun_eq_iff)

lemma chosen_same:
  assumes "same_but_lines s s'"
  shows "chosen cfg s' cpu t = chosen cfg s cpu t"
proof -
  have "priority_mask s' = priority_mask s" "running_priority s' = running_priority s" using assms by (simp_all add: same_but_lines_def)
  then show ?thesis unfolding chosen_def same_linesD[OF assms] by (simp only:)
qed

lemma chosen_lines: "current_pending t ! cpu = current_pending t' ! cpu \<Longrightarrow> parent_irq t ! cpu = parent_irq t' ! cpu \<Longrightarrow>
    chosen cfg s cpu t = chosen cfg s cpu t'"
  unfolding chosen_def by (simp only:)

lemma update_loop:
  assumes "wf_gic cfg s" "\<forall>c \<in> set cpus. c < NCPU cfg" "distinct cpus"
  shows "\<exists>s'. gic_update_loop cfg cpus s = Inr s' \<and> same_but_lines s s' \<and> wf_gic cfg s' \<and>
    (\<forall>c. c \<notin> set cpus \<longrightarrow> current_pending s' ! c = current_pending s ! c \<and> parent_irq s' ! c = parent_irq s ! c) \<and>
    ((\<forall>c \<in> set cpus. switched_on s c) \<longrightarrow> (\<forall>c \<in> set cpus. chosen cfg s c s'))"
  using assms
proof (induction cpus arbitrary: s)
  case (Cons cpu cpus)
  have "cpu < NCPU cfg" using Cons.prems(2) by simp
  from update_one[OF Cons.prems(1) this, of cpus] obtain s1 where s1: "same_but_lines s s1" "wf_gic cfg s1"
    "\<And>c. c \<noteq> cpu \<Longrightarrow> current_pending s1 ! c = current_pending s ! c \<and> parent_irq s1 ! c = parent_irq s ! c"
    "gic_update_loop cfg (cpu # cpus) s = (if switched_on s cpu then gic_update_loop cfg cpus s1 else Inr s1)"
    "if switched_on s cpu then chosen cfg s cpu s1 else current_pending s1 ! cpu = 1023 \<and> \<not> parent_irq s1 ! cpu" by blast
  show ?case
  proof (cases "switched_on s cpu")
    case False
    then show ?thesis using s1 by (intro exI[of _ s1]) simp
  next
    case True
    have "\<forall>c \<in> set cpus. c < NCPU cfg" "distinct cpus" "cpu \<notin> set cpus" using Cons.prems(2,3) by simp_all
    with Cons.IH[OF s1(2)] obtain s2 where s2: "gic_update_loop cfg cpus s1 = Inr s2" "same_but_lines s1 s2" "wf_gic cfg s2"
      "\<forall>c. c \<notin> set cpus \<longrightarrow> current_pending s2 ! c = current_pending s1 ! c \<and> parent_irq s2 ! c = parent_irq s1 ! c"
      "(\<forall>c \<in> set cpus. switched_on s c) \<longrightarrow> (\<forall>c \<in> set cpus. chosen cfg s c s2)"
      unfolding switched_same[OF s1(1)] chosen_same[OF s1(1)] by blast
    have "chosen cfg s cpu s2" using s1(5) True s2(4) \<open>cpu \<notin> set cpus\<close> chosen_lines[of s2 cpu s1 cfg s] by simp
    then show ?thesis
      using s1 s2 True same_lines_trans[OF s1(1) s2(2)] by (intro exI[of _ s2]) simp
  qed
qed simp

lemma gic_update_eq:
  assumes "wf_gic cfg s"
  obtains s' where "gic_update cfg s = Inr s'" "same_but_lines s s'" "wf_gic cfg s'"
    "(\<forall>c < NUM_CPU cfg s. switched_on s c) \<longrightarrow> (\<forall>c < NUM_CPU cfg s. chosen cfg s c s')"
proof -
  have "\<forall>c \<in> set [0..<NUM_CPU cfg s]. c < NCPU cfg" using assms by (auto simp: wf_gic_def)
  from update_loop[OF assms this distinct_upt] obtain s' where "gic_update cfg s = Inr s'" "same_but_lines s s'" "wf_gic cfg s'"
      "(\<forall>c \<in> set [0..<NUM_CPU cfg s]. switched_on s c) \<longrightarrow> (\<forall>c \<in> set [0..<NUM_CPU cfg s]. chosen cfg s c s')"
    unfolding gic_update_def by blast
  then show ?thesis by (intro that[of s']) (auto simp: Ball_def)
qed

section \<open>Nested interrupts\<close>

text \<open>The chain of interrupted interrupts of a CPU: \<open>1023\<close> ends it.\<close>

fun linked :: "(nat \<Rightarrow> nat) \<Rightarrow> nat list \<Rightarrow> bool" where
  "linked f [] = True"
| "linked f [r] = (f r = 1023)"
| "linked f (r # r' # rs) = (f r = r' \<and> linked f (r' # rs))"

definition nested :: "gic_config \<Rightarrow> gic_state \<Rightarrow> nat \<Rightarrow> nat list \<Rightarrow> bool" where
  "nested cfg s cpu rs \<longleftrightarrow>
     running_irq s ! cpu = (case rs of [] \<Rightarrow> 1023 | r # _ \<Rightarrow> r) \<and>
     running_priority s ! cpu = (case rs of [] \<Rightarrow> 0x100 | r # _ \<Rightarrow> prio s cpu r) \<and>
     linked (\<lambda>r. last_active s ! r ! cpu) rs \<and> sorted_wrt (\<lambda>a b. prio s cpu a < prio s cpu b) rs \<and> set rs \<subseteq> {..<GIC_NIRQ cfg}"

lemma nested_same: "same_but_lines s s' \<Longrightarrow> nested cfg s' cpu rs = nested cfg s cpu rs"
  using same_linesD(1)[of s s'] by (simp add: nested_def same_but_lines_def cong: list.case_cong)

lemma linked_cong: "(\<And>r. r \<in> set rs \<Longrightarrow> f r = g r) \<Longrightarrow> linked f rs = linked g rs"
  by (induction f rs rule: linked.induct) auto

lemma linked_Cons: "linked f (r # rs) \<longleftrightarrow> f r = (case rs of [] \<Rightarrow> 1023 | r' # _ \<Rightarrow> r') \<and> linked f rs"
  by (cases rs) auto

lemma nested_distinct: "nested cfg s cpu rs \<Longrightarrow> distinct rs"
proof -
  assume "nested cfg s cpu rs"
  then have "sorted_wrt (\<lambda>a b. prio s cpu a < prio s cpu b) rs" by (simp add: nested_def)
  then show "distinct rs" by (induction rs) auto
qed

lemma wf_upd_irq: "wf_gic cfg (s\<lparr>irq_state := (irq_state s)[i := x]\<rparr>) = wf_gic cfg s"
  by (simp add: wf_gic_def NUM_CPU_def)

lemma wf_upd_last:
  "wf_gic cfg s \<Longrightarrow> i < GIC_NIRQ cfg \<Longrightarrow> wf_gic cfg (s\<lparr>last_active := (last_active s)[i := (last_active s ! i)[cpu := v]]\<rparr>)"
  by (auto simp: wf_gic_def NUM_CPU_def nth_list_update)

lemma wf_upd_running: "wf_gic cfg s \<Longrightarrow> wf_gic cfg (s\<lparr>running_irq := (running_irq s)[cpu := a], running_priority := (running_priority s)[cpu := b]\<rparr>)"
  by (auto simp: wf_gic_def NUM_CPU_def)

lemma prio_upd [simp]:
  "prio (s\<lparr>irq_state := x\<rparr>) = prio s" "prio (s\<lparr>last_active := y\<rparr>) = prio s" "prio (s\<lparr>running_irq := a, running_priority := b\<rparr>) = prio s"
  by (simp_all add: prio_def fun_eq_iff)

lemma aset2_last:
  "wf_gic cfg s \<Longrightarrow> i < GIC_NIRQ cfg \<Longrightarrow> cpu < NCPU cfg \<Longrightarrow>
   aset2 (last_active s) i cpu v = Inr ((last_active s)[i := (last_active s ! i)[cpu := v]]) \<and> aget2 (last_active s) i cpu = Inr (last_active s ! i ! cpu)"
  by (simp add: aset2_def aget2_def wf_gic_def)

lemma set_running:
  assumes "wf_gic cfg s" "cpu < NCPU cfg" "irq = 1023 \<or> irq < GIC_NIRQ cfg"
  obtains s' where "gic_set_running_irq cfg cpu irq s = Inr s'" "wf_gic cfg s'"
    "same_but_lines (s\<lparr>running_irq := (running_irq s)[cpu := irq],
       running_priority := (running_priority s)[cpu := if irq = 1023 then 0x100 else prio s cpu irq]\<rparr>) s'"
proof -
  have p: "(if irq = 1023 then Inr 0x100 else GIC_GET_PRIORITY irq cpu s) = Inr (if irq = 1023 then 0x100 else prio s cpu irq)"
    using get_priority[OF assms(1) _ assms(2)] assms(3) by auto
  have l: "cpu < length (running_irq s)" "cpu < length (running_priority s)" using assms(1,2) by (simp_all add: wf_gic_def)
  obtain s' where "gic_update cfg (s\<lparr>running_irq := (running_irq s)[cpu := irq],
       running_priority := (running_priority s)[cpu := if irq = 1023 then 0x100 else prio s cpu irq]\<rparr>) = Inr s'" "wf_gic cfg s'"
    "same_but_lines (s\<lparr>running_irq := (running_irq s)[cpu := irq],
       running_priority := (running_priority s)[cpu := if irq = 1023 then 0x100 else prio s cpu irq]\<rparr>) s'"
    using gic_update_eq[OF wf_upd_running[OF assms(1)]] by metis
  then show ?thesis using that l by (simp add: gic_set_running_irq_def p)
qed

lemma nested_last_upd:
  assumes "wf_gic cfg s" "i < GIC_NIRQ cfg" "cpu < NCPU cfg"
  shows "last_active (s\<lparr>last_active := (last_active s)[i := (last_active s ! i)[cpu := v]]\<rparr>) ! r ! cpu = (if r = i then v else last_active s ! r ! cpu)"
  using assms by (simp add: wf_gic_def nth_list_update)

lemma acknowledge_none:
  assumes "wf_gic cfg s" "cpu < NCPU cfg" "current_pending s ! cpu = 1023 \<or> running_priority s ! cpu \<le> prio s cpu (current_pending s ! cpu)"
  shows "gic_acknowledge_irq cfg cpu s = Inr (1023, s)"
proof -
  have l: "cpu < length (current_pending s)" "cpu < length (running_priority s)" using assms(1,2) by (simp_all add: wf_gic_def)
  have "GIC_GET_PRIORITY (current_pending s ! cpu) cpu s = Inr (prio s cpu (current_pending s ! cpu))" if "current_pending s ! cpu \<noteq> 1023"
    using that assms(1,2) by (intro get_priority[OF assms(1)]) (auto simp: wf_gic_def)
  then show ?thesis using assms(3) l by (auto simp: gic_acknowledge_irq_def)
qed

lemma acknowledge_irq:
  assumes "wf_gic cfg s" "cpu < NCPU cfg" "current_pending s ! cpu = irq" "irq \<noteq> 1023" "prio s cpu irq < running_priority s ! cpu"
  obtains s' where "gic_acknowledge_irq cfg cpu s = Inr (irq, s')" "wf_gic cfg s'" "prio s' = prio s"
    "running_irq s' = (running_irq s)[cpu := irq]" "running_priority s' = (running_priority s)[cpu := prio s cpu irq]"
    "last_active s' = (last_active s)[irq := (last_active s ! irq)[cpu := running_irq s ! cpu]]"
    "irq_state s' = (irq_state s)[irq := (irq_state s ! irq)\<lparr>irq_pending := irq_pending (irq_state s ! irq) AND
       NOT (if irq_model (irq_state s ! irq) then ALL_CPU_MASK cfg else push_bit cpu 1)\<rparr>]"
proof -
  have n: "irq < GIC_NIRQ cfg" using assms by (auto simp: wf_gic_def)
  have l: "cpu < length (current_pending s)" "cpu < length (running_priority s)" "cpu < length (running_irq s)"
    using assms(1,2) by (simp_all add: wf_gic_def)
  let ?s1 = "s\<lparr>last_active := (last_active s)[irq := (last_active s ! irq)[cpu := running_irq s ! cpu]]\<rparr>"
  let ?s2 = "?s1\<lparr>irq_state := (irq_state s)[irq := (irq_state s ! irq)\<lparr>irq_pending := irq_pending (irq_state s ! irq) AND
       NOT (if irq_model (irq_state s ! irq) then ALL_CPU_MASK cfg else push_bit cpu 1)\<rparr>]\<rparr>"
  have wf1: "wf_gic cfg ?s1" by (rule wf_upd_last[OF assms(1) n])
  have wf2: "wf_gic cfg ?s2" using wf1 wf_upd_irq[of cfg ?s1 irq] by simp
  obtain s' where s': "gic_set_running_irq cfg cpu irq ?s2 = Inr s'" "wf_gic cfg s'"
    "same_but_lines (?s2\<lparr>running_irq := (running_irq ?s2)[cpu := irq],
       running_priority := (running_priority ?s2)[cpu := if irq = 1023 then 0x100 else prio ?s2 cpu irq]\<rparr>) s'"
    using set_running[OF wf2 assms(2)] n by blast
  have p: "prio ?s2 = prio s" by (simp add: prio_def fun_eq_iff)
  have "gic_acknowledge_irq cfg cpu s = Inr (irq, s')"
    using assms(3-5) l s'(1) get_priority[OF assms(1) n assms(2)] aset2_last[OF assms(1) n assms(2)]
    by (simp add: gic_acknowledge_irq_def Let_def test_irq_eq[OF wf1 n] GIC_CLEAR_PENDING_def with_irq_eq[OF wf1 n])
  moreover have "prio s' = prio s" using same_linesD(1)[OF s'(3)] by (simp add: prio_def fun_eq_iff)
  ultimately show ?thesis using that s'(2,3) assms(4) p by (simp add: same_but_lines_def)
qed

lemma nested_push:
  assumes "nested cfg s cpu rs" "wf_gic cfg s" "cpu < NCPU cfg" "irq < GIC_NIRQ cfg" "prio s cpu irq < running_priority s ! cpu"
    and s': "prio s' = prio s" "running_irq s' = (running_irq s)[cpu := irq]" "running_priority s' = (running_priority s)[cpu := prio s cpu irq]"
    "last_active s' = (last_active s)[irq := (last_active s ! irq)[cpu := running_irq s ! cpu]]"
  shows "nested cfg s' cpu (irq # rs)"
proof -
  have lt: "\<forall>r \<in> set rs. prio s cpu irq < prio s cpu r"
    using assms(1,5) by (cases rs) (auto simp: nested_def)
  then have n: "irq \<notin> set rs" by auto
  have la: "last_active s' ! r ! cpu = (if r = irq then running_irq s ! cpu else last_active s ! r ! cpu)" for r
    unfolding s'(4) using nested_last_upd[OF assms(2,4,3)] by simp
  have "linked (\<lambda>r. last_active s' ! r ! cpu) rs = linked (\<lambda>r. last_active s ! r ! cpu) rs"
    using n by (intro linked_cong) (auto simp: la)
  then have "linked (\<lambda>r. last_active s' ! r ! cpu) (irq # rs)"
    using assms(1) la[of irq] unfolding linked_Cons by (simp add: nested_def)
  moreover have "cpu < length (running_irq s)" "cpu < length (running_priority s)" using assms(2,3) by (simp_all add: wf_gic_def)
  ultimately show ?thesis using assms(1,4) lt s' by (simp add: nested_def del: linked.simps)
qed

lemma unlink_eq:
  assumes "wf_gic cfg s" "cpu < NCPU cfg" "linked (\<lambda>r. last_active s ! r ! cpu) (r # rs)" "set (r # rs) \<subseteq> {..<GIC_NIRQ cfg}" "distinct (r # rs)"
    "irq < GIC_NIRQ cfg" "irq \<noteq> r"
  shows "\<exists>la. unlink_irq cpu irq r (last_active s) = Some (Inr la) \<and> wf_gic cfg (s\<lparr>last_active := la\<rparr>) \<and>
    linked (\<lambda>r. la ! r ! cpu) (r # remove1 irq rs) \<and> (\<forall>x. x \<notin> set (r # rs) \<longrightarrow> la ! x ! cpu = last_active s ! x ! cpu)"
  using assms(3-5,7)
proof (induction rs arbitrary: r)
  case Nil
  then have "aget2 (last_active s) r cpu = Inr 1023" using aset2_last[OF assms(1) _ assms(2), of r] by simp
  then show ?case using Nil assms(1) by (intro exI[of _ "last_active s"]) (simp add: unlink_irq.simps[of cpu irq r])
next
  case (Cons r' rs)
  have r: "r < GIC_NIRQ cfg" "r' < GIC_NIRQ cfg" "r' \<noteq> 1023" using Cons.prems(2) assms(1) by (auto simp: wf_gic_def)
  have g: "aget2 (last_active s) r cpu = Inr r'" using aset2_last[OF assms(1) r(1) assms(2)] Cons.prems(1) by simp
  show ?case
  proof (cases "r' = irq")
    case True
    let ?v = "last_active s ! irq ! cpu"
    let ?la = "(last_active s)[r := (last_active s ! r)[cpu := ?v]]"
    have u: "unlink_irq cpu irq r (last_active s) = Some (Inr ?la)"
      using g r True aset2_last[OF assms(1) r(1) assms(2)] aset2_last[OF assms(1) assms(6,2)] by (simp add: unlink_irq.simps[of cpu irq r])
    have la: "?la ! x ! cpu = (if x = r then ?v else last_active s ! x ! cpu)" for x
      using nested_last_upd[OF assms(1) r(1) assms(2)] by simp
    have "linked (\<lambda>x. last_active s ! x ! cpu) (irq # rs)" using Cons.prems(1) True by simp
    then have "?v = (case rs of [] \<Rightarrow> 1023 | x # _ \<Rightarrow> x)" "linked (\<lambda>x. last_active s ! x ! cpu) rs" by (simp_all add: linked_Cons)
    moreover have "linked (\<lambda>x. ?la ! x ! cpu) rs = linked (\<lambda>x. last_active s ! x ! cpu) rs"
      using Cons.prems(3) la by (intro linked_cong) auto
    ultimately have "linked (\<lambda>x. ?la ! x ! cpu) (r # rs)" using la[of r] by (simp only: linked_Cons if_True simp_thms)
    then show ?thesis using u wf_upd_last[OF assms(1) r(1)] True la by (intro exI[of _ ?la]) auto
  next
    case False
    then have u: "unlink_irq cpu irq r (last_active s) = unlink_irq cpu irq r' (last_active s)"
      using g r by (simp add: unlink_irq.simps[of cpu irq r])
    have "linked (\<lambda>x. last_active s ! x ! cpu) (r' # rs)" "set (r' # rs) \<subseteq> {..<GIC_NIRQ cfg}" "distinct (r' # rs)" "irq \<noteq> r'"
      using Cons.prems False by auto
    from Cons.IH[OF this] obtain la where la: "unlink_irq cpu irq r' (last_active s) = Some (Inr la)" "wf_gic cfg (s\<lparr>last_active := la\<rparr>)"
      "linked (\<lambda>r. la ! r ! cpu) (r' # remove1 irq rs)" "\<forall>x. x \<notin> set (r' # rs) \<longrightarrow> la ! x ! cpu = last_active s ! x ! cpu" by blast
    have "la ! r ! cpu = r'" using la(4) Cons.prems(1,3) by simp
    then show ?thesis using la u False by (intro exI[of _ la]) simp
  qed
qed

lemma wf_irq_state: "wf_gic cfg s \<Longrightarrow> length st = GIC_NIRQ cfg \<Longrightarrow> wf_gic cfg (s\<lparr>irq_state := st\<rparr>)"
  by (auto simp: wf_gic_def NUM_CPU_def)

lemma resample_irq:
  assumes "wf_gic cfg s" "irq < GIC_NIRQ cfg"
  obtains u st where "length st = GIC_NIRQ cfg"
    "(if irq = 1023 then Inr (False, s)
      else rbind (test_irq (\<lambda>i. \<not> irq_trigger i \<and> irq_enabled i \<and> GIC_TEST_LEVEL cm i) irq s) (\<lambda>b.
           if \<not> b then Inr (False, s)
           else rbind (GIC_TARGET cfg irq s) (\<lambda>tgt.
                if tgt AND cm \<noteq> 0 then rbind (GIC_SET_PENDING cfg irq cm s) (\<lambda>s. Inr (True, s))
                else Inr (False, s)))) = Inr (u, s\<lparr>irq_state := st\<rparr>)"
proof -
  have t: "GIC_TARGET cfg irq s = Inr (if NVIC cfg then 1 else irq_target s ! irq)" using assms by (simp add: GIC_TARGET_def wf_gic_def)
  have "irq \<noteq> 1023" "length (irq_state s) = GIC_NIRQ cfg" using assms by (auto simp: wf_gic_def)
  note e = this t test_irq_eq[OF assms] GIC_SET_PENDING_def with_irq_eq[OF assms]
  let ?i = "irq_state s ! irq"
  show ?thesis
  proof (cases "\<not> irq_trigger ?i \<and> irq_enabled ?i \<and> GIC_TEST_LEVEL cm ?i \<and> (if NVIC cfg then 1 else irq_target s ! irq) AND cm \<noteq> 0")
    case True
    then show ?thesis
      by (intro that[of "(irq_state s)[irq := ?i\<lparr>irq_pending := (irq_pending ?i OR cm) AND ALL_CPU_MASK cfg\<rparr>]" True]) (simp_all add: e)
  next
    case False
    then show ?thesis by (intro that[of "irq_state s" False]) (auto simp: e)
  qed
qed

lemma sorted_wrt_remove1: "sorted_wrt P xs \<Longrightarrow> sorted_wrt P (remove1 x xs)"
  using set_remove1_subset[of x] by (induction xs) auto

lemma complete_irq:
  assumes "wf_gic cfg s" "cpu < NCPU cfg" "nested cfg s cpu rs" "irq < GIC_NIRQ cfg"
  obtains s' where "gic_complete_irq cfg cpu irq s = Inr s'" "wf_gic cfg s'" "nested cfg s' cpu (remove1 irq rs)"
proof (cases rs)
  case Nil
  then have "gic_complete_irq cfg cpu irq s = Inr s" using assms(1-3) by (simp add: gic_complete_irq_def nested_def wf_gic_def)
  then show ?thesis using that assms Nil by simp
next
  case (Cons r rs')
  have l: "cpu < length (running_irq s)" "cpu < length (running_priority s)" using assms(1,2) by (simp_all add: wf_gic_def)
  have r: "r < GIC_NIRQ cfg" "r \<noteq> 1023" "running_irq s ! cpu = r" using assms(1,3) Cons by (auto simp: nested_def wf_gic_def)
  obtain u st where st: "length st = GIC_NIRQ cfg" and res: "(if irq = 1023 then Inr (False, s)
      else rbind (test_irq (\<lambda>i. \<not> irq_trigger i \<and> irq_enabled i \<and> GIC_TEST_LEVEL (push_bit cpu 1) i) irq s) (\<lambda>b.
           if \<not> b then Inr (False, s)
           else rbind (GIC_TARGET cfg irq s) (\<lambda>tgt.
                if tgt AND push_bit cpu 1 \<noteq> 0 then rbind (GIC_SET_PENDING cfg irq (push_bit cpu 1) s) (\<lambda>s. Inr (True, s))
                else Inr (False, s)))) = Inr (u, s\<lparr>irq_state := st\<rparr>)" using resample_irq[OF assms(1,4)] by blast
  let ?s = "s\<lparr>irq_state := st\<rparr>"
  have wf: "wf_gic cfg ?s" by (rule wf_irq_state[OF assms(1) st])
  have nest: "nested cfg ?s cpu (r # rs')" using assms(3) Cons by (simp add: nested_def)
  have d: "distinct (r # rs')" using nested_distinct[OF assms(3)] Cons by simp
  have step: "gic_complete_irq cfg cpu irq s = (if irq \<noteq> r then
            (case unlink_irq cpu irq r (last_active s) of
               None \<Rightarrow> Inl Diverges
             | Some res \<Rightarrow> rbind res (\<lambda>la. let s = ?s\<lparr>last_active := la\<rparr> in if u then gic_update cfg s else Inr s))
          else rbind (aget2 (last_active s) r cpu) (\<lambda>prev. gic_set_running_irq cfg cpu prev ?s))"
    using r l unfolding gic_complete_irq_def Let_def res by simp
  show ?thesis
  proof (cases "irq = r")
    case True
    let ?prev = "last_active s ! r ! cpu"
    have prev: "?prev = (case rs' of [] \<Rightarrow> 1023 | x # _ \<Rightarrow> x)" "linked (\<lambda>x. last_active s ! x ! cpu) rs'"
      using nest unfolding nested_def by (simp_all only: linked_Cons) (simp_all split: list.split)
    have "?prev = 1023 \<or> ?prev < GIC_NIRQ cfg" using prev(1) nest by (cases rs') (auto simp: nested_def)
    then obtain s' where s': "gic_set_running_irq cfg cpu ?prev ?s = Inr s'" "wf_gic cfg s'"
      "same_but_lines (?s\<lparr>running_irq := (running_irq ?s)[cpu := ?prev],
         running_priority := (running_priority ?s)[cpu := if ?prev = 1023 then 0x100 else prio ?s cpu ?prev]\<rparr>) s'"
      using set_running[OF wf assms(2)] by blast
    have "x \<noteq> 1023" if "x \<in> set rs'" for x using that nest assms(1) by (auto simp: nested_def wf_gic_def)
    then have "nested cfg (?s\<lparr>running_irq := (running_irq ?s)[cpu := ?prev],
         running_priority := (running_priority ?s)[cpu := if ?prev = 1023 then 0x100 else prio ?s cpu ?prev]\<rparr>) cpu rs'"
      using nest prev l by (cases rs') (simp_all add: nested_def)
    then have "nested cfg s' cpu rs'" by (simp only: nested_same[OF s'(3)])
    then show ?thesis
      using that[of s'] s' step True Cons aset2_last[OF assms(1) r(1) assms(2)] by simp
  next
    case False
    have "linked (\<lambda>x. last_active s ! x ! cpu) (r # rs')" "set (r # rs') \<subseteq> {..<GIC_NIRQ cfg}" using nest by (simp_all add: nested_def)
    from unlink_eq[OF assms(1,2) this d assms(4) False] obtain la where la:
      "unlink_irq cpu irq r (last_active s) = Some (Inr la)" "wf_gic cfg (s\<lparr>last_active := la\<rparr>)" "linked (\<lambda>x. la ! x ! cpu) (r # remove1 irq rs')"
      by blast
    let ?t = "?s\<lparr>last_active := la\<rparr>"
    have wft: "wf_gic cfg ?t" using la(2) st by (auto simp: wf_gic_def NUM_CPU_def)
    have "sorted_wrt (\<lambda>a b. prio s cpu a < prio s cpu b) (remove1 irq rs')"
      using nest by (simp add: nested_def sorted_wrt_remove1)
    then have n: "nested cfg ?t cpu (r # remove1 irq rs')"
      using nest la(3) set_remove1_subset[of irq rs'] by (auto simp: nested_def simp del: linked.simps)
    obtain s' where "(if u then gic_update cfg ?t else Inr ?t) = Inr s'" "wf_gic cfg s'" "same_but_lines ?t s'"
      by (metis gic_update_eq[OF wft] wft same_lines_refl)
    then show ?thesis using that[of s'] step False la(1) n Cons nested_same by (simp add: Let_def)
  qed
qed

lemma unlink_self_diverges:
  assumes "aget2 la x cpu = Inr x" "x \<noteq> 1023" "x \<noteq> irq"
  shows "unlink_irq cpu irq x la = None"
proof -
  have "\<not> (cpu' = cpu \<and> irq' = irq \<and> t = x \<and> la' = la)" if "unlink_irq cpu' irq' t la' = Some r" for cpu' irq' t la' r
    using that
  proof (rule unlink_irq.raw_induct[rotated], goal_cases)
    case (1 f cpu' irq' t la' r)
    then show ?case using assms 1(1)[of cpu irq x la r] by auto
  qed
  from this[of cpu irq x la] show ?thesis by (cases "unlink_irq cpu irq x la") simp_all
qed

section \<open>Properties\<close>

definition valid_config :: "gic_config \<Rightarrow> nat \<Rightarrow> bool" where
  "valid_config cfg n \<longleftrightarrow> 32 \<le> GIC_NIRQ cfg \<and> GIC_NIRQ cfg < 1023 \<and> 0 < NCPU cfg \<and> 0 < n \<and> n \<le> NCPU cfg"

lemma wf_reset_cpus: "wf_gic cfg s \<Longrightarrow> \<forall>i \<in> set is. i < NCPU cfg \<Longrightarrow> wf_gic cfg (fold (reset_cpu cfg) is s)"
proof (induction "is" arbitrary: s)
  case (Cons i is1)
  have "wf_gic cfg (reset_cpu cfg i s)" using Cons.prems by (auto simp: wf_gic_def NUM_CPU_def reset_cpu_def nth_list_update)
  then show ?case using Cons by simp
qed simp

lemma reset_cpus_irq: "irq_state (fold (reset_cpu cfg) is s) = irq_state s" "NUM_CPU cfg (fold (reset_cpu cfg) is s) = NUM_CPU cfg s"
  by (induction "is" arbitrary: s) (simp_all add: reset_cpu_def NUM_CPU_def)

lemma wf_gic_init: "valid_config cfg n \<Longrightarrow> wf_gic cfg (gic_init cfg n)"
proof -
  assume v: "valid_config cfg n"
  let ?z = "(gic_zero cfg)\<lparr>num_cpu := n\<rparr>"
  let ?f = "fold (reset_cpu cfg) [0..<NUM_CPU cfg ?z] (?z\<lparr>irq_state := replicate (GIC_NIRQ cfg) irq_zero\<rparr>)"
  have z: "wf_gic cfg (?z\<lparr>irq_state := replicate (GIC_NIRQ cfg) irq_zero\<rparr>)" using v by (auto simp: valid_config_def wf_gic_def gic_zero_def NUM_CPU_def)
  then have "wf_gic cfg ?f" by (intro wf_reset_cpus) (auto simp: wf_gic_def NUM_CPU_def)
  then have "wf_gic cfg (?f\<lparr>irq_state := replicate 16 (irq_zero\<lparr>irq_enabled := True, irq_trigger := True\<rparr>) @ drop 16 (irq_state ?f),
      gic_enabled := e\<rparr>)" for e
    using v by (auto simp: wf_gic_def NUM_CPU_def reset_cpus_irq valid_config_def)
  moreover have "NUM_CPU cfg (?z\<lparr>irq_state := x\<rparr>) = NUM_CPU cfg ?z" for x by (simp add: NUM_CPU_def)
  ultimately show ?thesis by (simp add: gic_init_def gic_reset_def Let_def)
qed

text \<open>A controller with one CPU in which interrupt 40 has priority 0x20, 41 has 0x40, and both are enabled and pending.\<close>

definition sample_gic :: gic_state where
  "sample_gic = (gic_init nvic_config 1)
     \<lparr>priority2 := (replicate 64 0)[8 := 0x20, 9 := 0x40],
      irq_state := (irq_state (gic_init nvic_config 1))
        [40 := irq_zero\<lparr>irq_enabled := True, irq_pending := 1\<rparr>, 41 := irq_zero\<lparr>irq_enabled := True, irq_pending := 1\<rparr>]\<rparr>"

lemma nvic_config_simps [simp]: "NVIC nvic_config" "NCPU nvic_config = 1" "GIC_NIRQ nvic_config = 96" "NUM_CPU nvic_config s = 1"
  by (simp_all add: nvic_config_def NUM_CPU_def)

lemma gic_init_nvic:
  "gic_init nvic_config n = (gic_zero nvic_config)\<lparr>num_cpu := n, priority_mask := [0xf0], current_pending := [1023], running_irq := [1023],
     running_priority := [0x100], cpu_enabled := [1], gic_enabled := 1,
     irq_state := replicate 16 (irq_zero\<lparr>irq_enabled := True, irq_trigger := True\<rparr>) @ replicate 80 irq_zero\<rparr>"
  by (simp add: gic_init_def gic_reset_def gic_zero_def reset_cpu_def Let_def)

lemma wf_sample_gic: "wf_gic nvic_config sample_gic"
  by (auto simp: wf_gic_def sample_gic_def gic_init_nvic gic_zero_def)

text \<open>
  C25: With the distributor and all CPU interfaces switched on, an update chooses for every CPU the enabled and pending
  interrupt with the smallest priority number, the first among equals, if the priority mask lets it pass, and raises
  the line of the CPU exactly when it may interrupt what is running; if none passes, 1023 is chosen and the line is low.
\<close>

theorem gic_update_correct:
  assumes "wf_gic cfg s" "\<forall>c < NUM_CPU cfg s. switched_on s c"
  shows "\<exists>s'. gic_update cfg s = Inr s' \<and> same_but_lines s s' \<and> wf_gic cfg s' \<and> (\<forall>c < NUM_CPU cfg s. chosen cfg s c s')"
  using gic_update_eq[OF assms(1)] assms(2) by metis

theorem gic_update_correct_witness:
  "\<exists>s'. gic_update nvic_config sample_gic = Inr s' \<and> same_but_lines sample_gic s' \<and> wf_gic nvic_config s' \<and>
     (\<forall>c < NUM_CPU nvic_config sample_gic. chosen nvic_config sample_gic c s')"
  by (rule gic_update_correct[OF wf_sample_gic])
     (simp add: switched_on_def sample_gic_def gic_init_nvic)



text \<open>
  C26: A guest can make the emulator hang. If the running interrupt is pending again and its priority number is made
  smaller than the one it runs with, acknowledging it links it to itself, and completing any other interrupt
  never returns.
\<close>

theorem gic_self_nesting_hangs:
  assumes "wf_gic cfg s" "cpu < NCPU cfg" "running_irq s ! cpu = x" "current_pending s ! cpu = x" "x \<noteq> 1023"
    and "prio s cpu x < running_priority s ! cpu" "y < GIC_NIRQ cfg" "y \<noteq> x"
  shows "rbind (gic_acknowledge_irq cfg cpu s) (\<lambda>(irq, s'). gic_complete_irq cfg cpu y s') = Inl Diverges"
proof -
  have x: "x < GIC_NIRQ cfg" using assms(1-5) by (auto simp: wf_gic_def)
  obtain s' where s': "gic_acknowledge_irq cfg cpu s = Inr (x, s')" "wf_gic cfg s'" "running_irq s' = (running_irq s)[cpu := x]"
      "last_active s' = (last_active s)[x := (last_active s ! x)[cpu := running_irq s ! cpu]]"
    using acknowledge_irq[OF assms(1,2,4,5,6)] by metis
  have l: "cpu < length (running_irq s)" using assms(1,2) by (simp add: wf_gic_def)
  have "last_active s' ! x ! cpu = x" using s'(4) nested_last_upd[OF assms(1) x assms(2)] assms(3) by simp
  then have "aget2 (last_active s') x cpu = Inr x" using aset2_last[OF s'(2) x assms(2)] by simp
  from unlink_self_diverges[OF this assms(5)] have u: "unlink_irq cpu y x (last_active s') = None" using assms(8) by simp
  obtain up st where "(if y = 1023 then Inr (False, s')
      else rbind (test_irq (\<lambda>i. \<not> irq_trigger i \<and> irq_enabled i \<and> GIC_TEST_LEVEL (push_bit cpu 1) i) y s') (\<lambda>b.
           if \<not> b then Inr (False, s')
           else rbind (GIC_TARGET cfg y s') (\<lambda>tgt.
                if tgt AND push_bit cpu 1 \<noteq> 0 then rbind (GIC_SET_PENDING cfg y (push_bit cpu 1) s') (\<lambda>s. Inr (True, s))
                else Inr (False, s')))) = Inr (up, s'\<lparr>irq_state := st\<rparr>)" using resample_irq[OF s'(2) assms(7)] by blast
  note res = this
  have "gic_complete_irq cfg cpu y s' = Inl Diverges"
    unfolding gic_complete_irq_def Let_def res using l s'(3) assms(5,8) u by simp
  then show ?thesis using s'(1) by simp
qed

definition sample_renested :: gic_state where
  "sample_renested = sample_gic\<lparr>running_irq := [40], running_priority := [0x40], current_pending := [40]\<rparr>"

theorem gic_self_nesting_hangs_witness:
  "rbind (gic_acknowledge_irq nvic_config 0 sample_renested) (\<lambda>(irq, s'). gic_complete_irq nvic_config 0 41 s') = Inl Diverges"
  by (rule gic_self_nesting_hangs[of nvic_config sample_renested 0 40])
     (use wf_sample_gic in \<open>auto simp: sample_renested_def wf_gic_def\<close>,
      auto simp: sample_gic_def prio_def)

text \<open>
  With more than one CPU the update is not done for all of them: when the interface of CPU 0 is switched off, the
  function returns from the middle of its loop, and the chosen interrupts and the lines of all other CPUs stay as
  they were.
\<close>

theorem gic_update_skips_cpus:
  assumes "wf_gic cfg s" "\<not> switched_on s 0"
  shows "\<exists>s'. gic_update cfg s = Inr s' \<and> (\<forall>c > 0. current_pending s' ! c = current_pending s ! c \<and> parent_irq s' ! c = parent_irq s ! c)"
proof -
  have n: "0 < NUM_CPU cfg s" "0 < NCPU cfg" using assms(1) by (auto simp: wf_gic_def)
  then have u: "[0..<NUM_CPU cfg s] = 0 # [1..<NUM_CPU cfg s]" by (simp add: upt_rec)
  show ?thesis using update_one[OF assms(1) n(2), of "[1..<NUM_CPU cfg s]"] assms(2) unfolding gic_update_def u by (metis not_gr_zero)
qed

text \<open>Two of four CPUs, of which only the second has its interface switched on.\<close>

definition sample_mpcore :: gic_state where
  "sample_mpcore = (gic_init a9mpcore_config 2)\<lparr>gic_enabled := 1, cpu_enabled := [0, 1, 0, 0]\<rparr>"

theorem gic_update_skips_cpus_witness:
  "\<exists>s'. gic_update a9mpcore_config sample_mpcore = Inr s' \<and>
     (\<forall>c > 0. current_pending s' ! c = current_pending sample_mpcore ! c \<and> parent_irq s' ! c = parent_irq sample_mpcore ! c)"
proof (rule gic_update_skips_cpus)
  have "wf_gic a9mpcore_config (gic_init a9mpcore_config 2)" by (rule wf_gic_init) (simp add: valid_config_def a9mpcore_config_def)
  then show "wf_gic a9mpcore_config sample_mpcore" by (simp add: wf_gic_def sample_mpcore_def NUM_CPU_def) (simp add: a9mpcore_config_def)
qed (simp add: sample_mpcore_def switched_on_def)

text \<open>
  The number in the software interrupt register has ten bits and is not checked: a number that the controller does
  not have is used as an index into the array of interrupts.
\<close>

theorem gic_soft_irq_overflow:
  assumes "wf_gic cfg s" "GIC_NIRQ cfg \<le> unat (value AND 0x3ff)"
  shows "gic_dist_writel cfg cpu 0xf00 value s = Inl Out_Of_Bounds"
  using assms by (simp add: gic_dist_writel_def Let_def GIC_SET_PENDING_def with_irq_def wf_gic_def)

theorem gic_soft_irq_overflow_witness:
  "gic_dist_writel nvic_config 0 0xf00 0x3ff sample_gic = Inl Out_Of_Bounds"
  by (rule gic_soft_irq_overflow[OF wf_sample_gic]) simp

end
