(* ===== verification/GIC_Savevm.thy ===== *)
theory GIC_Savevm
  imports GIC_Nesting
begin

text \<open>
  Saving and loading the interrupt controller (\<^verbatim>\<open>gic_save\<close> and \<^verbatim>\<open>gic_load\<close> of \<^verbatim>\<open>hw/arm_gic.c\<close>) and what a load
  restores. A word that is read into a bit field keeps the bits of the field.
\<close>

section \<open>Definitions\<close>

definition irq_bytes :: "gic_irq_state \<Rightarrow> u32 list" where
  "irq_bytes i = [of_bool (irq_enabled i), irq_pending i, irq_active i, irq_level i, of_bool (irq_model i), of_bool (irq_trigger i)]"

definition cpu_words :: "gic_config \<Rightarrow> nat \<Rightarrow> gic_state \<Rightarrow> u32 list" where
  "cpu_words cfg i s =
     [word_of_int (cpu_enabled s ! i)] @ (if NVIC cfg then [] else [irq_target s ! i]) @
     map (\<lambda>j. word_of_int (priority1 s ! j ! i)) [0..<32] @
     map (\<lambda>j. of_nat (last_active s ! j ! i)) [0..<GIC_NIRQ cfg] @
     [word_of_int (priority_mask s ! i), of_nat (running_irq s ! i), word_of_int (running_priority s ! i), of_nat (current_pending s ! i)]"

definition gic_save :: "gic_config \<Rightarrow> gic_state \<Rightarrow> bytes \<Rightarrow> bytes" where
  "gic_save cfg s f =
     (let f = qemu_put_be32 (word_of_int (gic_enabled s)) f;
          f = fold (\<lambda>i. put_words (cpu_words cfg i s)) [0..<NUM_CPU cfg s] f;
          f = put_words (map (\<lambda>i. word_of_int (priority2 s ! i)) [0..<GIC_NIRQ cfg - 32]) f
      in fold (\<lambda>i. fold put_byte (irq_bytes (irq_state s ! i))) [0..<GIC_NIRQ cfg] f)"

definition set_column :: "nat \<Rightarrow> 'a list \<Rightarrow> 'a list list \<Rightarrow> 'a list list" where
  "set_column i vs rows = map2 (\<lambda>row v. row[i := v]) rows vs"

definition load_cpu :: "gic_config \<Rightarrow> nat \<Rightarrow> gic_state \<times> bytes \<Rightarrow> gic_state \<times> bytes" where
  "load_cpu cfg i = (\<lambda>(s, f).
     let (w, f) = qemu_get_be32 f;
         s = s\<lparr>cpu_enabled := (cpu_enabled s)[i := sint w]\<rparr>;
         (s, f) = (if NVIC cfg then (s, f)
                   else let (w, f) = qemu_get_be32 f in (s\<lparr>irq_target := (irq_target s)[i := w]\<rparr>, f));
         (ps, f) = get_words 32 f;
         (las, f) = get_words (GIC_NIRQ cfg) f;
         (m, f) = qemu_get_be32 f;
         (r, f) = qemu_get_be32 f;
         (p, f) = qemu_get_be32 f;
         (c, f) = qemu_get_be32 f
     in (s\<lparr>priority1 := set_column i (map sint ps) (priority1 s), last_active := set_column i (map unat las) (last_active s),
           priority_mask := (priority_mask s)[i := sint m], running_irq := (running_irq s)[i := unat r],
           running_priority := (running_priority s)[i := sint p], current_pending := (current_pending s)[i := unat c]\<rparr>, f))"

definition load_irq :: "gic_config \<Rightarrow> bytes \<Rightarrow> gic_irq_state \<times> bytes" where
  "load_irq cfg f =
     (let (e, f) = get_byte f; (p, f) = get_byte f; (a, f) = get_byte f; (l, f) = get_byte f; (m, f) = get_byte f; (t, f) = get_byte f
      in (\<lparr>irq_enabled = bit e 0, irq_pending = p AND ALL_CPU_MASK cfg, irq_active = a AND ALL_CPU_MASK cfg,
           irq_level = l AND ALL_CPU_MASK cfg, irq_model = bit m 0, irq_trigger = bit t 0\<rparr>, f))"

primrec load_irqs :: "gic_config \<Rightarrow> nat \<Rightarrow> bytes \<Rightarrow> gic_irq_state list \<times> bytes" where
  "load_irqs cfg 0 f = ([], f)"
| "load_irqs cfg (Suc n) f = (let (i, f) = load_irq cfg f; (is, f) = load_irqs cfg n f in (i # is, f))"

definition gic_load :: "gic_config \<Rightarrow> i32 \<Rightarrow> bytes \<Rightarrow> gic_state \<Rightarrow> (gic_state \<times> bytes) option" where
  "gic_load cfg version_id f s =
     (if version_id \<noteq> 1 then None
      else
        let (w, f) = qemu_get_be32 f;
            (s, f) = fold (load_cpu cfg) [0..<NUM_CPU cfg s] (s\<lparr>gic_enabled := sint w\<rparr>, f);
            (ps, f) = get_words (GIC_NIRQ cfg - 32) f;
            (is, f) = load_irqs cfg (GIC_NIRQ cfg) f
        in Some (s\<lparr>priority2 := map sint ps, irq_state := is\<rparr>, f))"

section \<open>Round trip\<close>

text \<open>The numbers of a state fit their C types.\<close>

definition fits_int :: "int \<Rightarrow> bool" where
  "fits_int v \<longleftrightarrow> - (2 ^ 31) \<le> v \<and> v < 2 ^ 31"

definition fits_irq :: "gic_config \<Rightarrow> gic_irq_state \<Rightarrow> bool" where
  "fits_irq cfg i \<longleftrightarrow> irq_pending i AND ALL_CPU_MASK cfg = irq_pending i \<and> irq_active i AND ALL_CPU_MASK cfg = irq_active i \<and>
     irq_level i AND ALL_CPU_MASK cfg = irq_level i"

definition fits_gic :: "gic_config \<Rightarrow> gic_state \<Rightarrow> bool" where
  "fits_gic cfg s \<longleftrightarrow> fits_int (gic_enabled s) \<and> (\<forall>v \<in> set (cpu_enabled s). fits_int v) \<and> (\<forall>r \<in> set (priority1 s). \<forall>v \<in> set r. fits_int v) \<and>
     (\<forall>v \<in> set (priority2 s). fits_int v) \<and> (\<forall>r \<in> set (last_active s). \<forall>v \<in> set r. v < 2 ^ 31) \<and>
     (\<forall>v \<in> set (priority_mask s). fits_int v) \<and> (\<forall>v \<in> set (running_irq s). v < 2 ^ 31) \<and>
     (\<forall>v \<in> set (running_priority s). fits_int v) \<and> (\<forall>v \<in> set (current_pending s). v < 2 ^ 31) \<and>
     (\<forall>i \<in> set (irq_state s). fits_irq cfg i)"

lemma sint_fits [simp]: "fits_int v \<Longrightarrow> sint (word_of_int v :: u32) = v"
  by (simp add: fits_int_def sint_sbintrunc' signed_take_bit_int_eq_self)

lemma unat_fits [simp]: "n < 2 ^ 31 \<Longrightarrow> unat (of_nat n :: u32) = n"
  by (simp add: unat_of_nat take_bit_nat_eq_self)

lemma flag_byte [simp]: "ucast (ucast (of_bool b :: u32) :: u8) = (of_bool b :: u32)"
  by (cases b) simp_all

lemma low_bit: "(w :: u32) AND 1 = w \<Longrightarrow> w = of_bool (odd w)"
  by (simp add: and_one_eq mod_2_eq_odd)

lemma load_irq_put:
  assumes "fits_irq cfg i" "NCPU cfg = 1"
  shows "load_irq cfg (map ucast (irq_bytes i) @ rest) = (i, rest)"
proof -
  have m: "ALL_CPU_MASK cfg = 1" using assms(2) by (simp add: ALL_CPU_MASK_def)
  obtain p a l where "irq_pending i = of_bool p" "irq_active i = of_bool a" "irq_level i = of_bool l"
    using assms(1) low_bit unfolding fits_irq_def m by metis
  then show ?thesis by (simp add: load_irq_def irq_bytes_def m bit_simps)
qed

lemma put_bytes: "fold put_byte ws f = f @ map ucast ws"
  by (induction ws arbitrary: f) (simp_all add: put_byte_def)

lemma put_irqs: "fold (\<lambda>i. fold put_byte (irq_bytes (st ! i))) is f = f @ concat (map (\<lambda>i. map ucast (irq_bytes (st ! i))) is)"
  by (induction "is" arbitrary: f) (simp_all add: put_bytes)

lemma load_irqs_put:
  assumes "\<forall>i \<in> set st. fits_irq cfg i" "NCPU cfg = 1"
  shows "load_irqs cfg (length st) (concat (map (\<lambda>i. map ucast (irq_bytes i)) st) @ rest) = (st, rest)"
  using assms by (induction st) (simp_all add: load_irq_put)

lemma set_column_same:
  assumes "length rows = length rows'" "\<forall>r \<in> set rows. length r = 1" "\<forall>r \<in> set rows'. length r = 1"
  shows "set_column 0 (map (\<lambda>r. r ! 0) rows) rows' = rows"
  using assms
proof (induction rows rows' rule: list_induct2)
  case (Cons r rows r' rows')
  have "length r = 1" "length r' = 1" using Cons.prems by simp_all
  then obtain a b where "r = [a]" "r' = [b]" by (auto simp: length_Suc_conv)
  then show ?case using Cons by (simp add: set_column_def)
qed (simp add: set_column_def)

lemma put_words_split: "put_words (xs @ ys) [] = put_words xs [] @ put_words ys []"
proof -
  have "put_words (xs @ ys) [] = put_words ys (put_words xs [])" by (simp add: put_words_def)
  then show ?thesis using put_words_append[of ys "put_words xs []"] by simp
qed

lemma put_Cons: "put_words [] [] = []" "put_words (w # ws) [] = qemu_put_be32 w [] @ put_words ws []"
  using put_words_split[of "[w]" ws] by (simp_all add: put_words_def)

lemma get_put: "length ws = n \<Longrightarrow> get_words n (put_words ws [] @ rest) = (ws, rest)"
  using get_put_words by blast

lemma nth_rows: "length rows = n \<Longrightarrow> map (\<lambda>j. g (rows ! j)) [0..<n] = map g rows"
  by (rule nth_equalityI) simp_all

lemma one_elem: "length xs = 1 \<Longrightarrow> xs[0 := v] = [v]" "length xs = 1 \<Longrightarrow> [xs ! 0] = xs"
  by (auto simp: length_Suc_conv)

text \<open>What a load takes from the stream; the rest is as it was before.\<close>

definition restored :: "gic_config \<Rightarrow> gic_state \<Rightarrow> gic_state \<Rightarrow> gic_state" where
  "restored cfg s t = s\<lparr>parent_irq := parent_irq t, num_cpu := num_cpu t,
     irq_target := (if NVIC cfg then irq_target t else (irq_target t)[0 := irq_target s ! 0])\<rparr>"

lemma wf_one:
  assumes "wf_gic cfg s" "NCPU cfg = 1"
  shows "length (cpu_enabled s) = 1" "length (priority_mask s) = 1" "length (running_irq s) = 1" "length (running_priority s) = 1"
    "length (current_pending s) = 1" "length (priority1 s) = 32" "length (last_active s) = GIC_NIRQ cfg" "length (irq_state s) = GIC_NIRQ cfg"
    "length (priority2 s) = GIC_NIRQ cfg - 32" "\<forall>r \<in> set (priority1 s). length r = 1" "\<forall>r \<in> set (last_active s). length r = 1"
  using assms by (auto simp: wf_gic_def in_set_conv_nth)

lemma load_cpu_put:
  assumes "wf_gic cfg s" "wf_gic cfg t" "NCPU cfg = 1" "fits_gic cfg s"
  shows "load_cpu cfg 0 (t, put_words (cpu_words cfg 0 s) [] @ rest) =
    ((restored cfg s t)\<lparr>gic_enabled := gic_enabled t, priority2 := priority2 t, irq_state := irq_state t\<rparr>, rest)"
proof -
  note ws = wf_one[OF assms(1,3)] and wt = wf_one[OF assms(2,3)]
  let ?ps = "map (\<lambda>j. word_of_int (priority1 s ! j ! 0) :: u32) [0..<32]"
  let ?las = "map (\<lambda>j. of_nat (last_active s ! j ! 0) :: u32) [0..<GIC_NIRQ cfg]"
  have "map sint ?ps = map (\<lambda>r. r ! 0) (priority1 s)"
    using nth_rows[OF ws(6), of "\<lambda>r. word_of_int (r ! 0) :: u32"] ws(10) assms(4) by (simp add: fits_gic_def)
  then have p1: "set_column 0 (map sint ?ps) (priority1 t) = priority1 s"
    using set_column_same[of "priority1 s" "priority1 t"] ws wt by simp
  have "map unat ?las = map (\<lambda>r. r ! 0) (last_active s)"
    using nth_rows[OF ws(7), of "\<lambda>r. of_nat (r ! 0) :: u32"] ws(11) assms(4) by (simp add: fits_gic_def)
  then have la: "set_column 0 (map unat ?las) (last_active t) = last_active s"
    using set_column_same[of "last_active s" "last_active t"] ws wt by simp
  have f: "fits_int (cpu_enabled s ! 0)" "fits_int (priority_mask s ! 0)" "fits_int (running_priority s ! 0)"
    "running_irq s ! 0 < 2 ^ 31" "current_pending s ! 0 < 2 ^ 31"
    using assms(4) ws by (simp_all add: fits_gic_def)
  have u: "unat (of_nat (running_irq s ! 0) :: u32) = running_irq s ! 0" "unat (of_nat (current_pending s ! 0) :: u32) = current_pending s ! 0"
    by (rule unat_fits[OF f(4)], rule unat_fits[OF f(5)])
  have bytes: "put_words (cpu_words cfg 0 s) [] @ rest =
      qemu_put_be32 (word_of_int (cpu_enabled s ! 0)) [] @ (if NVIC cfg then [] else qemu_put_be32 (irq_target s ! 0) []) @
      put_words ?ps [] @ put_words ?las [] @ qemu_put_be32 (word_of_int (priority_mask s ! 0)) [] @ qemu_put_be32 (of_nat (running_irq s ! 0)) [] @
      qemu_put_be32 (word_of_int (running_priority s ! 0)) [] @ qemu_put_be32 (of_nat (current_pending s ! 0)) [] @ rest"
    unfolding cpu_words_def put_words_split by (simp add: put_Cons del: map_map upt_conv_Cons)
  have g: "length ?ps = 32" "length ?las = GIC_NIRQ cfg" by simp_all
  show ?thesis
    unfolding bytes load_cpu_def restored_def
    by (cases "NVIC cfg")
       (simp_all only: prod.case Let_def get_be32_put get_put[OF g(1)] get_put[OF g(2)] if_True if_False append_Nil simp_thms,
        simp_all add: f one_elem ws wt p1 la u del: map_map)
qed

lemma wf_enabled: "wf_gic cfg (t\<lparr>gic_enabled := e\<rparr>) = wf_gic cfg t"
  by (simp add: wf_gic_def NUM_CPU_def)

section \<open>Properties\<close>


text \<open>A controller of the RealView board in which interrupt 40 is routed to the CPU.\<close>

definition sample_routed :: gic_state where
  "sample_routed = (gic_init realview_config 1)\<lparr>irq_target := (replicate 96 0)[40 := 1]\<rparr>"

lemma realview_simps [simp]: "\<not> NVIC realview_config" "NCPU realview_config = 1" "GIC_NIRQ realview_config = 96" "NUM_CPU realview_config s = 1"
  by (simp_all add: realview_config_def NUM_CPU_def)

lemma gic_init_realview:
  "gic_init realview_config n = (gic_zero realview_config)\<lparr>num_cpu := n, priority_mask := [0xf0], current_pending := [1023], running_irq := [1023],
     running_priority := [0x100], cpu_enabled := [0], gic_enabled := 0,
     irq_state := replicate 16 (irq_zero\<lparr>irq_enabled := True, irq_trigger := True\<rparr>) @ replicate 80 irq_zero\<rparr>"
  by (simp add: gic_init_def gic_reset_def gic_zero_def reset_cpu_def Let_def)

lemma wf_realview: "wf_gic realview_config (gic_init realview_config 1)"
  by (rule wf_gic_init) (simp add: valid_config_def)


end
