(* ===== verification/ARMv7M_NVIC.thy ===== *)
theory ARMv7M_NVIC
  imports GIC_Nesting "HOL-Library.Signed_Division"
begin

text \<open>
  The nested vectored interrupt controller of the M profile and its system timer (\<^verbatim>\<open>hw/armv7m_nvic.c\<close>), on top of
  \<^verbatim>\<open>hw/arm_gic.c\<close> with one CPU and 96 interrupts. The timer of the emulator is the time it is armed for;
  \<open>system_clock_scale\<close>, a global variable that the board sets, and the time of the virtual clock are arguments.
\<close>

record nvic_state =
  nv_gic :: gic_state
  st_control :: u32
  st_reload :: u32
  st_tick :: i64
  st_timer :: "i64 option"
  v7m_vecbase :: u32
  c0_cpuid :: u32

abbreviation (input) ARMV7M_EXCP_NMI :: nat where "ARMV7M_EXCP_NMI \<equiv> 2"
abbreviation (input) ARMV7M_EXCP_MEM :: nat where "ARMV7M_EXCP_MEM \<equiv> 4"
abbreviation (input) ARMV7M_EXCP_BUS :: nat where "ARMV7M_EXCP_BUS \<equiv> 5"
abbreviation (input) ARMV7M_EXCP_USAGE :: nat where "ARMV7M_EXCP_USAGE \<equiv> 6"
abbreviation (input) ARMV7M_EXCP_SVC :: nat where "ARMV7M_EXCP_SVC \<equiv> 11"
abbreviation (input) ARMV7M_EXCP_DEBUG :: nat where "ARMV7M_EXCP_DEBUG \<equiv> 12"
abbreviation (input) ARMV7M_EXCP_PENDSV :: nat where "ARMV7M_EXCP_PENDSV \<equiv> 14"
abbreviation (input) ARMV7M_EXCP_SYSTICK :: nat where "ARMV7M_EXCP_SYSTICK \<equiv> 15"

abbreviation (input) SYSTICK_ENABLE :: nat where "SYSTICK_ENABLE \<equiv> 0"
abbreviation (input) SYSTICK_TICKINT :: nat where "SYSTICK_TICKINT \<equiv> 1"
abbreviation (input) SYSTICK_CLKSOURCE :: nat where "SYSTICK_CLKSOURCE \<equiv> 2"
abbreviation (input) SYSTICK_COUNTFLAG :: nat where "SYSTICK_COUNTFLAG \<equiv> 16"

section \<open>Interrupts\<close>

definition on_gic :: "(gic_state \<Rightarrow> gic_state result) \<Rightarrow> nvic_state \<Rightarrow> nvic_state result" where
  "on_gic f s = rbind (f (nv_gic s)) (\<lambda>g. Inr (s\<lparr>nv_gic := g\<rparr>))"

text \<open>Outside numbers: the first external interrupt is 16; inside it is 32.\<close>

definition armv7m_nvic_set_pending :: "nat \<Rightarrow> nvic_state \<Rightarrow> nvic_state result" where
  "armv7m_nvic_set_pending irq = on_gic (gic_set_pending_private nvic_config 0 (if 16 \<le> irq then irq + 16 else irq))"

definition armv7m_nvic_acknowledge_irq :: "nvic_state \<Rightarrow> (nat \<times> nvic_state) result" where
  "armv7m_nvic_acknowledge_irq s =
     rbind (gic_acknowledge_irq nvic_config 0 (nv_gic s)) (\<lambda>(irq, g).
     if irq = 1023 then Inl Hw_Error else Inr (if 32 \<le> irq then irq - 16 else irq, s\<lparr>nv_gic := g\<rparr>))"

definition armv7m_nvic_complete_irq :: "nat \<Rightarrow> nvic_state \<Rightarrow> nvic_state result" where
  "armv7m_nvic_complete_irq irq = on_gic (gic_complete_irq nvic_config 0 (if 16 \<le> irq then irq + 16 else irq))"

section \<open>The system timer\<close>

definition systick_scale :: "i32 \<Rightarrow> nvic_state \<Rightarrow> i64" where
  "systick_scale scale s = (if bit (st_control s) SYSTICK_CLKSOURCE then scast scale else 1000)"

definition systick_reload :: "i32 \<Rightarrow> i64 \<Rightarrow> bool \<Rightarrow> nvic_state \<Rightarrow> nvic_state" where
  "systick_reload scale now reset s =
     (let tick = (if reset then now else st_tick s) + ucast (st_reload s + 1) * systick_scale scale s
      in s\<lparr>st_tick := tick, st_timer := Some tick\<rparr>)"

definition systick_timer_tick :: "i32 \<Rightarrow> i64 \<Rightarrow> nvic_state \<Rightarrow> nvic_state result" where
  "systick_timer_tick scale now s =
     (let s = s\<lparr>st_control := set_bit SYSTICK_COUNTFLAG (st_control s)\<rparr>
      in rbind (if bit (st_control s) SYSTICK_TICKINT then armv7m_nvic_set_pending ARMV7M_EXCP_SYSTICK s else Inr s) (\<lambda>s.
         if st_reload s = 0 then Inr (s\<lparr>st_control := unset_bit SYSTICK_ENABLE (st_control s)\<rparr>)
         else Inr (systick_reload scale now False s)))"

section \<open>Registers\<close>

definition flag :: "nat \<Rightarrow> bool \<Rightarrow> u32" where
  "flag n b = (if b then push_bit n 1 else 0)"

definition irq_of :: "nvic_state \<Rightarrow> nat \<Rightarrow> gic_irq_state" where
  "irq_of s n = irq_state (nv_gic s) ! n"

text \<open>Interrupt Control State.\<close>

definition read_icsr :: "nvic_state \<Rightarrow> u32 result" where
  "read_icsr s =
     (let g = nv_gic s in
      rbind (aget (running_irq g) 0) (\<lambda>r.
      rbind (if r = 1023 then Inr True else rbind (aget2 (last_active g) r 0) (\<lambda>l. Inr (l = 1023))) (\<lambda>rettobase.
      rbind (aget (current_pending g) 0) (\<lambda>cp.
      Inr (of_nat (if r = 1023 then 0 else if 32 \<le> r then r - 16 else r) OR flag 11 rettobase OR
           (if cp \<noteq> 1023 then push_bit 12 (of_nat cp) else 0) OR
           flag 22 (list_ex (\<lambda>i. irq_pending i \<noteq> 0) (drop 32 (irq_state g))) OR
           flag 26 (irq_pending (irq_of s ARMV7M_EXCP_SYSTICK) \<noteq> 0) OR
           flag 28 (irq_pending (irq_of s ARMV7M_EXCP_PENDSV) \<noteq> 0) OR
           flag 31 (irq_pending (irq_of s ARMV7M_EXCP_NMI) \<noteq> 0)))))) "

text \<open>System Handler Priority: four priorities from \<open>irq\<close> on.\<close>

definition read_shpr :: "nat \<Rightarrow> nvic_state \<Rightarrow> u32 result" where
  "read_shpr irq s =
     (let p = (\<lambda>i. aget2 (priority1 (nv_gic s)) i 0) in
      rbind (p irq) (\<lambda>a. rbind (p (irq + 1)) (\<lambda>b. rbind (p (irq + 2)) (\<lambda>c. rbind (p (irq + 3)) (\<lambda>d.
      Inr (word_of_int a OR push_bit 8 (word_of_int b) OR push_bit 16 (word_of_int c) OR push_bit 24 (word_of_int d)))))))"

text \<open>System Handler Status.\<close>

definition read_shcsr :: "nvic_state \<Rightarrow> u32" where
  "read_shcsr s =
     (let act = (\<lambda>n. irq_active (irq_of s n) \<noteq> 0); pend = (\<lambda>n. irq_pending (irq_of s n) \<noteq> 0) in
      flag 0 (act ARMV7M_EXCP_MEM) OR flag 1 (act ARMV7M_EXCP_BUS) OR flag 3 (act ARMV7M_EXCP_USAGE) OR
      flag 7 (act ARMV7M_EXCP_SVC) OR flag 8 (act ARMV7M_EXCP_DEBUG) OR flag 10 (act ARMV7M_EXCP_PENDSV) OR
      flag 11 (act ARMV7M_EXCP_SYSTICK) OR flag 12 (pend ARMV7M_EXCP_USAGE) OR flag 13 (pend ARMV7M_EXCP_MEM) OR
      flag 14 (pend ARMV7M_EXCP_BUS) OR flag 15 (pend ARMV7M_EXCP_SVC) OR flag 16 (irq_enabled (irq_of s ARMV7M_EXCP_MEM)) OR
      flag 17 (irq_enabled (irq_of s ARMV7M_EXCP_BUS)) OR flag 18 (irq_enabled (irq_of s ARMV7M_EXCP_USAGE)))"

text \<open>SysTick Current Value; the division by a scale of zero is undefined.\<close>

definition read_systick_current :: "i32 \<Rightarrow> i64 \<Rightarrow> nvic_state \<Rightarrow> u32 result" where
  "read_systick_current scale t s =
     (if \<not> bit (st_control s) SYSTICK_ENABLE then Inr 0
      else if sint t \<ge> sint (st_tick s) then Inr 0
      else if systick_scale scale s = 0 then Inl Undefined
      else
        let val = word_of_int (sint (st_tick s - (t + 1)) sdiv sint (systick_scale scale s) + 1) :: u32
        in Inr (if val > st_reload s then 0 else val))"

definition nvic_id :: "nat \<Rightarrow> u32 option" where
  "nvic_id offset =
     map_of [(0xd40, 0x30), (0xd44, 0x200), (0xd48, 0x100000), (0xd4c, 0), (0xd50, 0x30), (0xd54, 0), (0xd58, 0), (0xd5c, 0),
       (0xd60, 0x01141110), (0xd64, 0x02111000), (0xd68, 0x21112231), (0xd6c, 0x01111110), (0xd70, 0x01310102)] offset"

definition nvic_readl :: "i32 \<Rightarrow> i64 \<Rightarrow> nat \<Rightarrow> nvic_state \<Rightarrow> (u32 \<times> nvic_state) result" where
  "nvic_readl scale now offset s =
     (let const = (\<lambda>v. Inr (v, s)); value = (\<lambda>m. rbind m (\<lambda>v. Inr (v, s))) in
      if offset = 4 then const 2
      else if offset = 0x10 then Inr (st_control s, s\<lparr>st_control := unset_bit SYSTICK_COUNTFLAG (st_control s)\<rparr>)
      else if offset = 0x14 then const (st_reload s)
      else if offset = 0x18 then value (read_systick_current scale now s)
      else if offset = 0x1c then const 10000
      else if offset = 0xd00 then const (c0_cpuid s)
      else if offset = 0xd04 then value (read_icsr s)
      else if offset = 0xd08 then const (v7m_vecbase s)
      else if offset = 0xd0c then const 0xfa05000
      else if offset = 0xd10 then const 0
      else if offset = 0xd14 then const 0
      else if offset = 0xd18 \<or> offset = 0xd1c \<or> offset = 0xd20 then value (read_shpr (offset - 0xd14) s)
      else if offset = 0xd24 then const (read_shcsr s)
      else (case nvic_id offset of Some v \<Rightarrow> const v | None \<Rightarrow> Inl Hw_Error))"

definition write_systick_control :: "i32 \<Rightarrow> i64 \<Rightarrow> u32 \<Rightarrow> nvic_state \<Rightarrow> nvic_state" where
  "write_systick_control scale now value s =
     (let oldval = st_control s;
          s = s\<lparr>st_control := (st_control s AND 0xfffffff8) OR (value AND 7)\<rparr>
      in if bit (oldval XOR value) SYSTICK_ENABLE then
           if bit value SYSTICK_ENABLE then
             if st_tick s \<noteq> 0 then s\<lparr>st_tick := st_tick s + now, st_timer := Some (st_tick s + now)\<rparr>
             else systick_reload scale now True s
           else
             let tick = st_tick s - now
             in s\<lparr>st_timer := None, st_tick := (if sint tick < 0 then 0 else tick)\<rparr>
         else if bit (oldval XOR value) SYSTICK_CLKSOURCE then systick_reload scale now True s
         else s)"

definition clear_pending_exc :: "nat \<Rightarrow> nvic_state \<Rightarrow> nvic_state result" where
  "clear_pending_exc n = on_gic (\<lambda>g. rbind (with_irq (\<lambda>i. i\<lparr>irq_pending := 0\<rparr>) n g) (gic_update nvic_config))"

definition write_icsr :: "u32 \<Rightarrow> nvic_state \<Rightarrow> nvic_state result" where
  "write_icsr value s =
     rbind (if bit value 31 then armv7m_nvic_set_pending ARMV7M_EXCP_NMI s else Inr s) (\<lambda>s.
     rbind (if bit value 28 then armv7m_nvic_set_pending ARMV7M_EXCP_PENDSV s
            else if bit value 27 then clear_pending_exc ARMV7M_EXCP_PENDSV s else Inr s) (\<lambda>s.
     if bit value 26 then armv7m_nvic_set_pending ARMV7M_EXCP_SYSTICK s
     else if bit value 25 then clear_pending_exc ARMV7M_EXCP_SYSTICK s else Inr s))"

definition write_shpr :: "nat \<Rightarrow> u32 \<Rightarrow> nvic_state \<Rightarrow> nvic_state result" where
  "write_shpr irq value =
     on_gic (\<lambda>g.
       rbind (write_priority 0 irq (value AND 0xff) g) (\<lambda>g.
       rbind (write_priority 0 (irq + 1) (drop_bit 8 value AND 0xff) g) (\<lambda>g.
       rbind (write_priority 0 (irq + 2) (drop_bit 16 value AND 0xff) g) (\<lambda>g.
       rbind (write_priority 0 (irq + 3) (drop_bit 24 value AND 0xff) g) (gic_update nvic_config)))))"

definition write_shcsr :: "u32 \<Rightarrow> nvic_state \<Rightarrow> nvic_state result" where
  "write_shcsr value =
     on_gic (\<lambda>g.
       rbind (with_irq (\<lambda>i. i\<lparr>irq_enabled := bit value 16\<rparr>) ARMV7M_EXCP_MEM g) (\<lambda>g.
       rbind (with_irq (\<lambda>i. i\<lparr>irq_enabled := bit value 17\<rparr>) ARMV7M_EXCP_BUS g) (\<lambda>g.
       with_irq (\<lambda>i. i\<lparr>irq_enabled := bit value 18\<rparr>) ARMV7M_EXCP_USAGE g)))"

definition nvic_writel :: "i32 \<Rightarrow> i64 \<Rightarrow> nat \<Rightarrow> u32 \<Rightarrow> nvic_state \<Rightarrow> nvic_state result" where
  "nvic_writel scale now offset value s =
     (if offset = 0x10 then Inr (write_systick_control scale now value s)
      else if offset = 0x14 then Inr (s\<lparr>st_reload := value\<rparr>)
      else if offset = 0x18 then
        (let s = systick_reload scale now True s in Inr (s\<lparr>st_control := unset_bit SYSTICK_COUNTFLAG (st_control s)\<rparr>))
      else if offset = 0xd04 then write_icsr value s
      else if offset = 0xd08 then Inr (s\<lparr>v7m_vecbase := value AND 0xffffff80\<rparr>)
      else if offset = 0xd0c then (if drop_bit 16 value = 0x05fa \<and> value AND 7 \<noteq> 0 then Inl Hw_Error else Inr s)
      else if offset = 0xd18 \<or> offset = 0xd1c \<or> offset = 0xd20 then write_shpr (offset - 0xd14) value s
      else if offset = 0xd24 then write_shcsr value s
      else Inl Hw_Error)"

section \<open>The memory region\<close>

definition nvic_mem_readl :: "i32 \<Rightarrow> i64 \<Rightarrow> nat \<Rightarrow> nvic_state \<Rightarrow> (u32 \<times> nvic_state) result" where
  "nvic_mem_readl scale now offset s =
     (if offset < 0x100 \<or> offset > 0xd00 then nvic_readl scale now offset s
      else rbind (gic_dist_readl nvic_config 0 offset (nv_gic s)) (\<lambda>v. Inr (v, s)))"

definition nvic_mem_writel :: "i32 \<Rightarrow> i64 \<Rightarrow> nat \<Rightarrow> u32 \<Rightarrow> nvic_state \<Rightarrow> nvic_state result" where
  "nvic_mem_writel scale now offset value s =
     (if offset < 0x100 \<or> offset > 0xd00 \<and> offset \<noteq> 0xf00 then nvic_writel scale now offset value s
      else on_gic (gic_dist_writel nvic_config 0 offset value) s)"

definition armv7m_nvic_init :: "u32 \<Rightarrow> nvic_state" where
  "armv7m_nvic_init cpuid =
     \<lparr>nv_gic = gic_init nvic_config 1, st_control = 0, st_reload = 0, st_tick = 0, st_timer = None, v7m_vecbase = 0, c0_cpuid = cpuid\<rparr>"

end
