(* ===== verification/NVIC_Invariant.thy ===== *)
theory NVIC_Invariant
  imports ARMv7M_NVIC
begin

text \<open>
  The states that the interrupt controller of the M profile can reach, and what holds in all of them: the priority
  mask, which no register of it sets, stays at its reset value, and the active bits are never set.
\<close>

section \<open>The invariant\<close>

text \<open>\<open>unsettled\<close> holds in the middle of an operation, before the update that ends it.\<close>

definition unsettled :: "gic_state \<Rightarrow> bool" where
  "unsettled g \<longleftrightarrow> wf_gic nvic_config g \<and> (\<forall>i \<in> set (irq_state g). irq_active i = 0) \<and> priority_mask g = [0xf0] \<and>
     gic_enabled g = 1 \<and> cpu_enabled g = [1]"

definition nvic_ok :: "gic_state \<Rightarrow> bool" where
  "nvic_ok g \<longleftrightarrow> unsettled g \<and> (current_pending g ! 0 = 1023 \<or> prio g 0 (current_pending g ! 0) \<le> 0xf0)"

lemma nvic_ok_unsettled: "nvic_ok g \<Longrightarrow> unsettled g"
  by (simp add: nvic_ok_def)

lemma update_settles: "unsettled g \<Longrightarrow> ensures nvic_ok (gic_update nvic_config g)"
proof -
  assume u: "unsettled g"
  then have on: "switched_on g c" if "c < 1" for c using that by (simp add: unsettled_def switched_on_def)
  have m: "priority_mask g ! 0 = 0xf0" using u by (simp add: unsettled_def)
  obtain g' where g': "gic_update nvic_config g = Inr g'" "same_but_lines g g'" "wf_gic nvic_config g'" "chosen nvic_config g 0 g'"
    using gic_update_eq[of nvic_config g] u on by (auto simp: unsettled_def)
  have "unsettled g'" using u g'(2,3) by (simp add: unsettled_def same_but_lines_def)
  moreover have "current_pending g' ! 0 = 1023 \<or> prio g' 0 (current_pending g' ! 0) \<le> 0xf0"
    using g'(4) highest_unique[of 96 g 0] unfolding same_linesD[OF g'(2)] chosen_def m by (auto split: if_splits)
  ultimately show ?thesis by (simp add: g'(1) nvic_ok_def)
qed

lemma with_irq_unsettled: "(\<And>i. irq_active (f i) = irq_active i) \<Longrightarrow> unsettled g \<Longrightarrow> ensures unsettled (with_irq f n g)"
  by (auto simp: with_irq_def unsettled_def wf_upd_irq aget_def intro!: ensuresI dest: set_update_subset_insert[THEN subsetD]
      split: if_splits)

lemma set_pending_unsettled: "unsettled g \<Longrightarrow> ensures unsettled (GIC_SET_PENDING nvic_config n m g)"
  by (simp add: GIC_SET_PENDING_def with_irq_unsettled)

lemma clear_pending_unsettled: "unsettled g \<Longrightarrow> ensures unsettled (GIC_CLEAR_PENDING n m g)"
  by (simp add: GIC_CLEAR_PENDING_def with_irq_unsettled)

lemma ensures_any: "(\<And>x. ensures P (f x)) \<Longrightarrow> ensures P (rbind m f)"
  by (rule ensures_rbindI[of "\<lambda>x. True"]) simp_all

lemma write_priority_unsettled: "unsettled g \<Longrightarrow> ensures unsettled (write_priority 0 n v g)"
  by (auto simp: write_priority_def aset2_def aset_def aget_def unsettled_def rbind_eq_Inr_iff wf_gic_def NUM_CPU_def nth_list_update
      intro!: ensuresI split: if_splits)

lemma target_nvic [simp]: "GIC_TARGET nvic_config n g = Inr 1"
  by (simp add: GIC_TARGET_def)

lemma raise_unsettled:
  assumes "\<And>i. irq_active (f i) = irq_active i" "unsettled g"
  shows "ensures unsettled (rbind (with_irq f n g) (\<lambda>g. rbind (test_irq p n g) (\<lambda>b.
     if b then GIC_SET_PENDING nvic_config n m g else Inr g)))"
proof (rule ensures_rbindI[OF with_irq_unsettled[OF assms]], rule ensures_any)
  show "unsettled g' \<Longrightarrow> ensures unsettled (if b then GIC_SET_PENDING nvic_config n m g' else Inr g')" for g' b
    by (simp add: set_pending_unsettled)
qed

lemma write_regs_unsettled:
  assumes "unsettled g"
  shows "ensures unsettled (write_set_enable nvic_config 0 n v g)" "ensures unsettled (write_clear_enable n v g)"
    "ensures unsettled (write_set_pending nvic_config n v g)" "ensures unsettled (write_clear_pending nvic_config n v g)"
proof -
  note rules = ensures_for_upto[of unsettled, OF _ assms] ensures_if[THEN iffD2] conjI impI
  show "ensures unsettled (write_set_enable nvic_config 0 n v g)"
    unfolding write_set_enable_def Let_def
    by (rule rules, rule rules, intro conjI impI, rule ensures_any) (simp_all add: raise_unsettled)
  show "ensures unsettled (write_clear_enable n v g)"
    unfolding write_clear_enable_def Let_def by (intro rules) (simp_all add: with_irq_unsettled)
  show "ensures unsettled (write_set_pending nvic_config n v g)"
    unfolding write_set_pending_def Let_def by (intro rules) (simp_all add: set_pending_unsettled)
  show "ensures unsettled (write_clear_pending nvic_config n v g)"
    unfolding write_clear_pending_def by (intro rules) (simp_all add: clear_pending_unsettled)
qed

lemma settle: "ensures unsettled m \<Longrightarrow> ensures nvic_ok (rbind m (gic_update nvic_config))"
  by (erule ensures_rbindI) (rule update_settles)

lemma writeb_ok: "nvic_ok g \<Longrightarrow> ensures nvic_ok (gic_dist_writeb nvic_config 0 off v g)"
  unfolding gic_dist_writeb_def Let_def
  by (rule settle) (simp_all add: write_regs_unsettled write_priority_unsettled nvic_ok_unsettled)

lemma writew_ok: "nvic_ok g \<Longrightarrow> ensures nvic_ok (gic_dist_writew nvic_config 0 off v g)"
  unfolding gic_dist_writew_def by (rule ensures_rbindI[OF writeb_ok writeb_ok])

lemma writel_ok: "nvic_ok g \<Longrightarrow> ensures nvic_ok (gic_dist_writel nvic_config 0 off v g)"
  unfolding gic_dist_writel_def Let_def
  by (intro ensures_if[THEN iffD2] conjI impI settle ensures_rbindI[OF writew_ok writew_ok])
     (simp_all add: set_pending_unsettled nvic_ok_unsettled)

lemma set_pending_ok: "nvic_ok g \<Longrightarrow> ensures nvic_ok (gic_set_pending_private nvic_config 0 n g)"
  unfolding gic_set_pending_private_def Let_def
  by (intro ensures_any ensures_if[THEN iffD2] conjI impI settle) (simp_all add: set_pending_unsettled nvic_ok_unsettled)

lemma set_irq_ok: "nvic_ok g \<Longrightarrow> ensures nvic_ok (gic_set_irq nvic_config n lvl g)"
  unfolding gic_set_irq_def Let_def target_nvic rbind_Inr
  by (rule ensures_any, rule ensures_if[THEN iffD2], intro conjI impI, simp, rule settle)
     (simp add: nvic_ok_unsettled raise_unsettled with_irq_unsettled)

lemma running_unsettled: "unsettled g \<Longrightarrow> length a = 1 \<Longrightarrow> length b = 1 \<Longrightarrow> unsettled (g\<lparr>running_irq := a, running_priority := b\<rparr>)"
  by (simp add: unsettled_def wf_gic_def NUM_CPU_def)

lemma set_running_ok: "unsettled g \<Longrightarrow> ensures nvic_ok (gic_set_running_irq nvic_config 0 n g)"
proof -
  assume u: "unsettled g"
  then have "length (running_irq g) = 1" "length (running_priority g) = 1" by (simp_all add: unsettled_def wf_gic_def)
  then show ?thesis unfolding gic_set_running_irq_def
    by (auto simp: aset_def intro!: ensures_any update_settles running_unsettled u)
qed

text \<open>Changes of the chain of interrupted interrupts keep its shape.\<close>

definition same_shape :: "'a list list \<Rightarrow> 'a list list \<Rightarrow> bool" where
  "same_shape xs ys \<longleftrightarrow> map length xs = map length ys"

lemma aset2_shape: "aset2 xs i j v = Inr ys \<Longrightarrow> same_shape xs ys"
  by (auto simp: aset2_def aset_def aget_def same_shape_def rbind_eq_Inr_iff map_update split: if_splits)
     (metis length_map list_update_id nth_map)

lemma shape_refl [simp]: "same_shape xs xs"
  by (simp add: same_shape_def)

lemma unlink_shape:
  assumes "unlink_irq cpu irq tmp la = Some r"
  shows "ensures (same_shape la) r"
  using assms
proof (rule unlink_irq.raw_induct[rotated], goal_cases)
  case (1 f cpu irq tmp la r)
  have "ensures (same_shape la) (rbind (aget2 la irq cpu) (aset2 la tmp cpu))"
    by (intro ensures_any ensuresI) (erule aset2_shape)
  then show ?case using 1(2) 1(1)[of cpu irq _ la r] by (auto split: sum.splits if_splits)
qed

lemma shape_unsettled: "unsettled g \<Longrightarrow> same_shape (last_active g) la \<Longrightarrow> unsettled (g\<lparr>last_active := la\<rparr>)"
proof -
  assume u: "unsettled g" and m: "same_shape (last_active g) la"
  then have "length la = length (last_active g)" "\<And>i. i < length la \<Longrightarrow> length (la ! i) = length (last_active g ! i)"
    unfolding same_shape_def by (metis length_map, metis length_map nth_map)
  then show ?thesis using u by (simp add: unsettled_def wf_gic_def NUM_CPU_def)
qed

lemma settled_last:
  assumes "nvic_ok g" "same_shape (last_active g) la"
  shows "nvic_ok (g\<lparr>last_active := la\<rparr>)"
  using shape_unsettled[OF nvic_ok_unsettled[OF assms(1)] assms(2)] assms(1) by (simp add: nvic_ok_def)

lemma acknowledge_ok: "nvic_ok g \<Longrightarrow> ensures (\<lambda>(n, g'). nvic_ok g') (gic_acknowledge_irq nvic_config 0 g)"
proof (unfold gic_acknowledge_irq_def Let_def, rule ensures_any, rule ensures_any, rule ensures_any, rule ensures_if[THEN iffD2],
    intro conjI impI, goal_cases)
  case (2 irq rp b)
  have "unsettled (g\<lparr>last_active := la\<rparr>)" if "aset2 (last_active g) irq 0 r = Inr la" for la r
    by (rule shape_unsettled[OF nvic_ok_unsettled[OF 2(1)] aset2_shape[OF that]])
  note u = this
  show ?case
    by (rule ensures_any, rule ensures_rbindI[of "\<lambda>la. unsettled (g\<lparr>last_active := la\<rparr>)"], rule ensuresI, erule u, rule ensures_any,
        rule ensures_rbindI[OF clear_pending_unsettled], assumption, rule ensures_rbindI[OF set_running_ok], assumption, simp)
qed simp

text \<open>The level of an interrupt that is completed is looked at again.\<close>

definition resampled :: "gic_state \<Rightarrow> bool \<times> gic_state \<Rightarrow> bool" where
  "resampled g = (\<lambda>(update, g'). if update then unsettled g' \<and> last_active g' = last_active g else g' = g)"

lemma resample_ok:
  assumes "unsettled g"
  shows "ensures (resampled g) (if irq = 1023 then Inr (False, g)
     else rbind (test_irq p irq g) (\<lambda>b. if \<not> b then Inr (False, g)
          else rbind (GIC_TARGET nvic_config irq g) (\<lambda>tgt.
               if tgt AND cm \<noteq> 0 then rbind (GIC_SET_PENDING nvic_config irq cm g) (\<lambda>g. Inr (True, g)) else Inr (False, g))))"
proof -
  have "ensures (\<lambda>g'. unsettled g' \<and> last_active g' = last_active g) (GIC_SET_PENDING nvic_config irq cm g)"
    using ensuresD[OF set_pending_unsettled[OF assms]]
    by (auto simp: GIC_SET_PENDING_def with_irq_def rbind_eq_Inr_iff intro!: ensuresI)
  then have "ensures (resampled g) (rbind (GIC_SET_PENDING nvic_config irq cm g) (\<lambda>g. Inr (True, g)))"
    by (rule ensures_rbindI) (simp add: resampled_def)
  note set = this
  have no: "resampled g (False, g)" by (simp add: resampled_def)
  show ?thesis
    unfolding target_nvic rbind_Inr
    by (rule ensures_if[THEN iffD2], intro conjI impI, simp add: no, rule ensures_any, simp add: no set)
qed

lemma complete_ok:
  assumes "nvic_ok g"
  shows "ensures nvic_ok (gic_complete_irq nvic_config 0 irq g)"
proof (unfold gic_complete_irq_def Let_def, rule ensures_any, rule ensures_if[THEN iffD2], intro conjI impI, goal_cases)
  case (2 r)
  show ?case
  proof (rule ensures_rbindI[OF resample_ok[OF nvic_ok_unsettled[OF assms]]], clarify)
    fix u g' assume q: "resampled g (u, g')"
    have un: "unsettled g'" using q nvic_ok_unsettled[OF assms] by (simp add: resampled_def split: if_splits)
    have "ensures nvic_ok (if u then gic_update nvic_config (g'\<lparr>last_active := la\<rparr>) else Inr (g'\<lparr>last_active := la\<rparr>))"
      if "same_shape (last_active g') la" for la
      using that q assms settled_last[of g la] update_settles[OF shape_unsettled[OF un that]]
      by (simp add: resampled_def split: if_splits)
    then show "ensures nvic_ok (if irq \<noteq> r then (case unlink_irq 0 irq r (last_active g') of None \<Rightarrow> Inl Diverges
         | Some res \<Rightarrow> rbind res (\<lambda>la. if u then gic_update nvic_config (g'\<lparr>last_active := la\<rparr>) else Inr (g'\<lparr>last_active := la\<rparr>)))
       else rbind (aget2 (last_active g') r 0) (\<lambda>prev. gic_set_running_irq nvic_config 0 prev g'))"
      using unlink_shape[of 0 irq r "last_active g'"] set_running_ok[OF un]
      by (auto intro: ensures_rbindI ensures_any split: option.split)
  qed
qed (simp add: assms)

section \<open>Reachable states\<close>

lemma on_gic_ok:
  "nvic_ok (nv_gic s) \<Longrightarrow> (\<And>g. nvic_ok g \<Longrightarrow> ensures nvic_ok (f g)) \<Longrightarrow> ensures (\<lambda>s'. nvic_ok (nv_gic s')) (on_gic f s)"
  unfolding on_gic_def by (rule ensures_rbindI) auto

lemma pend_ok: "nvic_ok (nv_gic s) \<Longrightarrow> ensures (\<lambda>s'. nvic_ok (nv_gic s')) (armv7m_nvic_set_pending n s)"
  unfolding armv7m_nvic_set_pending_def by (erule on_gic_ok) (rule set_pending_ok)

lemma clear_exc_ok: "nvic_ok (nv_gic s) \<Longrightarrow> ensures (\<lambda>s'. nvic_ok (nv_gic s')) (clear_pending_exc n s)"
  unfolding clear_pending_exc_def
  by (erule on_gic_ok) (rule settle, simp add: with_irq_unsettled nvic_ok_unsettled)

lemma reload_gic [simp]: "nv_gic (systick_reload sc now r s) = nv_gic s"
  by (simp add: systick_reload_def Let_def)

lemma control_gic [simp]: "nv_gic (write_systick_control sc now v s) = nv_gic s"
  by (simp add: write_systick_control_def Let_def)

lemma tick_ok: "nvic_ok (nv_gic s) \<Longrightarrow> ensures (\<lambda>s'. nvic_ok (nv_gic s')) (systick_timer_tick sc now s)"
  unfolding systick_timer_tick_def Let_def
  by (rule ensures_rbindI[of "\<lambda>s'. nvic_ok (nv_gic s')"]) (simp_all add: pend_ok)

lemma icsr_ok: "nvic_ok (nv_gic s) \<Longrightarrow> ensures (\<lambda>s'. nvic_ok (nv_gic s')) (write_icsr v s)"
  unfolding write_icsr_def
  by (rule ensures_rbindI[of "\<lambda>s'. nvic_ok (nv_gic s')"], simp add: pend_ok,
      rule ensures_rbindI[of "\<lambda>s'. nvic_ok (nv_gic s')"]) (simp_all add: pend_ok clear_exc_ok)

lemma shpr_ok: "nvic_ok (nv_gic s) \<Longrightarrow> ensures (\<lambda>s'. nvic_ok (nv_gic s')) (write_shpr n v s)"
  unfolding write_shpr_def
  by (erule on_gic_ok, drule nvic_ok_unsettled)
     (rule ensures_rbindI[OF write_priority_unsettled], assumption, rule ensures_rbindI[OF write_priority_unsettled], assumption,
      rule ensures_rbindI[OF write_priority_unsettled], assumption, rule settle, erule write_priority_unsettled)

text \<open>The register that enables the fault handlers does not look for an interrupt to deliver.\<close>

lemma enable_ok: "nvic_ok g \<Longrightarrow> ensures nvic_ok (with_irq (\<lambda>i. i\<lparr>irq_enabled := b\<rparr>) n g)"
proof (rule ensuresI)
  fix g' assume g: "nvic_ok g" and g': "with_irq (\<lambda>i. i\<lparr>irq_enabled := b\<rparr>) n g = Inr g'"
  have "unsettled g'" using ensuresD[OF with_irq_unsettled g'] nvic_ok_unsettled[OF g] by simp
  moreover have "current_pending g' = current_pending g" "prio g' = prio g"
    using g' by (auto simp: with_irq_def rbind_eq_Inr_iff)
  ultimately show "nvic_ok g'" using g by (simp add: nvic_ok_def)
qed

lemma shcsr_ok: "nvic_ok (nv_gic s) \<Longrightarrow> ensures (\<lambda>s'. nvic_ok (nv_gic s')) (write_shcsr v s)"
  unfolding write_shcsr_def
  by (erule on_gic_ok) (rule ensures_rbindI[OF enable_ok], assumption, rule ensures_rbindI[OF enable_ok], assumption, erule enable_ok)

lemma mem_write_ok: "nvic_ok (nv_gic s) \<Longrightarrow> ensures (\<lambda>s'. nvic_ok (nv_gic s')) (nvic_mem_writel sc now off v s)"
  unfolding nvic_mem_writel_def nvic_writel_def
  by (simp add: icsr_ok shpr_ok shcsr_ok on_gic_ok[OF _ writel_ok] Let_def)

lemma readl_gic: "ensures (\<lambda>(v, s'). nv_gic s' = nv_gic s) (nvic_mem_readl sc now off s)"
  by (auto simp: nvic_mem_readl_def nvic_readl_def Let_def rbind_eq_Inr_iff intro!: ensuresI split: if_splits option.splits)

lemma ack_ok: "nvic_ok (nv_gic s) \<Longrightarrow> armv7m_nvic_acknowledge_irq s = Inr (n, s') \<Longrightarrow> nvic_ok (nv_gic s')"
  by (auto simp: armv7m_nvic_acknowledge_irq_def rbind_eq_Inr_iff split: if_splits dest: ensuresD[OF acknowledge_ok])

inductive nvic_reach :: "nvic_state \<Rightarrow> bool" where
  start: "nvic_reach (armv7m_nvic_init cpuid)"
| line: "nvic_reach s \<Longrightarrow> on_gic (gic_set_irq nvic_config n level) s = Inr s' \<Longrightarrow> nvic_reach s'"
| pend: "nvic_reach s \<Longrightarrow> armv7m_nvic_set_pending n s = Inr s' \<Longrightarrow> nvic_reach s'"
| ack: "nvic_reach s \<Longrightarrow> armv7m_nvic_acknowledge_irq s = Inr (n, s') \<Longrightarrow> nvic_reach s'"
| complete: "nvic_reach s \<Longrightarrow> armv7m_nvic_complete_irq n s = Inr s' \<Longrightarrow> nvic_reach s'"
| readl: "nvic_reach s \<Longrightarrow> nvic_mem_readl sc now off s = Inr (v, s') \<Longrightarrow> nvic_reach s'"
| writel: "nvic_reach s \<Longrightarrow> nvic_mem_writel sc now off v s = Inr s' \<Longrightarrow> nvic_reach s'"
| writew: "nvic_reach s \<Longrightarrow> on_gic (gic_dist_writew nvic_config 0 off v) s = Inr s' \<Longrightarrow> nvic_reach s'"
| writeb: "nvic_reach s \<Longrightarrow> on_gic (gic_dist_writeb nvic_config 0 off v) s = Inr s' \<Longrightarrow> nvic_reach s'"
| tick: "nvic_reach s \<Longrightarrow> st_timer s \<noteq> None \<Longrightarrow> systick_timer_tick sc now (s\<lparr>st_timer := None\<rparr>) = Inr s' \<Longrightarrow> nvic_reach s'"

lemma init_ok: "nvic_ok (nv_gic (armv7m_nvic_init cpuid))"
proof -
  have "wf_gic nvic_config (gic_init nvic_config 1)" by (rule wf_gic_init) (simp add: valid_config_def)
  then show ?thesis
    by (simp add: nvic_ok_def unsettled_def armv7m_nvic_init_def) (auto simp: gic_init_nvic irq_zero_def)
qed

lemma nvic_reach_ok: "nvic_reach s \<Longrightarrow> nvic_ok (nv_gic s)"
proof (induction rule: nvic_reach.induct)
  case (start cpuid)
  show ?case by (rule init_ok)
next
  case (line s n level s')
  show ?case by (rule ensuresD[OF on_gic_ok[OF line.IH set_irq_ok] line.hyps(2)])
next
  case (pend s n s')
  show ?case by (rule ensuresD[OF pend_ok[OF pend.IH] pend.hyps(2)])
next
  case (complete s n s')
  show ?case using ensuresD[OF on_gic_ok[OF complete.IH complete_ok]] complete.hyps(2) by (simp add: armv7m_nvic_complete_irq_def)
next
  case (readl s sc now off v s')
  show ?case using ensuresD[OF readl_gic readl.hyps(2)] readl.IH by simp
next
  case (writel s sc now off v s')
  show ?case by (rule ensuresD[OF mem_write_ok[OF writel.IH] writel.hyps(2)])
next
  case (writew s off v s')
  show ?case by (rule ensuresD[OF on_gic_ok[OF writew.IH writew_ok] writew.hyps(2)])
next
  case (writeb s off v s')
  show ?case by (rule ensuresD[OF on_gic_ok[OF writeb.IH writeb_ok] writeb.hyps(2)])
next
  case (tick s sc now s')
  show ?case by (rule ensuresD[OF tick_ok tick.hyps(3)]) (simp add: tick.IH)
qed (rule ack_ok)

section \<open>Properties\<close>

text \<open>A controller in which the non-maskable interrupt has been raised.\<close>

lemma nmi_pending:
  obtains s where "armv7m_nvic_set_pending 2 (armv7m_nvic_init cpuid) = Inr s" "nvic_reach s" "current_pending (nv_gic s) ! 0 = 2"
    "prio (nv_gic s) 0 2 = 0" "running_priority (nv_gic s) = [0x100]" "running_irq (nv_gic s) = [1023]"
proof -
  let ?g = "gic_init nvic_config 1"
  let ?n = "(irq_zero\<lparr>irq_enabled := True, irq_trigger := True\<rparr>)\<lparr>irq_pending := 1\<rparr>"
  let ?p = "?g\<lparr>irq_state := (irq_state ?g)[2 := ?n]\<rparr>"
  have wf: "wf_gic nvic_config ?g" by (rule wf_gic_init) (simp add: valid_config_def)
  have wp: "wf_gic nvic_config ?p" using wf by (simp only: wf_upd_irq)
  have i2: "irq_state ?g ! 2 = irq_zero\<lparr>irq_enabled := True, irq_trigger := True\<rparr>" by (simp add: gic_init_nvic nth_append)
  have "gic_set_pending_private nvic_config 0 2 ?g = gic_update nvic_config ?p"
    unfolding gic_set_pending_private_def GIC_SET_PENDING_def
    using test_irq_eq[OF wf, of 2] with_irq_eq[OF wf, of 2] i2 by (simp add: GIC_TEST_PENDING_def irq_zero_def ALL_CPU_MASK_def)
  moreover obtain g' where g': "gic_update nvic_config ?p = Inr g'" "same_but_lines ?p g'" "chosen nvic_config ?p 0 g'"
    using gic_update_eq[OF wp] by (auto simp: switched_on_def gic_init_nvic)
  ultimately have s: "armv7m_nvic_set_pending 2 (armv7m_nvic_init cpuid) = Inr ((armv7m_nvic_init cpuid)\<lparr>nv_gic := g'\<rparr>)"
    by (simp add: armv7m_nvic_set_pending_def on_gic_def armv7m_nvic_init_def)
  have p: "prio ?p 0 i = 0" if "i < 96" for i
    using that by (simp add: prio_def gic_init_nvic gic_zero_def)
  have len: "2 < length (irq_state ?g)" by (simp add: gic_init_nvic)
  have r: "ready ?p 0 i \<longleftrightarrow> i = 2" if "i < 96" for i
    using that len by (simp add: ready_def GIC_TEST_PENDING_def nth_list_update) (simp add: gic_init_nvic nth_append irq_zero_def)
  have "highest 96 ?p 0 2" unfolding highest_def using p r by auto
  then have "current_pending g' ! 0 = 2"
    using g'(3) highest_unique[of 96 ?p 0 _ 2] p[of 2] unfolding chosen_def by (auto simp: gic_init_nvic split: if_splits)
  then show ?thesis
    using that[OF s nvic_reach.pend[OF nvic_reach.start s]] g'(2) same_linesD(1)[OF g'(2)] p[of 2]
    by (simp add: same_but_lines_def gic_init_nvic)
qed

text \<open>
  C28: no interrupt whose priority number is above 0xf0 is ever delivered. Whatever the guest and the devices do, an
  interrupt that is acknowledged has a priority number of at most 0xf0, which is smaller than the one of the running
  interrupt, and it becomes the running interrupt.
\<close>

theorem nvic_priority_ceiling:
  assumes "nvic_reach s" "armv7m_nvic_acknowledge_irq s = Inr (n, s')"
  shows "let irq = current_pending (nv_gic s) ! 0
    in n = (if 32 \<le> irq then irq - 16 else irq) \<and> prio (nv_gic s) 0 irq \<le> 0xf0 \<and>
       prio (nv_gic s) 0 irq < running_priority (nv_gic s) ! 0 \<and> running_irq (nv_gic s') ! 0 = irq"
proof -
  let ?g = "nv_gic s" and ?irq = "current_pending (nv_gic s) ! 0"
  have ok: "nvic_ok ?g" by (rule nvic_reach_ok[OF assms(1)])
  then have wf: "wf_gic nvic_config ?g" by (simp add: nvic_ok_def unsettled_def)
  obtain irq g' where k: "gic_acknowledge_irq nvic_config 0 ?g = Inr (irq, g')"
    using assms(2) by (auto simp: armv7m_nvic_acknowledge_irq_def rbind_eq_Inr_iff)
  then have a: "gic_acknowledge_irq nvic_config 0 ?g = Inr (irq, g')" "irq \<noteq> 1023" "n = (if 32 \<le> irq then irq - 16 else irq)"
      "s' = s\<lparr>nv_gic := g'\<rparr>"
    using assms(2) unfolding armv7m_nvic_acknowledge_irq_def k by (auto split: if_splits)
  have c: "?irq \<noteq> 1023" "prio ?g 0 ?irq < running_priority ?g ! 0"
    using acknowledge_none[OF wf, of 0] a(1,2) by fastforce+
  obtain g'' where "gic_acknowledge_irq nvic_config 0 ?g = Inr (?irq, g'')" "running_irq g'' = (running_irq ?g)[0 := ?irq]"
    using acknowledge_irq[OF wf _ refl c] by auto
  moreover have "length (running_irq ?g) = 1" using wf by (simp add: wf_gic_def)
  ultimately have "irq = ?irq" "running_irq g' ! 0 = ?irq" using a(1) by auto
  then show ?thesis using a c ok by (simp add: Let_def nvic_ok_def)
qed

theorem nvic_priority_ceiling_witness:
  "\<exists>s s'. nvic_reach s \<and> armv7m_nvic_acknowledge_irq s = Inr (2, s') \<and> prio (nv_gic s) 0 2 \<le> 0xf0 \<and> running_irq (nv_gic s') ! 0 = 2"
proof -
  obtain s where s: "nvic_reach s" "current_pending (nv_gic s) ! 0 = 2" "prio (nv_gic s) 0 2 = 0" "running_priority (nv_gic s) = [0x100]"
    by (rule nmi_pending)
  have wf: "wf_gic nvic_config (nv_gic s)" using nvic_reach_ok[OF s(1)] by (simp add: nvic_ok_def unsettled_def)
  obtain g' where "gic_acknowledge_irq nvic_config 0 (nv_gic s) = Inr (2, g')"
    using acknowledge_irq[OF wf _ s(2)] s(3,4) by auto
  then have a: "armv7m_nvic_acknowledge_irq s = Inr (2, s\<lparr>nv_gic := g'\<rparr>)" by (simp add: armv7m_nvic_acknowledge_irq_def)
  show ?thesis using nvic_priority_ceiling[OF s(1) a] s(1,2) a by (auto simp: Let_def)
qed

lemma for_from_same: "\<forall>j. i \<le> j \<and> j < i + n \<longrightarrow> body j s = Inr s \<Longrightarrow> for_from i n body s = Inr s"
  by (induction n arbitrary: i) auto

lemma gic_bits_zero:
  assumes "wf_gic cfg g" "irq + 8 \<le> GIC_NIRQ cfg" "\<forall>i \<in> set (irq_state g). \<not> p i"
  shows "gic_bits p irq g = Inr 0"
proof -
  have "test_irq p (irq + j) g = Inr False" if "j < 8" for j
    using that assms test_irq_eq[OF assms(1), of "irq + j" p] by (simp add: wf_gic_def)
  then show ?thesis unfolding gic_bits_def for_upto_def by (intro for_from_same) simp
qed

lemma flag_low: "bit (flag k b) n \<longleftrightarrow> n = k \<and> b \<and> k < 32"
  by (auto simp: flag_def bit_simps)

text \<open>
  The controller never shows an interrupt as active. In every reachable state, also while an interrupt runs, all
  active registers read as zero and so do the active bits of the system handler register.
\<close>

theorem nvic_active_reads_zero:
  assumes "nvic_reach s" "0x300 \<le> off" "off < 0x308"
  shows "gic_dist_readb nvic_config 0 off (nv_gic s) = Inr 0 \<and> (\<forall>n < 12. \<not> bit (read_shcsr s) n)"
proof
  have ok: "unsettled (nv_gic s)" using nvic_ok_unsettled[OF nvic_reach_ok[OF assms(1)]] .
  then have wf: "wf_gic nvic_config (nv_gic s)" and act: "\<forall>i \<in> set (irq_state (nv_gic s)). irq_active i = 0"
    by (simp_all add: unsettled_def)
  have "gic_bits (GIC_TEST_ACTIVE m) ((off - 0x300) * 8 + 32) (nv_gic s) = Inr 0" for m
    using assms(3) act by (intro gic_bits_zero[OF wf]) (auto simp: GIC_TEST_ACTIVE_def)
  then show "gic_dist_readb nvic_config 0 off (nv_gic s) = Inr 0"
    using assms(2,3) by (simp add: gic_dist_readb_def GIC_BASE_IRQ_def Let_def)
  have "length (irq_state (nv_gic s)) = 96" using wf by (simp add: wf_gic_def)
  then have "irq_active (irq_of s n) = 0" if "n < 96" for n using act that by (simp add: irq_of_def)
  then show "\<forall>n < 12. \<not> bit (read_shcsr s) n"
    by (auto simp: read_shcsr_def Let_def bit_or_iff flag_low)
qed

theorem nvic_active_reads_zero_witness:
  "\<exists>s. nvic_reach s \<and> running_irq (nv_gic s) ! 0 = 2 \<and> gic_dist_readb nvic_config 0 0x300 (nv_gic s) = Inr 0 \<and>
     (\<forall>n < 12. \<not> bit (read_shcsr s) n)"
proof -
  obtain s where s: "nvic_reach s" "current_pending (nv_gic s) ! 0 = 2" "prio (nv_gic s) 0 2 = 0" "running_priority (nv_gic s) = [0x100]"
      "running_irq (nv_gic s) = [1023]"
    by (rule nmi_pending)
  have wf: "wf_gic nvic_config (nv_gic s)" using nvic_reach_ok[OF s(1)] by (simp add: nvic_ok_def unsettled_def)
  obtain g' where g': "gic_acknowledge_irq nvic_config 0 (nv_gic s) = Inr (2, g')" "running_irq g' = [2]"
    using acknowledge_irq[OF wf _ s(2)] s(3,4,5) by auto
  then have "armv7m_nvic_acknowledge_irq s = Inr (2, s\<lparr>nv_gic := g'\<rparr>)" by (simp add: armv7m_nvic_acknowledge_irq_def)
  from nvic_reach.ack[OF s(1) this] show ?thesis
    using nvic_active_reads_zero[of "s\<lparr>nv_gic := g'\<rparr>" "0x300"] g'(2) by auto
qed

text \<open>The CPUID register is in the window of the distributor, which has no register there: reading it ends the emulator.\<close>

lemma cpuid_read_aborts: "nvic_mem_readl sc now 0xd00 s = Inl Hw_Error"
  by (simp add: nvic_mem_readl_def gic_dist_readl_def gic_dist_readw_def gic_dist_readb_def)

end
