(* ===== verification/Qemu_Timer.thy ===== *)
theory Qemu_Timer
  imports Vemu_Interfaces Savevm_Words "HOL-Library.Signed_Division"
begin

text \<open>
  The timers and clocks of the emulator (\<^verbatim>\<open>qemu-timer.c\<close>, \<^verbatim>\<open>cpu_get_icount\<close> of \<^verbatim>\<open>cpus.c\<close>). Timers are
  allocated objects named by numbers; the list of active timers of a clock, linked through the timers in the
  source, is a list of names. A call sees one reading of the host's clocks, which is an argument (\<open>outside\<close>);
  what the emulator asks of the host is kept as logs. The host back ends that are modelled are those of Linux.
\<close>

section \<open>State\<close>

type_synonym timer = nat

datatype clock_type = QEMU_CLOCK_REALTIME | QEMU_CLOCK_VIRTUAL | QEMU_CLOCK_HOST

record qemu_clock =
  clk_enabled :: bool
  warp_timer :: "timer option"
  clk_last :: i64

record qemu_timer =
  tm_clock :: clock_type
  expire_time :: i64
  tm_scale :: i32

datatype alarm_kind = Dynticks | Unix_Alarm

record qemu_alarm_timer =
  al_kind :: alarm_kind
  al_expired :: bool
  al_pending :: bool

text \<open>The readings: the clocks of the host, the rest of its alarm, and what the running CPU still has to execute.\<close>

record outside =
  get_clock :: i64
  get_clock_realtime :: i64
  cpu_get_real_ticks :: i64
  timer_gettime :: "i64 option"
  all_cpu_threads_idle :: bool
  env_icount :: "i64 option"

record tm_state =
  tm_mem :: "timer \<rightharpoonup> qemu_timer"
  tm_next :: timer
  active_timers :: "clock_type \<Rightarrow> timer list"
  clocks :: "clock_type \<Rightarrow> qemu_clock"
  cpu_ticks_prev :: i64
  cpu_ticks_offset :: i64
  cpu_clock_offset :: i64
  cpu_ticks_enabled :: bool
  use_icount :: i32
  icount_time_shift :: i32
  qemu_icount :: i64
  qemu_icount_bias :: i64
  last_delta :: i64
  vm_clock_warp_start :: i64
  vm_running :: bool
  icount_rt_timer :: "timer option"
  icount_vm_timer :: "timer option"
  alarm_timers :: "alarm_kind list"
  alarm_timer :: "qemu_alarm_timer option"
  alarm_sets :: "i64 list"
  events_notified :: nat
  clock_resets :: "i64 list"

definition tget :: "tm_state \<Rightarrow> timer \<Rightarrow> qemu_timer result" where
  "tget s ts = (case tm_mem s ts of None \<Rightarrow> Inl Undefined | Some t \<Rightarrow> Inr t)"

definition set_active :: "clock_type \<Rightarrow> timer list \<Rightarrow> tm_state \<Rightarrow> tm_state" where
  "set_active c l s = s\<lparr>active_timers := (active_timers s)(c := l)\<rparr>"

definition qemu_notify_event :: "tm_state \<Rightarrow> tm_state" where
  "qemu_notify_event s = s\<lparr>events_notified := Suc (events_notified s)\<rparr>"

section \<open>The guest's clocks\<close>

text \<open>A shift of a 64-bit integer, defined for the amounts below its width.\<close>

definition shl64 :: "i64 \<Rightarrow> i32 \<Rightarrow> i64 result" where
  "shl64 v n = (if 0 \<le> sint n \<and> sint n < 64 then Inr (push_bit (nat (sint n)) v) else Inl Undefined)"

definition cpu_get_icount :: "outside \<Rightarrow> tm_state \<Rightarrow> i64 result" where
  "cpu_get_icount h s =
     (let icount = qemu_icount s - (case env_icount h of None \<Rightarrow> 0 | Some n \<Rightarrow> n)
      in rbind (shl64 icount (icount_time_shift s)) (\<lambda>v. Inr (qemu_icount_bias s + v)))"

definition cpu_get_ticks :: "outside \<Rightarrow> tm_state \<Rightarrow> (i64 \<times> tm_state) result" where
  "cpu_get_ticks h s =
     (if use_icount s \<noteq> 0 then rbind (cpu_get_icount h s) (\<lambda>v. Inr (v, s))
      else if \<not> cpu_ticks_enabled s then Inr (cpu_ticks_offset s, s)
      else
        let ticks = cpu_get_real_ticks h;
            s = (if sint (cpu_ticks_prev s) > sint ticks
                 then s\<lparr>cpu_ticks_offset := cpu_ticks_offset s + (cpu_ticks_prev s - ticks)\<rparr> else s);
            s = s\<lparr>cpu_ticks_prev := ticks\<rparr>
        in Inr (ticks + cpu_ticks_offset s, s))"

definition cpu_get_clock :: "outside \<Rightarrow> tm_state \<Rightarrow> i64" where
  "cpu_get_clock h s = (if \<not> cpu_ticks_enabled s then cpu_clock_offset s else get_clock h + cpu_clock_offset s)"

definition qemu_icount_delta :: "outside \<Rightarrow> tm_state \<Rightarrow> i64 result" where
  "qemu_icount_delta h s =
     (if use_icount s = 0 then Inr (5000 * 1000000)
      else if use_icount s = 1 then Inr 0
      else rbind (cpu_get_icount h s) (\<lambda>v. Inr (v - cpu_get_clock h s)))"

definition cpu_enable_ticks :: "outside \<Rightarrow> tm_state \<Rightarrow> tm_state" where
  "cpu_enable_ticks h s =
     (if \<not> cpu_ticks_enabled s
      then s\<lparr>cpu_ticks_offset := cpu_ticks_offset s - cpu_get_real_ticks h,
             cpu_clock_offset := cpu_clock_offset s - get_clock h, cpu_ticks_enabled := True\<rparr>
      else s)"

definition cpu_disable_ticks :: "outside \<Rightarrow> tm_state \<Rightarrow> tm_state result" where
  "cpu_disable_ticks h s =
     (if cpu_ticks_enabled s
      then rbind (cpu_get_ticks h s) (\<lambda>(ticks, s).
             let s = s\<lparr>cpu_ticks_offset := ticks\<rparr>;
                 s = s\<lparr>cpu_clock_offset := cpu_get_clock h s\<rparr>
             in Inr (s\<lparr>cpu_ticks_enabled := False\<rparr>))
      else Inr s)"

definition qemu_get_clock_ns :: "outside \<Rightarrow> clock_type \<Rightarrow> tm_state \<Rightarrow> (i64 \<times> tm_state) result" where
  "qemu_get_clock_ns h c s =
     (case c of
        QEMU_CLOCK_REALTIME \<Rightarrow> Inr (get_clock h, s)
      | QEMU_CLOCK_VIRTUAL \<Rightarrow>
          if use_icount s \<noteq> 0 then rbind (cpu_get_icount h s) (\<lambda>v. Inr (v, s)) else Inr (cpu_get_clock h s, s)
      | QEMU_CLOCK_HOST \<Rightarrow>
          let now = get_clock_realtime h;
              prev = clk_last (clocks s QEMU_CLOCK_HOST);
              s = s\<lparr>clocks := (clocks s)(QEMU_CLOCK_HOST := (clocks s QEMU_CLOCK_HOST)\<lparr>clk_last := now\<rparr>)\<rparr>;
              s = (if sint now < sint prev then s\<lparr>clock_resets := clock_resets s @ [now]\<rparr> else s)
          in Inr (now, s))"

definition qemu_new_clock :: "outside \<Rightarrow> clock_type \<Rightarrow> qemu_clock" where
  "qemu_new_clock h c =
     \<lparr>clk_enabled = True, warp_timer = None, clk_last = (if c = QEMU_CLOCK_HOST then get_clock_realtime h else 0)\<rparr>"

definition qemu_clock_enable :: "clock_type \<Rightarrow> bool \<Rightarrow> tm_state \<Rightarrow> tm_state" where
  "qemu_clock_enable c b s = s\<lparr>clocks := (clocks s)(c := (clocks s c)\<lparr>clk_enabled := b\<rparr>)\<rparr>"

definition init_clocks :: "outside \<Rightarrow> tm_state \<Rightarrow> tm_state" where
  "init_clocks h s = s\<lparr>clocks := qemu_new_clock h\<rparr>"

section \<open>Deadlines and the host's alarm\<close>

definition INT32_MAX :: i64 where "INT32_MAX = 0x7FFFFFFF"

definition MIN_TIMER_REARM_NS :: i64 where "MIN_TIMER_REARM_NS = 250000"

text \<open>The time to the expiry of the first active timer of a clock.\<close>

definition head_delta :: "outside \<Rightarrow> clock_type \<Rightarrow> timer \<Rightarrow> tm_state \<Rightarrow> (i64 \<times> tm_state) result" where
  "head_delta h c ts s =
     rbind (tget s ts) (\<lambda>t. rbind (qemu_get_clock_ns h c s) (\<lambda>(now, s). Inr (expire_time t - now, s)))"

definition qemu_next_icount_deadline :: "outside \<Rightarrow> tm_state \<Rightarrow> (i64 \<times> tm_state) result" where
  "qemu_next_icount_deadline h s =
     c_assert (use_icount s \<noteq> 0) (
       rbind (case active_timers s QEMU_CLOCK_VIRTUAL of
                [] \<Rightarrow> Inr (INT32_MAX, s)
              | ts # _ \<Rightarrow> head_delta h QEMU_CLOCK_VIRTUAL ts s) (\<lambda>(delta, s).
       Inr (if sint delta < 0 then 0 else delta, s)))"

text \<open>The smaller of a delta and the time to the first timer of a clock.\<close>

definition min_delta :: "outside \<Rightarrow> clock_type \<Rightarrow> i64 \<Rightarrow> tm_state \<Rightarrow> (i64 \<times> tm_state) result" where
  "min_delta h c delta s =
     (case active_timers s c of
        [] \<Rightarrow> Inr (delta, s)
      | ts # _ \<Rightarrow> rbind (head_delta h c ts s) (\<lambda>(d, s). Inr (if sint d < sint delta then d else delta, s)))"

definition qemu_next_alarm_deadline :: "outside \<Rightarrow> tm_state \<Rightarrow> (i64 \<times> tm_state) result" where
  "qemu_next_alarm_deadline h s =
     rbind (case active_timers s QEMU_CLOCK_VIRTUAL of
              [] \<Rightarrow> Inr (INT32_MAX, s)
            | ts # _ \<Rightarrow> if use_icount s = 0 then head_delta h QEMU_CLOCK_VIRTUAL ts s else Inr (INT32_MAX, s)) (\<lambda>(delta, s).
     rbind (min_delta h QEMU_CLOCK_HOST delta s) (\<lambda>(delta, s).
     min_delta h QEMU_CLOCK_REALTIME delta s))"

definition no_active :: "tm_state \<Rightarrow> bool" where
  "no_active s \<longleftrightarrow> active_timers s QEMU_CLOCK_REALTIME = [] \<and> active_timers s QEMU_CLOCK_VIRTUAL = [] \<and>
     active_timers s QEMU_CLOCK_HOST = []"

definition dynticks_rearm_timer :: "outside \<Rightarrow> tm_state \<Rightarrow> tm_state result" where
  "dynticks_rearm_timer h s =
     (if no_active s then Inr s
      else rbind (qemu_next_alarm_deadline h s) (\<lambda>(d, s).
        let nearest_delta_ns = (if sint d < sint MIN_TIMER_REARM_NS then MIN_TIMER_REARM_NS else d)
        in case timer_gettime h of
             None \<Rightarrow> Inl (Exit 1)
           | Some current_ns \<Rightarrow>
               if current_ns \<noteq> 0 \<and> sint current_ns \<le> sint nearest_delta_ns then Inr s
               else Inr (s\<lparr>alarm_sets := alarm_sets s @ [nearest_delta_ns]\<rparr>)))"

definition unix_rearm_timer :: "outside \<Rightarrow> tm_state \<Rightarrow> tm_state result" where
  "unix_rearm_timer h s =
     (if no_active s then Inr s
      else rbind (qemu_next_alarm_deadline h s) (\<lambda>(d, s).
        let nearest_delta_ns = (if sint d < sint MIN_TIMER_REARM_NS then MIN_TIMER_REARM_NS else d)
        in Inr (s\<lparr>alarm_sets := alarm_sets s @ [nearest_delta_ns]\<rparr>)))"

text \<open>Both back ends of Linux can be rearmed.\<close>

definition qemu_rearm_alarm_timer :: "outside \<Rightarrow> qemu_alarm_timer \<Rightarrow> tm_state \<Rightarrow> tm_state result" where
  "qemu_rearm_alarm_timer h a s =
     (case al_kind a of Dynticks \<Rightarrow> dynticks_rearm_timer h s | Unix_Alarm \<Rightarrow> unix_rearm_timer h s)"

section \<open>Timers\<close>

definition qemu_new_timer :: "clock_type \<Rightarrow> i32 \<Rightarrow> tm_state \<Rightarrow> timer \<times> tm_state" where
  "qemu_new_timer c sc s =
     (let ts = tm_next s
      in (ts, s\<lparr>tm_mem := (tm_mem s)(ts \<mapsto> \<lparr>tm_clock = c, expire_time = 0, tm_scale = sc\<rparr>), tm_next := Suc ts\<rparr>))"

definition qemu_free_timer :: "timer \<Rightarrow> tm_state \<Rightarrow> tm_state" where
  "qemu_free_timer ts s = s\<lparr>tm_mem := (tm_mem s)(ts := None)\<rparr>"

definition qemu_del_timer :: "timer \<Rightarrow> tm_state \<Rightarrow> tm_state result" where
  "qemu_del_timer ts s =
     rbind (tget s ts) (\<lambda>t. Inr (set_active (tm_clock t) (remove1 ts (active_timers s (tm_clock t))) s))"

text \<open>The search for the place of a timer in the sorted list: behind all that expire no later.\<close>

primrec insert_timer :: "tm_state \<Rightarrow> timer \<Rightarrow> i64 \<Rightarrow> timer list \<Rightarrow> timer list result" where
  "insert_timer s ts t [] = Inr [ts]"
| "insert_timer s ts t (x # xs) =
     rbind (tget s x) (\<lambda>tx.
     if sint (expire_time tx) \<le> sint t then rbind (insert_timer s ts t xs) (\<lambda>l. Inr (x # l)) else Inr (ts # x # xs))"

text \<open>A null list head is dereferenced for its scale.\<close>

definition qemu_timer_expired :: "timer list \<Rightarrow> i64 \<Rightarrow> tm_state \<Rightarrow> bool result" where
  "qemu_timer_expired l now s =
     (case l of
        [] \<Rightarrow> Inl Null_Deref
      | ts # _ \<Rightarrow> rbind (tget s ts) (\<lambda>t. Inr (sint (expire_time t) \<le> sint (now * scast (tm_scale t)))))"

definition icount_warp_rt :: "outside \<Rightarrow> tm_state \<Rightarrow> tm_state result" where
  "icount_warp_rt h s =
     (if vm_clock_warp_start s = - 1 then Inr s
      else
        rbind (if vm_running s then
                 let warp_delta = get_clock h - vm_clock_warp_start s
                 in rbind (if use_icount s = 1 then Inr (s\<lparr>qemu_icount_bias := qemu_icount_bias s + warp_delta\<rparr>)
                           else rbind (qemu_get_clock_ns h QEMU_CLOCK_VIRTUAL s) (\<lambda>(cur_icount, s).
                                let delta = cpu_get_clock h s - cur_icount
                                in Inr (s\<lparr>qemu_icount_bias := qemu_icount_bias s +
                                            (if sint warp_delta < sint delta then warp_delta else delta)\<rparr>))) (\<lambda>s.
                    rbind (qemu_get_clock_ns h QEMU_CLOCK_VIRTUAL s) (\<lambda>(now, s).
                    rbind (qemu_timer_expired (active_timers s QEMU_CLOCK_VIRTUAL) now s) (\<lambda>b.
                    Inr (if b then qemu_notify_event s else s))))
               else Inr s) (\<lambda>s.
        Inr (s\<lparr>vm_clock_warp_start := - 1\<rparr>)))"

text \<open>
  \<^verbatim>\<open>qemu_clock_warp\<close> and \<^verbatim>\<open>qemu_mod_timer_ns\<close> call each other; \<open>mod_ns\<close> stands for the inner
  \<^verbatim>\<open>qemu_mod_timer_ns\<close>.
\<close>

definition clock_warp :: "(timer \<Rightarrow> i64 \<Rightarrow> tm_state \<Rightarrow> tm_state result) \<Rightarrow> outside \<Rightarrow> clock_type \<Rightarrow> tm_state \<Rightarrow> tm_state result" where
  "clock_warp mod_ns h c s =
     (case warp_timer (clocks s c) of
        None \<Rightarrow> Inr s
      | Some w \<Rightarrow>
          c_assert (c = QEMU_CLOCK_VIRTUAL) (
          rbind (icount_warp_rt h s) (\<lambda>s.
          if \<not> all_cpu_threads_idle h \<or> active_timers s c = [] then qemu_del_timer w s
          else
            let s = s\<lparr>vm_clock_warp_start := get_clock h\<rparr>
            in rbind (qemu_next_icount_deadline h s) (\<lambda>(deadline, s).
               if 0 < sint deadline
               then rbind (tget s w) (\<lambda>t. mod_ns w ((vm_clock_warp_start s + deadline) * scast (tm_scale t)) s)
               else Inr (qemu_notify_event s)))))"

definition place_timer :: "timer \<Rightarrow> i64 \<Rightarrow> tm_state \<Rightarrow> tm_state result" where
  "place_timer ts expire s =
     rbind (qemu_del_timer ts s) (\<lambda>s.
     rbind (tget s ts) (\<lambda>t.
     rbind (insert_timer s ts expire (active_timers s (tm_clock t))) (\<lambda>l.
     Inr (set_active (tm_clock t) l (s\<lparr>tm_mem := (tm_mem s)(ts \<mapsto> t\<lparr>expire_time := expire\<rparr>)\<rparr>)))))"

definition mod_timer_ns :: "(timer \<Rightarrow> i64 \<Rightarrow> tm_state \<Rightarrow> tm_state result) \<Rightarrow> outside \<Rightarrow> timer \<Rightarrow> i64 \<Rightarrow> tm_state \<Rightarrow> tm_state result" where
  "mod_timer_ns mod_ns h ts expire s =
     rbind (place_timer ts expire s) (\<lambda>s.
     rbind (tget s ts) (\<lambda>t.
     if hd (active_timers s (tm_clock t)) = ts then
       rbind (deref (alarm_timer s)) (\<lambda>a.
       rbind (if al_pending a then Inr s else qemu_rearm_alarm_timer h a s) (\<lambda>s.
       rbind (clock_warp mod_ns h (tm_clock t) s) (\<lambda>s.
       Inr (if use_icount s \<noteq> 0 then qemu_notify_event s else s))))
     else Inr s))"

text \<open>
  The knot, with a depth: a warp timer is on the real-time clock, which has no warp timer itself, so depth 2 is
  enough (\<open>mod_timer_depth\<close> below).
\<close>

primrec mod_timer_at :: "nat \<Rightarrow> outside \<Rightarrow> timer \<Rightarrow> i64 \<Rightarrow> tm_state \<Rightarrow> tm_state result" where
  "mod_timer_at 0 = (\<lambda>h ts expire s. Inl Diverges)"
| "mod_timer_at (Suc n) = (\<lambda>h. mod_timer_ns (mod_timer_at n h) h)"

definition qemu_mod_timer_ns :: "outside \<Rightarrow> timer \<Rightarrow> i64 \<Rightarrow> tm_state \<Rightarrow> tm_state result" where
  "qemu_mod_timer_ns = mod_timer_at 2"

definition qemu_clock_warp :: "outside \<Rightarrow> clock_type \<Rightarrow> tm_state \<Rightarrow> tm_state result" where
  "qemu_clock_warp h = clock_warp (qemu_mod_timer_ns h) h"

definition qemu_mod_timer :: "outside \<Rightarrow> timer \<Rightarrow> i64 \<Rightarrow> tm_state \<Rightarrow> tm_state result" where
  "qemu_mod_timer h ts t s = rbind (tget s ts) (\<lambda>tm. qemu_mod_timer_ns h ts (t * scast (tm_scale tm)) s)"

definition qemu_timer_pending :: "timer \<Rightarrow> tm_state \<Rightarrow> bool result" where
  "qemu_timer_pending ts s = rbind (tget s ts) (\<lambda>t. Inr (ts \<in> set (active_timers s (tm_clock t))))"

section \<open>Running the timers\<close>

text \<open>The call-backs may change the timers and the rest of the machine. A loop that does not end is \<open>None\<close>.\<close>

partial_function (option) run_timers_loop ::
    "(timer \<Rightarrow> tm_state \<times> 'w \<Rightarrow> (tm_state \<times> 'w) result) \<Rightarrow> clock_type \<Rightarrow> i64 \<Rightarrow> tm_state \<times> 'w \<Rightarrow> (tm_state \<times> 'w) result option" where
  "run_timers_loop cb c now w =
     (case active_timers (fst w) c of
        [] \<Rightarrow> Some (Inr w)
      | ts # rest \<Rightarrow>
          (case tm_mem (fst w) ts of
             None \<Rightarrow> Some (Inl Undefined)
           | Some t \<Rightarrow>
               if sint (expire_time t) \<le> sint now then
                 (case cb ts (set_active c rest (fst w), snd w) of
                    Inl e \<Rightarrow> Some (Inl e)
                  | Inr w' \<Rightarrow> run_timers_loop cb c now w')
               else Some (Inr w)))"

definition qemu_run_timers :: "outside \<Rightarrow> (timer \<Rightarrow> tm_state \<times> 'w \<Rightarrow> (tm_state \<times> 'w) result) \<Rightarrow> clock_type \<Rightarrow>
    tm_state \<times> 'w \<Rightarrow> (tm_state \<times> 'w) result option" where
  "qemu_run_timers h cb c w =
     (if \<not> clk_enabled (clocks (fst w) c) then Some (Inr w)
      else case qemu_get_clock_ns h c (fst w) of
             Inl e \<Rightarrow> Some (Inl e)
           | Inr (now, s) \<Rightarrow> run_timers_loop cb c now (s, snd w))"

definition run_then :: "('a \<Rightarrow> 'a result option) \<Rightarrow> ('a \<Rightarrow> 'a result option) \<Rightarrow> 'a \<Rightarrow> 'a result option" where
  "run_then f g w = (case f w of None \<Rightarrow> None | Some (Inl e) \<Rightarrow> Some (Inl e) | Some (Inr w') \<Rightarrow> g w')"

definition qemu_run_all_timers :: "outside \<Rightarrow> (timer \<Rightarrow> tm_state \<times> 'w \<Rightarrow> (tm_state \<times> 'w) result) \<Rightarrow>
    tm_state \<times> 'w \<Rightarrow> (tm_state \<times> 'w) result option" where
  "qemu_run_all_timers h cb w =
     (case alarm_timer (fst w) of
        None \<Rightarrow> Some (Inl Null_Deref)
      | Some a \<Rightarrow>
          let a1 = a\<lparr>al_pending := False, al_expired := False\<rparr>;
              s = (fst w)\<lparr>alarm_timer := Some a1\<rparr>
          in case (if al_expired a then qemu_rearm_alarm_timer h a1 s else Inr s) of
               Inl e \<Rightarrow> Some (Inl e)
             | Inr s \<Rightarrow>
                 run_then (\<lambda>w. if vm_running (fst w) then qemu_run_timers h cb QEMU_CLOCK_VIRTUAL w else Some (Inr w))
                   (run_then (qemu_run_timers h cb QEMU_CLOCK_REALTIME) (qemu_run_timers h cb QEMU_CLOCK_HOST)) (s, snd w))"

definition host_alarm_handler :: "outside \<Rightarrow> tm_state \<Rightarrow> tm_state result" where
  "host_alarm_handler h s =
     (case alarm_timer s of
        None \<Rightarrow> Inr s
      | Some a \<Rightarrow> Inr (qemu_notify_event (s\<lparr>alarm_timer := Some (a\<lparr>al_expired := True, al_pending := True\<rparr>)\<rparr>)))"

definition qemu_alarm_pending :: "tm_state \<Rightarrow> bool result" where
  "qemu_alarm_pending s = rbind (deref (alarm_timer s)) (\<lambda>a. Inr (al_pending a))"

definition alarm_timer_on_change_state_rearm :: "outside \<Rightarrow> qemu_alarm_timer \<Rightarrow> bool \<Rightarrow> tm_state \<Rightarrow> tm_state result" where
  "alarm_timer_on_change_state_rearm h a running s = (if running then qemu_rearm_alarm_timer h a s else Inr s)"

text \<open>The first back end that can be started is taken; \<open>start\<close> tells whether the host can start it. \<^verbatim>\<open>-ENOENT\<close> is -2.\<close>

definition init_timer_alarm :: "(alarm_kind \<Rightarrow> bool) \<Rightarrow> tm_state \<Rightarrow> i32 \<times> tm_state" where
  "init_timer_alarm start s =
     (case filter start (alarm_timers s) of
        [] \<Rightarrow> (- 2, s)
      | k # _ \<Rightarrow> (0, s\<lparr>alarm_timer := Some \<lparr>al_kind = k, al_expired = False, al_pending = True\<rparr>\<rparr>))"

definition quit_timers :: "tm_state \<Rightarrow> tm_state result" where
  "quit_timers s = rbind (deref (alarm_timer s)) (\<lambda>a. Inr (s\<lparr>alarm_timer := None\<rparr>))"

definition alarm_name :: "alarm_kind \<Rightarrow> string" where
  "alarm_name k = (case k of Dynticks \<Rightarrow> ''dynticks'' | Unix_Alarm \<Rightarrow> ''unix'')"

text \<open>\<^verbatim>\<open>strtok\<close> with a comma: the pieces that are not empty.\<close>

fun strtok_comma :: "string \<Rightarrow> string \<Rightarrow> string list" where
  "strtok_comma acc [] = (if acc = [] then [] else [acc])"
| "strtok_comma acc (c # cs) =
     (if c = CHR '','' then (if acc = [] then strtok_comma [] cs else acc # strtok_comma [] cs)
      else strtok_comma (acc @ [c]) cs)"

text \<open>The loop over the names: the table is reordered in place, the first \<open>cur\<close> places are taken.\<close>

fun reorder_alarms :: "string list \<Rightarrow> alarm_kind list \<Rightarrow> nat \<Rightarrow> alarm_kind list \<times> nat" where
  "reorder_alarms [] tab cur = (tab, cur)"
| "reorder_alarms (name # names) tab cur =
     (let i = length (takeWhile (\<lambda>k. alarm_name k \<noteq> name) tab)
      in if i = length tab then reorder_alarms names tab cur
         else if i < cur then reorder_alarms names tab cur
         else reorder_alarms names (tab[i := tab ! cur, cur := tab ! i]) (Suc cur))"

definition configure_alarms :: "string \<Rightarrow> tm_state \<Rightarrow> tm_state result" where
  "configure_alarms opt s =
     (if opt = ''?'' then Inl (Exit 0)
      else case reorder_alarms (strtok_comma [] opt) (alarm_timers s) 0 of
             (tab, cur) \<Rightarrow> if 0 < cur then Inr (s\<lparr>alarm_timers := take cur tab\<rparr>) else Inl (Exit 1))"

section \<open>Saving timers\<close>

definition qemu_put_timer :: "timer \<Rightarrow> tm_state \<Rightarrow> bytes \<Rightarrow> bytes result" where
  "qemu_put_timer ts s f =
     rbind (qemu_timer_pending ts s) (\<lambda>b.
     rbind (tget s ts) (\<lambda>t. Inr (qemu_put_be64 (if b then expire_time t else - 1) f)))"

definition qemu_get_timer :: "outside \<Rightarrow> timer \<Rightarrow> bytes \<Rightarrow> tm_state \<Rightarrow> (bytes \<times> tm_state) result" where
  "qemu_get_timer h ts f s =
     (let (expire, f) = qemu_get_be64 f
      in rbind (if expire \<noteq> - 1 then qemu_mod_timer_ns h ts expire s else qemu_del_timer ts s) (\<lambda>s. Inr (f, s)))"

section \<open>Counting instructions\<close>

definition MAX_ICOUNT_SHIFT :: int where "MAX_ICOUNT_SHIFT = 10"

definition ICOUNT_WOBBLE :: i64 where "ICOUNT_WOBBLE = 100000000"

definition qemu_icount_round :: "i64 \<Rightarrow> tm_state \<Rightarrow> i64 result" where
  "qemu_icount_round count s =
     (let n = icount_time_shift s
      in if 0 \<le> sint n \<and> sint n < 31
         then Inr (signed_drop_bit (nat (sint n)) (count + push_bit (nat (sint n)) 1 - 1))
         else Inl Undefined)"

definition icount_adjust :: "outside \<Rightarrow> tm_state \<Rightarrow> tm_state result" where
  "icount_adjust h s =
     (if \<not> vm_running s then Inr s
      else
        let cur_time = cpu_get_clock h s
        in rbind (qemu_get_clock_ns h QEMU_CLOCK_VIRTUAL s) (\<lambda>(cur_icount, s).
           let delta = cur_icount - cur_time;
               s = (if 0 < sint delta \<and> sint (last_delta s + ICOUNT_WOBBLE) < sint (delta * 2) \<and> 0 < sint (icount_time_shift s)
                    then s\<lparr>icount_time_shift := icount_time_shift s - 1\<rparr> else s);
               s = (if sint delta < 0 \<and> sint (last_delta s - ICOUNT_WOBBLE) > sint (delta * 2) \<and>
                       sint (icount_time_shift s) < MAX_ICOUNT_SHIFT
                    then s\<lparr>icount_time_shift := icount_time_shift s + 1\<rparr> else s);
               s = s\<lparr>last_delta := delta\<rparr>
           in rbind (shl64 (qemu_icount s) (icount_time_shift s)) (\<lambda>v. Inr (s\<lparr>qemu_icount_bias := cur_icount - v\<rparr>))))"

definition icount_adjust_rt :: "outside \<Rightarrow> tm_state \<Rightarrow> tm_state result" where
  "icount_adjust_rt h s =
     rbind (deref (icount_rt_timer s)) (\<lambda>ts.
     rbind (qemu_mod_timer h ts (word_of_int (sint (get_clock h) sdiv 1000000) + 1000) s) (icount_adjust h))"

definition icount_adjust_vm :: "outside \<Rightarrow> tm_state \<Rightarrow> tm_state result" where
  "icount_adjust_vm h s =
     rbind (deref (icount_vm_timer s)) (\<lambda>ts.
     rbind (qemu_get_clock_ns h QEMU_CLOCK_VIRTUAL s) (\<lambda>(now, s).
     rbind (qemu_mod_timer h ts (now + ICOUNT_WOBBLE) s) (icount_adjust h)))"

text \<open>The option of the command line, if it is given; \<open>strtol\<close> reads a number. A build flag adds the warp timer.\<close>

definition configure_icount :: "(string \<Rightarrow> i32) \<Rightarrow> bool \<Rightarrow> outside \<Rightarrow> string option \<Rightarrow> tm_state \<Rightarrow> tm_state result" where
  "configure_icount strtol iothread h option s =
     (case option of
        None \<Rightarrow> Inr s
      | Some opt \<Rightarrow>
          let s = (if iothread
                   then let (w, s) = qemu_new_timer QEMU_CLOCK_REALTIME 1 s
                        in s\<lparr>clocks := (clocks s)(QEMU_CLOCK_VIRTUAL := (clocks s QEMU_CLOCK_VIRTUAL)\<lparr>warp_timer := Some w\<rparr>)\<rparr>
                   else s)
          in if opt \<noteq> ''auto'' then Inr (s\<lparr>icount_time_shift := strtol opt, use_icount := 1\<rparr>)
             else
               let s = s\<lparr>use_icount := 2, icount_time_shift := 3\<rparr>;
                   (rt, s) = qemu_new_timer QEMU_CLOCK_REALTIME 1000000 s;
                   s = s\<lparr>icount_rt_timer := Some rt\<rparr>
               in rbind (qemu_mod_timer h rt (word_of_int (sint (get_clock h) sdiv 1000000) + 1000) s) (\<lambda>s.
                  let (vt, s) = qemu_new_timer QEMU_CLOCK_VIRTUAL 1 s;
                      s = s\<lparr>icount_vm_timer := Some vt\<rparr>
                  in rbind (qemu_get_clock_ns h QEMU_CLOCK_VIRTUAL s) (\<lambda>(now, s).
                     qemu_mod_timer h vt (now + ICOUNT_WOBBLE) s)))"

text \<open>The timeout of the main loop, in a build without the I/O thread and in one with it.\<close>

definition qemu_calculate_timeout :: "bool \<Rightarrow> outside \<Rightarrow> tm_state \<Rightarrow> (i32 \<times> tm_state) result" where
  "qemu_calculate_timeout iothread h s =
     (if iothread then Inr (1000, s)
      else if \<not> vm_running s then Inr (5000, s)
      else rbind (qemu_icount_delta h s) (\<lambda>delta.
        if 0 < sint delta then Inr (word_of_int (sint (delta + 999999) sdiv 1000000), s)
        else
          rbind (qemu_next_icount_deadline h s) (\<lambda>(add, s).
          let add = (if sint add > 10000000 then 10000000 else add);
              delta = delta + add
          in rbind (qemu_icount_round add s) (\<lambda>n.
             let s = s\<lparr>qemu_icount := qemu_icount s + n\<rparr>;
                 timeout = word_of_int (sint delta sdiv 1000000)
             in Inr (if sint timeout < 0 then 0 else timeout, s)))))"

end
