(* ===== verification/Timer_Service.thy ===== *)
theory Timer_Service
  imports Qemu_Timer
begin

text \<open>
  The timers of the emulator as a service: the lists of active timers stay sorted and free of repetitions whatever
  is called, they implement a table of pending times, and running the timers of a clock serves all that are due.
\<close>

section \<open>The active lists\<close>

definition expiry :: "tm_state \<Rightarrow> timer \<Rightarrow> int" where
  "expiry s ts = (case tm_mem s ts of None \<Rightarrow> 0 | Some t \<Rightarrow> sint (expire_time t))"

definition owned :: "tm_state \<Rightarrow> clock_type \<Rightarrow> timer \<Rightarrow> bool" where
  "owned s c ts \<longleftrightarrow> (\<exists>t. tm_mem s ts = Some t \<and> tm_clock t = c)"

definition wf_active :: "tm_state \<Rightarrow> clock_type \<Rightarrow> bool" where
  "wf_active s c \<longleftrightarrow> distinct (active_timers s c) \<and> (\<forall>ts \<in> set (active_timers s c). owned s c ts) \<and>
     sorted (map (expiry s) (active_timers s c))"

definition wf_warp :: "tm_state \<Rightarrow> bool" where
  "wf_warp s \<longleftrightarrow> (\<forall>c w. warp_timer (clocks s c) = Some w \<longrightarrow> c = QEMU_CLOCK_VIRTUAL \<and> owned s QEMU_CLOCK_REALTIME w)"

definition wf_timers :: "tm_state \<Rightarrow> bool" where
  "wf_timers s \<longleftrightarrow> (\<forall>c. wf_active s c) \<and> (\<forall>ts. tm_mem s ts \<noteq> None \<longrightarrow> ts < tm_next s) \<and> wf_warp s"

text \<open>What the lists stand for: the timers that are pending, with the time of their expiry.\<close>

definition pending_at :: "tm_state \<Rightarrow> timer \<rightharpoonup> i64" where
  "pending_at s ts =
     (case tm_mem s ts of None \<Rightarrow> None
      | Some t \<Rightarrow> if ts \<in> set (active_timers s (tm_clock t)) then Some (expire_time t) else None)"

lemma sorted_split_le:
  assumes "sorted (map f l)" "x \<in> set (dropWhile (\<lambda>x. f x \<le> e) l)"
  shows "e < f x"
  using assms
proof (induction l)
  case (Cons y ys)
  then show ?case by (cases "f y \<le> e") force+
qed simp

lemma sorted_insert_le:
  fixes e :: int
  assumes "sorted (map f l)" "\<And>x. x \<in> set l \<Longrightarrow> g x = f x" "g y = e"
  shows "sorted (map g (takeWhile (\<lambda>x. f x \<le> e) l @ y # dropWhile (\<lambda>x. f x \<le> e) l))"
proof -
  let ?a = "takeWhile (\<lambda>x. f x \<le> e) l" and ?b = "dropWhile (\<lambda>x. f x \<le> e) l"
  have "sorted (map f ?a @ map f ?b)" using assms(1) by (simp flip: map_append)
  then have ab: "sorted (map f ?a)" "sorted (map f ?b)" by (simp_all add: sorted_append)
  have g: "map g ?a = map f ?a" "map g ?b = map f ?b"
    using assms(2) by (auto dest: set_takeWhileD set_dropWhileD)
  have a: "\<forall>v \<in> set (map f ?a). v \<le> e" by (auto dest: set_takeWhileD)
  have b: "\<forall>v \<in> set (map f ?b). e \<le> v" using sorted_split_le[OF assms(1)] by fastforce
  then have "\<forall>u \<in> set (map f ?a). \<forall>v \<in> set (e # map f ?b). u \<le> v" using a by fastforce
  then have "sorted (map f ?a @ e # map f ?b)" using ab b by (simp add: sorted_append)
  then show ?thesis by (simp only: map_append list.map g assms(3))
qed

lemma tget_owned: "owned s c ts \<Longrightarrow> \<exists>t. tget s ts = Inr t \<and> tm_mem s ts = Some t \<and> tm_clock t = c \<and> expiry s ts = sint (expire_time t)"
  by (auto simp: owned_def tget_def expiry_def)

lemma tget_eq: "tget s ts = Inr t \<longleftrightarrow> tm_mem s ts = Some t"
  by (auto simp: tget_def split: option.splits)

lemma insert_timer_eq:
  "\<forall>x \<in> set l. owned s c x \<Longrightarrow>
   insert_timer s ts e l = Inr (takeWhile (\<lambda>x. expiry s x \<le> sint e) l @ ts # dropWhile (\<lambda>x. expiry s x \<le> sint e) l)"
proof (induction l)
  case (Cons x xs)
  then obtain t where t: "tget s x = Inr t" "expiry s x = sint (expire_time t)" using tget_owned[of s c x] by auto
  have IH: "insert_timer s ts e xs = Inr (takeWhile (\<lambda>x. expiry s x \<le> sint e) xs @ ts # dropWhile (\<lambda>x. expiry s x \<le> sint e) xs)"
    using Cons by simp
  show ?case by (simp add: t IH)
qed simp

text \<open>Removal keeps everything.\<close>

lemma wf_del:
  assumes "wf_timers s" "tm_mem s ts = Some t" and s': "s' = set_active (tm_clock t) (remove1 ts (active_timers s (tm_clock t))) s"
  shows "wf_timers s'" "pending_at s' = (pending_at s)(ts := None)"
proof -
  have d: "distinct (active_timers s c)" for c using assms(1) by (simp add: wf_timers_def wf_active_def)
  have sub: "set (active_timers s' c) \<subseteq> set (active_timers s c)" for c
    using set_remove1_subset[of ts "active_timers s c"] by (auto simp: s' set_active_def)
  have e: "expiry s' = expiry s" "owned s' = owned s" by (simp_all add: s' expiry_def owned_def set_active_def fun_eq_iff)
  show "wf_timers s'"
    unfolding wf_timers_def wf_active_def wf_warp_def
  proof (intro conjI allI impI)
    fix c
    show "distinct (active_timers s' c)" using d by (simp add: s' set_active_def)
    show "\<forall>x \<in> set (active_timers s' c). owned s' c x"
      using sub assms(1) unfolding e by (auto simp: wf_timers_def wf_active_def)
    show "sorted (map (expiry s') (active_timers s' c))"
      using assms(1) unfolding e by (auto simp: s' set_active_def wf_timers_def wf_active_def sorted_map_remove1)
  qed (use assms(1) e in \<open>auto simp: s' wf_timers_def wf_warp_def set_active_def owned_def\<close>)
  show "pending_at s' = (pending_at s)(ts := None)"
    using d assms(2) by (auto simp: s' pending_at_def set_active_def fun_eq_iff split: option.splits)
qed

lemma place_timer_eq:
  assumes "wf_timers s" "tm_mem s ts = Some t"
  obtains l where "place_timer ts e s = Inr (set_active (tm_clock t) l (s\<lparr>tm_mem := (tm_mem s)(ts \<mapsto> t\<lparr>expire_time := e\<rparr>)\<rparr>))"
    "l = takeWhile (\<lambda>x. expiry s x \<le> sint e) (remove1 ts (active_timers s (tm_clock t))) @
         ts # dropWhile (\<lambda>x. expiry s x \<le> sint e) (remove1 ts (active_timers s (tm_clock t)))"
proof -
  let ?d = "set_active (tm_clock t) (remove1 ts (active_timers s (tm_clock t))) s"
  have mem: "tm_mem ?d = tm_mem s" by (simp add: set_active_def)
  have "wf_active ?d (tm_clock t)" using wf_del[OF assms refl] by (simp add: wf_timers_def)
  then have "\<forall>x \<in> set (active_timers ?d (tm_clock t)). owned ?d (tm_clock t) x" by (simp add: wf_active_def)
  from insert_timer_eq[OF this, of ts e]
  have "insert_timer ?d ts e (active_timers ?d (tm_clock t)) = Inr (takeWhile (\<lambda>x. expiry s x \<le> sint e) (active_timers ?d (tm_clock t)) @
      ts # dropWhile (\<lambda>x. expiry s x \<le> sint e) (active_timers ?d (tm_clock t)))"
    by (simp add: expiry_def mem)
  then show ?thesis
    using that assms(2) mem
    by (simp add: place_timer_def qemu_del_timer_def tget_def) (simp add: set_active_def)
qed

lemma set_split_insert: "set (takeWhile P r @ y # dropWhile P r) = insert y (set r)"
  by (induction r) auto

lemma distinct_split_insert: "distinct (takeWhile P r @ y # dropWhile P r) \<longleftrightarrow> distinct (y # r)"
proof (induction r)
  case (Cons x r)
  then show ?case using set_split_insert[of P r y] by auto
qed simp

lemma place_timer_wf:
  assumes "wf_timers s" "tm_mem s ts = Some t" "place_timer ts e s = Inr s'"
  shows "wf_timers s'" "pending_at s' = (pending_at s)(ts \<mapsto> e)" "tm_mem s' = (tm_mem s)(ts \<mapsto> t\<lparr>expire_time := e\<rparr>)"
    "clocks s' = clocks s" "use_icount s' = use_icount s" "alarm_timer s' = alarm_timer s"
    "\<And>c. active_timers s' c \<noteq> [] \<longleftrightarrow> c = tm_clock t \<or> active_timers s c \<noteq> []"
proof -
  let ?r = "remove1 ts (active_timers s (tm_clock t))"
  let ?a = "takeWhile (\<lambda>x. expiry s x \<le> sint e) ?r" and ?b = "dropWhile (\<lambda>x. expiry s x \<le> sint e) ?r"
  have s': "s' = set_active (tm_clock t) (?a @ ts # ?b) (s\<lparr>tm_mem := (tm_mem s)(ts \<mapsto> t\<lparr>expire_time := e\<rparr>)\<rparr>)"
    using place_timer_eq[OF assms(1,2), of e] assms(3) by (metis sum.inject(2))
  show mem: "tm_mem s' = (tm_mem s)(ts \<mapsto> t\<lparr>expire_time := e\<rparr>)" and "clocks s' = clocks s"
    "use_icount s' = use_icount s" "alarm_timer s' = alarm_timer s"
    "\<And>c. active_timers s' c \<noteq> [] \<longleftrightarrow> c = tm_clock t \<or> active_timers s c \<noteq> []"
    by (simp_all add: s' set_active_def)
  have nx: "tm_next s' = tm_next s" by (simp add: s' set_active_def)
  have d: "distinct (active_timers s c)" and o: "\<forall>x \<in> set (active_timers s c). owned s c x"
    and st: "sorted (map (expiry s) (active_timers s c))" for c
    using assms(1) by (auto simp: wf_timers_def wf_active_def)
  have ab: "set (?a @ ts # ?b) = insert ts (set (active_timers s (tm_clock t)))"
    using d[of "tm_clock t"] unfolding set_split_insert by auto
  have act: "active_timers s' = (active_timers s)(tm_clock t := ?a @ ts # ?b)" by (simp add: s' set_active_def)
  have own: "owned s' = owned s" using assms(2) by (auto simp: owned_def mem fun_eq_iff)
  have ts: "ts \<in> set (active_timers s c) \<Longrightarrow> c = tm_clock t" for c using o[of c] assms(2) by (auto simp: owned_def)
  have ex: "expiry s' x = (if x = ts then sint e else expiry s x)" for x by (simp add: expiry_def mem)
  have wa: "wf_active s' c" for c
  proof (cases "c = tm_clock t")
    case True
    have "distinct (?a @ ts # ?b)" unfolding distinct_split_insert using d by simp
    moreover have "sorted (map (expiry s') (?a @ ts # ?b))"
    proof (rule sorted_insert_le)
      show "sorted (map (expiry s) ?r)" by (intro sorted_map_remove1 st)
      show "expiry s' x = expiry s x" if "x \<in> set ?r" for x using that d by (auto simp: ex)
    qed (simp add: ex)
    moreover have "\<forall>x \<in> set (?a @ ts # ?b). owned s (tm_clock t) x"
      unfolding ab using o[of "tm_clock t"] assms(2) by (simp add: owned_def)
    ultimately show ?thesis using True unfolding wf_active_def own act by simp
  next
    case False
    moreover have "map (expiry s') (active_timers s c) = map (expiry s) (active_timers s c)"
      using ts[of c] False by (auto simp: ex simp del: map_eq_conv intro!: map_cong)
    ultimately show ?thesis using d[of c] o[of c] st[of c] unfolding wf_active_def own by (simp add: act del: map_eq_conv)
  qed
  show "wf_timers s'"
    using wa assms(1,2) by (auto simp: wf_timers_def wf_warp_def own mem nx \<open>clocks s' = clocks s\<close> split: if_splits)
  show "pending_at s' = (pending_at s)(ts \<mapsto> e)"
  proof
    fix x
    show "pending_at s' x = ((pending_at s)(ts \<mapsto> e)) x"
      using ab assms(2) ts by (cases "tm_mem s x") (auto simp: pending_at_def mem act)
  qed
qed

text \<open>What only reads the timers.\<close>

definition same_timers :: "tm_state \<Rightarrow> tm_state \<Rightarrow> bool" where
  "same_timers s s' \<longleftrightarrow> tm_mem s' = tm_mem s \<and> active_timers s' = active_timers s \<and> tm_next s' = tm_next s \<and>
     (\<forall>c. warp_timer (clocks s' c) = warp_timer (clocks s c)) \<and> use_icount s' = use_icount s \<and> alarm_timer s' = alarm_timer s"

lemma same_timers_refl [simp]: "same_timers s s"
  by (simp add: same_timers_def)

lemma same_timers_trans: "same_timers s s' \<Longrightarrow> same_timers s' s'' \<Longrightarrow> same_timers s s''"
  by (simp add: same_timers_def)

lemma same_wf: "same_timers s s' \<Longrightarrow> wf_timers s' = wf_timers s"
  by (simp add: same_timers_def wf_timers_def wf_active_def wf_warp_def owned_def expiry_def[abs_def])

lemma same_pending: "same_timers s s' \<Longrightarrow> pending_at s' = pending_at s"
  by (auto simp: same_timers_def pending_at_def fun_eq_iff split: option.split)

lemma same_get_clock: "ensures (\<lambda>(v, s'). same_timers s s') (qemu_get_clock_ns h c s)"
  by (cases c) (auto simp: qemu_get_clock_ns_def Let_def same_timers_def ensures_rules)

lemma same_head_delta: "ensures (\<lambda>(v, s'). same_timers s s') (head_delta h c ts s)"
  unfolding head_delta_def ensures_rules
  by (auto intro!: ensuresI split: prod.split dest: ensuresD[OF same_get_clock])

lemma same_min_delta: "ensures (\<lambda>(v, s'). same_timers s s') (min_delta h c delta s)"
  by (auto simp: min_delta_def rbind_eq_Inr_iff intro!: ensuresI split: list.splits dest: ensuresD[OF same_head_delta])

lemma same_alarm_deadline: "ensures (\<lambda>(v, s'). same_timers s s') (qemu_next_alarm_deadline h s)"
  by (auto simp: qemu_next_alarm_deadline_def rbind_eq_Inr_iff intro!: ensuresI split: list.splits if_splits
      dest!: ensuresD[OF same_head_delta] ensuresD[OF same_min_delta]) (blast intro: same_timers_trans)+

lemma same_icount_deadline: "ensures (\<lambda>(v, s'). same_timers s s') (qemu_next_icount_deadline h s)"
  by (auto simp: qemu_next_icount_deadline_def rbind_eq_Inr_iff c_assert_eq_Inr_iff intro!: ensuresI split: list.splits if_splits
      dest!: ensuresD[OF same_head_delta])

lemma same_updates [simp]:
  "same_timers s (s'\<lparr>alarm_sets := x\<rparr>) = same_timers s s'" "same_timers s (qemu_notify_event s') = same_timers s s'"
  "same_timers s (s'\<lparr>qemu_icount_bias := b\<rparr>) = same_timers s s'" "same_timers s (s'\<lparr>vm_clock_warp_start := b\<rparr>) = same_timers s s'"
  by (simp_all add: same_timers_def qemu_notify_event_def)

lemma same_rearm: "ensures (same_timers s) (qemu_rearm_alarm_timer h a s)"
proof -
  have "ensures (same_timers s) (dynticks_rearm_timer h s)" "ensures (same_timers s) (unix_rearm_timer h s)"
    unfolding dynticks_rearm_timer_def unix_rearm_timer_def Let_def
    by (intro ensures_if[THEN iffD2] conjI impI ensures_rbindI[OF same_alarm_deadline];
        simp split: prod.splits option.splits)+
  then show ?thesis by (simp add: qemu_rearm_alarm_timer_def split: alarm_kind.split)
qed

lemma same_expired_check:
  "ensures (same_timers s) (rbind (qemu_get_clock_ns h c s) (\<lambda>(now, s). rbind (qemu_timer_expired (active_timers s c) now s) (\<lambda>b.
     Inr (if b then qemu_notify_event s else s))))"
  by (auto simp: rbind_eq_Inr_iff intro!: ensuresI split: if_splits dest!: ensuresD[OF same_get_clock])

lemma same_warp_rt: "ensures (same_timers s) (icount_warp_rt h s)"
proof -
  have bias: "ensures (same_timers s)
     (if use_icount s = 1 then Inr (s\<lparr>qemu_icount_bias := qemu_icount_bias s + d\<rparr>)
      else rbind (qemu_get_clock_ns h QEMU_CLOCK_VIRTUAL s) (\<lambda>(cur_icount, s).
           let delta = cpu_get_clock h s - cur_icount
           in Inr (s\<lparr>qemu_icount_bias := qemu_icount_bias s + (if sint d < sint delta then d else delta)\<rparr>)))" for d
    by (auto simp: rbind_eq_Inr_iff Let_def intro!: ensuresI dest!: ensuresD[OF same_get_clock] split: if_splits)
  show ?thesis
    unfolding icount_warp_rt_def Let_def
    by (rule ensures_if[THEN iffD2], intro conjI impI, simp, rule ensures_rbindI[where Q="same_timers s"],
        rule ensures_if[THEN iffD2], intro conjI impI, rule ensures_rbindI[OF bias[unfolded Let_def]])
       (auto intro: same_timers_trans ensures_mono[OF same_expired_check])
qed

text \<open>The timers keep their well-formedness and change at most for the timers in \<open>W\<close>.\<close>

definition frame :: "timer set \<Rightarrow> tm_state \<Rightarrow> tm_state \<Rightarrow> bool" where
  "frame W s s' \<longleftrightarrow> wf_timers s' \<and> (\<forall>x. x \<notin> W \<longrightarrow> pending_at s' x = pending_at s x) \<and> owned s' = owned s \<and>
     (\<forall>c. warp_timer (clocks s' c) = warp_timer (clocks s c))"

lemma frame_same: "same_timers s s' \<Longrightarrow> wf_timers s \<Longrightarrow> frame W s s'"
  by (auto simp: frame_def same_wf same_pending fun_eq_iff) (simp_all add: same_timers_def owned_def)

lemma frame_trans: "frame W s s' \<Longrightarrow> frame W s' s'' \<Longrightarrow> frame W s s''"
  by (simp add: frame_def)

lemma frame_mono: "frame W s s' \<Longrightarrow> W \<subseteq> W' \<Longrightarrow> frame W' s s'"
  by (auto simp: frame_def)

lemma frame_wf: "frame W s s' \<Longrightarrow> wf_timers s'"
  by (simp add: frame_def)

lemma frame_del: "wf_timers s \<Longrightarrow> ensures (frame {ts} s) (qemu_del_timer ts s)"
  by (auto simp: qemu_del_timer_def rbind_eq_Inr_iff tget_eq wf_del frame_def intro!: ensuresI)
     (simp_all add: set_active_def owned_def fun_eq_iff)

lemma frame_place:
  assumes "wf_timers s"
  shows "ensures (\<lambda>s'. frame {ts} s s' \<and> pending_at s' ts = Some e) (place_timer ts e s)"
proof (rule ensuresI)
  fix s' assume s': "place_timer ts e s = Inr s'"
  then obtain t where t: "tm_mem s ts = Some t"
    by (auto simp: place_timer_def qemu_del_timer_def rbind_eq_Inr_iff tget_eq)
  note p = place_timer_wf[OF assms t s']
  have "owned s' = owned s" using t by (auto simp: owned_def p(3) fun_eq_iff)
  then show "frame {ts} s s' \<and> pending_at s' ts = Some e" using p(1,2,4) by (simp add: frame_def)
qed

definition warps :: "tm_state \<Rightarrow> timer set" where
  "warps s = {w. \<exists>c. warp_timer (clocks s c) = Some w}"

lemma warps_frame: "frame W s s' \<Longrightarrow> warps s' = warps s"
  by (simp add: frame_def warps_def)

text \<open>The contract of the inner \<^verbatim>\<open>qemu_mod_timer_ns\<close>.\<close>

definition good_mod :: "(timer \<Rightarrow> i64 \<Rightarrow> tm_state \<Rightarrow> tm_state result) \<Rightarrow> bool" where
  "good_mod mod_ns \<longleftrightarrow>
     (\<forall>ts e s. wf_timers s \<longrightarrow> ensures (\<lambda>s'. frame (insert ts (warps s)) s s' \<and> (ts \<notin> warps s \<longrightarrow> pending_at s' ts = Some e)) (mod_ns ts e s))"

lemma frame_warp:
  assumes "good_mod mod_ns" "wf_timers s"
  shows "ensures (frame (warps s) s) (clock_warp mod_ns h c s)"
proof (rule ensuresI)
  fix s' assume s': "clock_warp mod_ns h c s = Inr s'"
  show "frame (warps s) s s'"
  proof (cases "warp_timer (clocks s c)")
    case None
    then show ?thesis using s' frame_same[OF same_timers_refl assms(2)] by (simp add: clock_warp_def)
  next
    case (Some w)
    then have w: "w \<in> warps s" by (auto simp: warps_def)
    obtain s1 where s1: "icount_warp_rt h s = Inr s1"
      using s' Some by (auto simp: clock_warp_def c_assert_eq_Inr_iff rbind_eq_Inr_iff)
    have f1: "frame (warps s) s s1" by (rule frame_same[OF ensuresD[OF same_warp_rt s1] assms(2)])
    note wf1 = frame_wf[OF f1] and w1 = warps_frame[OF f1]
    consider "qemu_del_timer w s1 = Inr s'" | s2 d where "qemu_next_icount_deadline h (s1\<lparr>vm_clock_warp_start := get_clock h\<rparr>) = Inr (d, s2)"
        "s' = qemu_notify_event s2 \<or> (\<exists>e. mod_ns w e s2 = Inr s')"
      using s' Some s1 by (auto simp: clock_warp_def c_assert_eq_Inr_iff rbind_eq_Inr_iff Let_def split: if_splits)
    then have "frame (warps s) s1 s'"
    proof cases
      case 1
      from ensuresD[OF frame_del[OF wf1] this] show ?thesis by (rule frame_mono) (use w in simp)
    next
      case 2
      have s12: "same_timers s1 s2" using ensuresD[OF same_icount_deadline 2(1)] by (simp add: same_timers_def)
      have f2: "frame (warps s) s1 s2" by (rule frame_same[OF s12 wf1])
      from 2(2) show ?thesis
      proof
        assume "s' = qemu_notify_event s2"
        then show ?thesis using frame_same[OF _ wf1, of s'] s12 by simp
      next
        assume "\<exists>e. mod_ns w e s2 = Inr s'"
        then obtain e where "mod_ns w e s2 = Inr s'" by blast
        then have "frame (insert w (warps s2)) s2 s'"
          using assms(1) frame_wf[OF f2] unfolding good_mod_def by (blast dest: ensuresD)
        then have "frame (warps s) s2 s'" using w warps_frame[OF f2] w1 by (simp add: insert_absorb)
        then show ?thesis by (rule frame_trans[OF f2])
      qed
    qed
    then show ?thesis by (rule frame_trans[OF f1])
  qed
qed

lemma good_mod_timer_ns:
  assumes "good_mod mod_ns"
  shows "good_mod (mod_timer_ns mod_ns h)"
  unfolding good_mod_def
proof (intro allI impI ensuresI)
  fix ts e s s' assume wf: "wf_timers s" and s': "mod_timer_ns mod_ns h ts e s = Inr s'"
  obtain s1 t where s1: "place_timer ts e s = Inr s1" "tget s1 ts = Inr t" using s' by (auto simp: mod_timer_ns_def rbind_eq_Inr_iff)
  have p: "frame {ts} s s1" "pending_at s1 ts = Some e" using ensuresD[OF frame_place[OF wf] s1(1)] by simp_all
  note wf1 = frame_wf[OF p(1)]
  have "frame (warps s) s1 s'"
  proof (cases "hd (active_timers s1 (tm_clock t)) = ts")
    case True
    then obtain a s2 s3 where s2: "(if al_pending a then Inr s1 else qemu_rearm_alarm_timer h a s1) = Inr s2"
        "clock_warp mod_ns h (tm_clock t) s2 = Inr s3" "s' = (if use_icount s3 \<noteq> 0 then qemu_notify_event s3 else s3)"
      using s' s1 by (auto simp: mod_timer_ns_def rbind_eq_Inr_iff)
    have "same_timers s1 s2" using s2(1) ensuresD[OF same_rearm] by (auto split: if_splits)
    then have f2: "frame (warps s) s1 s2" by (rule frame_same[OF _ wf1])
    have f3: "frame (warps s2) s2 s3" by (rule ensuresD[OF frame_warp[OF assms frame_wf[OF f2]] s2(2)])
    have "frame (warps s) s3 s'" using s2(3) frame_same[OF _ frame_wf[OF f3], of s'] by simp
    with f2 f3 show ?thesis using warps_frame[OF f2] warps_frame[OF p(1)] by (auto intro: frame_trans)
  next
    case False
    then have "s' = s1" using s' s1 by (simp add: mod_timer_ns_def)
    then show ?thesis using frame_same[OF same_timers_refl wf1] by simp
  qed
  then show "frame (insert ts (warps s)) s s' \<and> (ts \<notin> warps s \<longrightarrow> pending_at s' ts = Some e)"
    using p by (auto simp: frame_def)
qed

lemma good_mod_at: "good_mod (mod_timer_at n h)"
proof (induction n)
  case (Suc n)
  then show ?case by (simp add: good_mod_timer_ns)
qed (simp add: good_mod_def)

lemma frame_mod:
  assumes "wf_timers s"
  shows "ensures (\<lambda>s'. frame (insert ts (warps s)) s s' \<and> (ts \<notin> warps s \<longrightarrow> pending_at s' ts = Some e)) (qemu_mod_timer_ns h ts e s)"
  using good_mod_at[of 2 h] assms unfolding good_mod_def qemu_mod_timer_ns_def by blast

text \<open>Depth 2 is enough.\<close>

lemma mod_ns_no_warp:
  assumes "wf_timers s" "tm_mem s ts = Some t" "tm_clock t \<noteq> QEMU_CLOCK_VIRTUAL"
  shows "mod_timer_ns f h ts e s = mod_timer_ns g h ts e s"
proof (cases "place_timer ts e s")
  case (Inr s1)
  note p = place_timer_wf[OF assms(1,2) Inr]
  have t1: "tget s1 ts = Inr (t\<lparr>expire_time := e\<rparr>)" by (simp add: p(3) tget_def)
  have w: "warp_timer (clocks s2 (tm_clock t)) = None" if "(if al_pending a then Inr s1 else qemu_rearm_alarm_timer h a s1) = Inr s2" for a s2
  proof -
    have "same_timers s1 s2" using that ensuresD[OF same_rearm] by (auto split: if_splits)
    then show ?thesis using assms(1,3) by (cases "warp_timer (clocks s2 (tm_clock t))") (auto simp: same_timers_def p(4) wf_timers_def wf_warp_def)
  qed
  have "rbind (if al_pending a then Inr s1 else qemu_rearm_alarm_timer h a s1) (\<lambda>s. rbind (clock_warp f h (tm_clock t) s) k) =
      rbind (if al_pending a then Inr s1 else qemu_rearm_alarm_timer h a s1) (\<lambda>s. rbind (clock_warp g h (tm_clock t) s) k)" for a and k :: "tm_state \<Rightarrow> tm_state result"
    by (rule rbind_cong[OF refl]) (simp add: clock_warp_def w)
  then show ?thesis using Inr t1 by (simp add: mod_timer_ns_def)
qed (simp add: mod_timer_ns_def)

lemma mod_timer_depth:
  assumes "wf_timers s"
  shows "mod_timer_at (Suc (Suc n)) h ts e s = qemu_mod_timer_ns h ts e s"
proof -
  have inner: "mod_timer_at (Suc n) h w e s = mod_timer_at 1 h w e s" if "wf_timers s" "owned s QEMU_CLOCK_REALTIME w" for s w e
    using that mod_ns_no_warp[of s w _ "mod_timer_at n h" h e "mod_timer_at 0 h"] by (auto simp: owned_def)
  have warp: "clock_warp (mod_timer_at (Suc n) h) h c s = clock_warp (mod_timer_at 1 h) h c s" if wf: "wf_timers s" for c s
  proof (cases "warp_timer (clocks s c)")
    case (Some w)
    then have w: "owned s QEMU_CLOCK_REALTIME w" using wf by (auto simp: wf_timers_def wf_warp_def)
    have "mod_timer_at (Suc n) h w e s2 = mod_timer_at 1 h w e s2"
      if "icount_warp_rt h s = Inr s1" "qemu_next_icount_deadline h (s1\<lparr>vm_clock_warp_start := g\<rparr>) = Inr (d, s2)" for s1 s2 d e g
    proof -
      have "same_timers s s1" "same_timers s1 s2"
        using ensuresD[OF same_warp_rt that(1)] ensuresD[OF same_icount_deadline that(2)] by (simp_all add: same_timers_def)
      then have "same_timers s s2" by (rule same_timers_trans)
      then have "wf_timers s2" "owned s2 QEMU_CLOCK_REALTIME w" using wf w by (simp_all add: same_wf) (simp add: same_timers_def owned_def)
      then show ?thesis by (rule inner)
    qed
    then show ?thesis
      using Some by (auto simp: clock_warp_def Let_def c_assert_def intro!: rbind_cong split: prod.split)
  qed (simp add: clock_warp_def)
  show ?thesis
  proof (cases "place_timer ts e s")
    case (Inr s1)
    have wf1: "wf_timers s1" using ensuresD[OF frame_place[OF assms] Inr] frame_wf by blast
    have A: "clock_warp (mod_timer_at (Suc n) h) h c s2 = clock_warp (mod_timer_at 1 h) h c s2"
      if "(if al_pending a then Inr s1 else qemu_rearm_alarm_timer h a s1) = Inr s2" for a c s2
    proof -
      have "same_timers s1 s2" using that ensuresD[OF same_rearm] by (auto split: if_splits)
      then show ?thesis using warp same_wf wf1 by blast
    qed
    have B: "rbind (if al_pending a then Inr s1 else qemu_rearm_alarm_timer h a s1) (\<lambda>s. rbind (clock_warp (mod_timer_at (Suc n) h) h c s) k) =
        rbind (if al_pending a then Inr s1 else qemu_rearm_alarm_timer h a s1) (\<lambda>s. rbind (clock_warp (mod_timer_at 1 h) h c s) k)"
      for a c and k :: "tm_state \<Rightarrow> tm_state result"
      by (rule rbind_cong[OF refl]) (simp only: A)
    show ?thesis
      unfolding qemu_mod_timer_ns_def numeral_2_eq_2 mod_timer_at.simps(2)[of "Suc n"] mod_timer_at.simps(2)[of "Suc 0"]
        mod_timer_ns_def[of "mod_timer_at (Suc n) h"] mod_timer_ns_def[of "mod_timer_at (Suc 0) h"] Inr rbind_Inr B One_nat_def ..
  qed (simp add: qemu_mod_timer_ns_def numeral_2_eq_2 mod_timer_ns_def)
qed

section \<open>Reachable states\<close>

definition tm_init :: "outside \<Rightarrow> tm_state" where
  "tm_init h = init_clocks h
     \<lparr>tm_mem = Map.empty, tm_next = 0, active_timers = (\<lambda>c. []), clocks = undefined, cpu_ticks_prev = 0, cpu_ticks_offset = 0,
      cpu_clock_offset = 0, cpu_ticks_enabled = False, use_icount = 0, icount_time_shift = 0, qemu_icount = 0,
      qemu_icount_bias = 0, last_delta = 0, vm_clock_warp_start = 0, vm_running = False, icount_rt_timer = None,
      icount_vm_timer = None, alarm_timers = [Dynticks, Unix_Alarm], alarm_timer = None, alarm_sets = [],
      events_notified = 0, clock_resets = []\<rparr>"

text \<open>
  The calls of the rest of the emulator, in any order and at any time. A timer that is freed must have been
  stopped before; \<open>pop\<close> is the step by which \<^verbatim>\<open>qemu_run_timers\<close> takes a timer off its list.
\<close>

inductive tm_reach :: "tm_state \<Rightarrow> bool" where
  start: "tm_reach (tm_init h)"
| new: "tm_reach s \<Longrightarrow> tm_reach (snd (qemu_new_timer c sc s))"
| free: "tm_reach s \<Longrightarrow> pending_at s ts = None \<Longrightarrow> ts \<notin> warps s \<Longrightarrow> tm_reach (qemu_free_timer ts s)"
| del: "tm_reach s \<Longrightarrow> qemu_del_timer ts s = Inr s' \<Longrightarrow> tm_reach s'"
| modify: "tm_reach s \<Longrightarrow> qemu_mod_timer h ts e s = Inr s' \<Longrightarrow> tm_reach s'"
| warp: "tm_reach s \<Longrightarrow> qemu_clock_warp h c s = Inr s' \<Longrightarrow> tm_reach s'"
| icount: "tm_reach s \<Longrightarrow> configure_icount strtol iothread h opt s = Inr s' \<Longrightarrow> tm_reach s'"
| load: "tm_reach s \<Longrightarrow> qemu_get_timer h ts f s = Inr (f', s') \<Longrightarrow> tm_reach s'"
| adjust_rt: "tm_reach s \<Longrightarrow> icount_adjust_rt h s = Inr s' \<Longrightarrow> tm_reach s'"
| adjust_vm: "tm_reach s \<Longrightarrow> icount_adjust_vm h s = Inr s' \<Longrightarrow> tm_reach s'"
| read: "tm_reach s \<Longrightarrow> qemu_get_clock_ns h c s = Inr (now, s') \<Longrightarrow> tm_reach s'"
| pop: "tm_reach s \<Longrightarrow> active_timers s c = ts # rest \<Longrightarrow> tm_reach (set_active c rest s)"
| ticks_on: "tm_reach s \<Longrightarrow> tm_reach (cpu_enable_ticks h s)"
| ticks_off: "tm_reach s \<Longrightarrow> cpu_disable_ticks h s = Inr s' \<Longrightarrow> tm_reach s'"
| alarm: "tm_reach s \<Longrightarrow> tm_reach (snd (init_timer_alarm start s))"
| alarms: "tm_reach s \<Longrightarrow> configure_alarms opt s = Inr s' \<Longrightarrow> tm_reach s'"
| signal: "tm_reach s \<Longrightarrow> host_alarm_handler h s = Inr s' \<Longrightarrow> tm_reach s'"
| run_vm: "tm_reach s \<Longrightarrow> tm_reach (s\<lparr>vm_running := b\<rparr>)"

lemma wf_new: "wf_timers s \<Longrightarrow> wf_timers (snd (qemu_new_timer c sc s))"
proof -
  assume wf: "wf_timers s"
  let ?s = "snd (qemu_new_timer c sc s)"
  have fresh: "tm_mem s (tm_next s) = None" using wf by (auto simp: wf_timers_def)
  have own: "owned s c' x \<Longrightarrow> owned ?s c' x \<and> expiry ?s x = expiry s x" for c' x
    using fresh by (auto simp: owned_def expiry_def qemu_new_timer_def Let_def)
  have "wf_active ?s c'" for c'
  proof -
    have w: "wf_active s c'" using wf by (simp add: wf_timers_def)
    have "map (expiry ?s) (active_timers s c') = map (expiry s) (active_timers s c')"
      using w own by (auto simp: wf_active_def simp del: map_eq_conv intro!: map_cong)
    moreover have "active_timers ?s = active_timers s" by (simp add: qemu_new_timer_def Let_def)
    ultimately show ?thesis using w own by (auto simp: wf_active_def simp del: map_eq_conv)
  qed
  moreover have "clocks ?s = clocks s" "tm_next ?s = Suc (tm_next s)" "dom (tm_mem ?s) = insert (tm_next s) (dom (tm_mem s))"
    by (auto simp: qemu_new_timer_def Let_def)
  ultimately show ?thesis
    using wf own by (auto simp: wf_timers_def wf_warp_def less_Suc_eq dest: domI split: if_splits)
qed

lemma wf_free:
  assumes "wf_timers s" "pending_at s ts = None" "ts \<notin> warps s"
  shows "wf_timers (qemu_free_timer ts s)"
proof -
  let ?s = "qemu_free_timer ts s"
  have n: "x \<noteq> ts" if "x \<in> set (active_timers s c)" for x c
    using that assms(1,2) by (fastforce simp: wf_timers_def wf_active_def owned_def pending_at_def split: option.splits if_splits)
  have own: "x \<noteq> ts \<Longrightarrow> owned ?s c x = owned s c x \<and> expiry ?s x = expiry s x" for c x
    by (simp add: owned_def expiry_def qemu_free_timer_def)
  have "wf_active ?s c" for c
  proof -
    have w: "wf_active s c" using assms(1) by (simp add: wf_timers_def)
    have "map (expiry ?s) (active_timers s c) = map (expiry s) (active_timers s c)"
      using n own by (auto simp del: map_eq_conv intro!: map_cong)
    moreover have "active_timers ?s = active_timers s" by (simp add: qemu_free_timer_def)
    ultimately show ?thesis using w own n by (auto simp: wf_active_def simp del: map_eq_conv)
  qed
  moreover have "clocks ?s = clocks s" "tm_next ?s = tm_next s" "tm_mem ?s = (tm_mem s)(ts := None)" by (simp_all add: qemu_free_timer_def)
  moreover have "w \<noteq> ts" if "warp_timer (clocks s c) = Some w" for c w using that assms(3) by (auto simp: warps_def)
  ultimately show ?thesis using assms(1) own by (auto simp: wf_timers_def wf_warp_def)
qed

lemma wf_pop:
  assumes "wf_timers s" "active_timers s c = ts # rest"
  shows "wf_timers (set_active c rest s)"
proof -
  obtain t where t: "tm_mem s ts = Some t" "tm_clock t = c"
    using assms by (fastforce simp: wf_timers_def wf_active_def owned_def)
  show ?thesis using wf_del(1)[OF assms(1) t(1) refl] assms(2) t(2) by simp
qed

lemma wf_fields:
  "tm_mem s' = tm_mem s \<Longrightarrow> active_timers s' = active_timers s \<Longrightarrow> tm_next s' = tm_next s \<Longrightarrow>
   (\<And>c. warp_timer (clocks s' c) = warp_timer (clocks s c)) \<Longrightarrow> wf_timers s' = wf_timers s"
  by (simp add: wf_timers_def wf_active_def wf_warp_def owned_def expiry_def[abs_def])

lemma wf_mod: "wf_timers s \<Longrightarrow> ensures wf_timers (qemu_mod_timer_ns h ts e s)"
  by (rule ensures_mono[OF frame_mod]) (auto dest: frame_wf)

lemma wf_modify: "wf_timers s \<Longrightarrow> qemu_mod_timer h ts e s = Inr s' \<Longrightarrow> wf_timers s'"
  by (auto simp: qemu_mod_timer_def rbind_eq_Inr_iff dest: ensuresD[OF wf_mod])

lemma wf_read: "wf_timers s \<Longrightarrow> qemu_get_clock_ns h c s = Inr (v, s') \<Longrightarrow> wf_timers s'"
  using same_wf ensuresD[OF same_get_clock] by fastforce

lemma wf_adjust: "wf_timers s \<Longrightarrow> icount_adjust h s = Inr s' \<Longrightarrow> wf_timers s'"
proof -
  assume wf: "wf_timers s" and s': "icount_adjust h s = Inr s'"
  show ?thesis
  proof (cases "vm_running s")
    case True
    then obtain v s1 where s1: "qemu_get_clock_ns h QEMU_CLOCK_VIRTUAL s = Inr (v, s1)"
      using s' by (auto simp: icount_adjust_def Let_def rbind_eq_Inr_iff)
    have "tm_mem s' = tm_mem s1 \<and> active_timers s' = active_timers s1 \<and> tm_next s' = tm_next s1 \<and> clocks s' = clocks s1"
      using s' True s1 by (simp add: icount_adjust_def Let_def rbind_eq_Inr_iff split: if_splits) fastforce+
    then show ?thesis using wf_read[OF wf s1] wf_fields[of s' s1] by simp
  qed (use wf s' in \<open>simp add: icount_adjust_def\<close>)
qed

lemma wf_upd [simp]:
  "wf_timers (s\<lparr>icount_time_shift := a, use_icount := b\<rparr>) = wf_timers s"
  "wf_timers (s\<lparr>use_icount := b, icount_time_shift := a\<rparr>) = wf_timers s"
  "wf_timers (s\<lparr>icount_rt_timer := x\<rparr>) = wf_timers s" "wf_timers (s\<lparr>icount_vm_timer := x\<rparr>) = wf_timers s"
  "wf_timers (s\<lparr>vm_running := r\<rparr>) = wf_timers s"
  by (rule wf_fields; simp)+

lemma wf_set_warp:
  "wf_timers s \<Longrightarrow> owned s QEMU_CLOCK_REALTIME w \<Longrightarrow>
   wf_timers (s\<lparr>clocks := (clocks s)(QEMU_CLOCK_VIRTUAL := (clocks s QEMU_CLOCK_VIRTUAL)\<lparr>warp_timer := Some w\<rparr>)\<rparr>)"
  by (auto simp: wf_timers_def wf_active_def wf_warp_def owned_def expiry_def[abs_def]) (metis not_None_eq)

lemma wf_icount:
  assumes "wf_timers s" "configure_icount strtol iothread h opt s = Inr s'"
  shows "wf_timers s'"
proof (cases opt)
  case (Some o1)
  define s1 where "s1 = (if iothread
     then let (w, s) = qemu_new_timer QEMU_CLOCK_REALTIME 1 s
          in s\<lparr>clocks := (clocks s)(QEMU_CLOCK_VIRTUAL := (clocks s QEMU_CLOCK_VIRTUAL)\<lparr>warp_timer := Some w\<rparr>)\<rparr> else s)"
  obtain w sw where w: "qemu_new_timer QEMU_CLOCK_REALTIME 1 s = (w, sw)" by fastforce
  have "wf_timers sw" using wf_new[OF assms(1), of QEMU_CLOCK_REALTIME 1] w by simp
  moreover have "owned sw QEMU_CLOCK_REALTIME w" using w by (auto simp: qemu_new_timer_def Let_def owned_def)
  ultimately have wf1: "wf_timers s1" using assms(1) by (simp add: s1_def w wf_set_warp)
  show ?thesis
  proof (cases "o1 = ''auto''")
    case True
    define s2 where "s2 = s1\<lparr>use_icount := 2, icount_time_shift := 3\<rparr>"
    obtain rt s3 where s3: "qemu_new_timer QEMU_CLOCK_REALTIME 1000000 s2 = (rt, s3)" by fastforce
    have "wf_timers s2" using wf1 by (simp add: s2_def)
    then have wf3: "wf_timers (s3\<lparr>icount_rt_timer := Some rt\<rparr>)" using wf_new[of s2 QEMU_CLOCK_REALTIME 1000000] s3 by simp
    obtain s4 where s4: "qemu_mod_timer h rt (word_of_int (sint (get_clock h) sdiv 1000000) + 1000) (s3\<lparr>icount_rt_timer := Some rt\<rparr>) = Inr s4"
      using assms(2) Some True s3 unfolding configure_icount_def s1_def[symmetric] by (auto simp: s2_def Let_def rbind_eq_Inr_iff)
    note wf4 = wf_modify[OF wf3 s4]
    obtain vt s5 where s5: "qemu_new_timer QEMU_CLOCK_VIRTUAL 1 s4 = (vt, s5)" by fastforce
    have wf5: "wf_timers (s5\<lparr>icount_vm_timer := Some vt\<rparr>)" using wf_new[OF wf4, of QEMU_CLOCK_VIRTUAL 1] s5 by simp
    obtain now s6 where s6: "qemu_get_clock_ns h QEMU_CLOCK_VIRTUAL (s5\<lparr>icount_vm_timer := Some vt\<rparr>) = Inr (now, s6)"
        "qemu_mod_timer h vt (now + ICOUNT_WOBBLE) s6 = Inr s'"
      using assms(2) Some True s3 s4 s5 unfolding configure_icount_def s1_def[symmetric] by (auto simp: s2_def Let_def rbind_eq_Inr_iff)
    show ?thesis by (rule wf_modify[OF wf_read[OF wf5 s6(1)] s6(2)])
  next
    case False
    then show ?thesis using assms(2) Some wf1 unfolding configure_icount_def s1_def[symmetric] by (auto simp: Let_def s1_def[symmetric])
  qed
qed (use assms in \<open>simp add: configure_icount_def\<close>)

lemma tm_reach_wf: "tm_reach s \<Longrightarrow> wf_timers s"
proof (induction rule: tm_reach.induct)
  case (start h)
  show ?case by (simp add: tm_init_def init_clocks_def qemu_new_clock_def wf_timers_def wf_active_def wf_warp_def)
next
  case (del s ts s')
  then show ?case by (auto dest: frame_wf[OF ensuresD[OF frame_del]])
next
  case (warp s h c s')
  then show ?case using ensuresD[OF frame_warp[OF good_mod_at], of s 2 h h c] frame_wf by (auto simp: qemu_clock_warp_def qemu_mod_timer_ns_def)
next
  case (load s h ts f f' s')
  then show ?case
    by (auto simp: qemu_get_timer_def rbind_eq_Inr_iff split: prod.splits if_splits
        dest: ensuresD[OF wf_mod] frame_wf[OF ensuresD[OF frame_del]])
next
  case (adjust_rt s h s')
  then obtain ts e s1 where "qemu_mod_timer h ts e s = Inr s1" "icount_adjust h s1 = Inr s'"
    by (auto simp: icount_adjust_rt_def rbind_eq_Inr_iff)
  then show ?case using adjust_rt.IH wf_modify wf_adjust by blast
next
  case (adjust_vm s h s')
  then obtain ts v s1 s2 where "qemu_get_clock_ns h QEMU_CLOCK_VIRTUAL s = Inr (v, s1)" "qemu_mod_timer h ts (v + ICOUNT_WOBBLE) s1 = Inr s2"
      "icount_adjust h s2 = Inr s'" by (auto simp: icount_adjust_vm_def rbind_eq_Inr_iff)
  then show ?case using adjust_vm.IH wf_read wf_modify wf_adjust by blast
next
  case (ticks_on s h)
  then show ?case using wf_fields[of "cpu_enable_ticks h s" s] by (simp add: cpu_enable_ticks_def)
next
  case (ticks_off s h s')
  then have "tm_mem s' = tm_mem s \<and> active_timers s' = active_timers s \<and> tm_next s' = tm_next s \<and> clocks s' = clocks s"
    by (auto simp: cpu_disable_ticks_def cpu_get_ticks_def rbind_eq_Inr_iff Let_def split: if_splits)
  then show ?case using ticks_off wf_fields[of s' s] by simp
next
  case (alarm s start)
  then show ?case using wf_fields[of "snd (init_timer_alarm start s)" s] by (simp add: init_timer_alarm_def split: list.split)
next
  case (alarms s opt s')
  then show ?case using wf_fields[of s' s] by (auto simp: configure_alarms_def split: if_splits prod.splits)
next
  case (signal s h s')
  then show ?case using wf_fields[of s' s] by (auto simp: host_alarm_handler_def qemu_notify_event_def split: option.splits)
qed (simp_all add: wf_new wf_free wf_pop, (erule (1) wf_modify wf_icount wf_read)+)

section \<open>Without instruction counting\<close>

text \<open>The plain configuration: real time drives the guest, the alarm is installed and the host answers.\<close>

definition plain_timing :: "outside \<Rightarrow> tm_state \<Rightarrow> bool" where
  "plain_timing h s \<longleftrightarrow> use_icount s = 0 \<and> warps s = {} \<and> alarm_timer s \<noteq> None \<and> timer_gettime h \<noteq> None"

lemma plain_same: "same_timers s s' \<Longrightarrow> plain_timing h s' = plain_timing h s"
  by (simp add: plain_timing_def warps_def same_timers_def)

lemma get_clock_total:
  assumes "use_icount s = 0"
  obtains now s' where "qemu_get_clock_ns h c s = Inr (now, s')" "same_timers s s'"
proof -
  obtain now s' where "qemu_get_clock_ns h c s = Inr (now, s')"
    using assms by (cases c) (auto simp: qemu_get_clock_ns_def Let_def)
  then show ?thesis using that ensuresD[OF same_get_clock] by fastforce
qed

lemma head_delta_total:
  assumes "wf_timers s" "use_icount s = 0" "active_timers s c = ts # rest"
  obtains d s' where "head_delta h c ts s = Inr (d, s')" "same_timers s s'"
proof -
  obtain t where "tget s ts = Inr t" using assms(1,3) tget_owned[of s c ts] by (fastforce simp: wf_timers_def wf_active_def)
  moreover obtain now s' where "qemu_get_clock_ns h c s = Inr (now, s')" using get_clock_total[OF assms(2)] by blast
  ultimately have "head_delta h c ts s = Inr (expire_time t - now, s')" by (simp add: head_delta_def)
  then show ?thesis using that ensuresD[OF same_head_delta] by fastforce
qed

lemma min_delta_total:
  assumes "wf_timers s" "use_icount s = 0"
  obtains d s' where "min_delta h c delta s = Inr (d, s')" "same_timers s s'"
proof (cases "active_timers s c")
  case (Cons ts rest)
  from head_delta_total[OF assms Cons] obtain d s' where "head_delta h c ts s = Inr (d, s')" "same_timers s s'" by blast
  then show ?thesis using that Cons by (simp add: min_delta_def)
qed (use that in \<open>simp add: min_delta_def\<close>)

lemma alarm_deadline_total:
  assumes "wf_timers s" "use_icount s = 0"
  obtains d s' where "qemu_next_alarm_deadline h s = Inr (d, s')" "same_timers s s'"
proof -
  obtain d1 s1 where s1: "(case active_timers s QEMU_CLOCK_VIRTUAL of [] \<Rightarrow> Inr (INT32_MAX, s)
      | ts # _ \<Rightarrow> if use_icount s = 0 then head_delta h QEMU_CLOCK_VIRTUAL ts s else Inr (INT32_MAX, s)) = Inr (d1, s1)" "same_timers s s1"
  proof (cases "active_timers s QEMU_CLOCK_VIRTUAL")
    case (Cons ts rest)
    from head_delta_total[OF assms Cons] obtain d s' where "head_delta h QEMU_CLOCK_VIRTUAL ts s = Inr (d, s')" "same_timers s s'" by blast
    then show ?thesis using that Cons assms(2) by simp
  qed (use that in simp)
  have "wf_timers s1" "use_icount s1 = 0" using s1(2) assms by (simp_all add: same_wf) (simp add: same_timers_def)
  then obtain d2 s2 where s2: "min_delta h QEMU_CLOCK_HOST d1 s1 = Inr (d2, s2)" "same_timers s1 s2" using min_delta_total by blast
  have "wf_timers s2" "use_icount s2 = 0" using s2(2) \<open>wf_timers s1\<close> \<open>use_icount s1 = 0\<close> by (simp_all add: same_wf) (simp add: same_timers_def)
  then obtain d3 s3 where s3: "min_delta h QEMU_CLOCK_REALTIME d2 s2 = Inr (d3, s3)" "same_timers s2 s3" using min_delta_total by blast
  have "qemu_next_alarm_deadline h s = Inr (d3, s3)" unfolding qemu_next_alarm_deadline_def s1(1) by (simp add: s2 s3)
  then show ?thesis using that same_timers_trans[OF s1(2) same_timers_trans[OF s2(2) s3(2)]] by blast
qed

lemma rearm_total:
  assumes "wf_timers s" "plain_timing h s"
  obtains s' where "qemu_rearm_alarm_timer h a s = Inr s'" "same_timers s s'"
proof -
  obtain d s1 where "qemu_next_alarm_deadline h s = Inr (d, s1)"
    using alarm_deadline_total assms by (metis plain_timing_def)
  then have "\<exists>s'. qemu_rearm_alarm_timer h a s = Inr s'"
    using assms(2) by (auto simp: qemu_rearm_alarm_timer_def dynticks_rearm_timer_def unix_rearm_timer_def Let_def plain_timing_def
        split: alarm_kind.split)
  then show ?thesis using that ensuresD[OF same_rearm] by blast
qed

lemma mod_total:
  assumes "wf_timers s" "plain_timing h s" "tm_mem s ts = Some t"
  obtains s' where "qemu_mod_timer_ns h ts e s = Inr s'" "wf_timers s'" "pending_at s' = (pending_at s)(ts \<mapsto> e)"
    "plain_timing h s'" "owned s' = owned s" "tm_mem s' = (tm_mem s)(ts \<mapsto> t\<lparr>expire_time := e\<rparr>)"
proof -
  obtain s1 where s1: "place_timer ts e s = Inr s1" using place_timer_eq[OF assms(1,3)] by blast
  note p = place_timer_wf[OF assms(1,3) s1]
  have own: "owned s1 = owned s" using assms(3) by (auto simp: owned_def p(3) fun_eq_iff)
  have pl: "plain_timing h s1" using assms(2) by (simp add: plain_timing_def p warps_def)
  have t1: "tget s1 ts = Inr (t\<lparr>expire_time := e\<rparr>)" by (simp add: p(3) tget_def)
  have "\<exists>s'. qemu_mod_timer_ns h ts e s = Inr s' \<and> same_timers s1 s'"
  proof (cases "hd (active_timers s1 (tm_clock t)) = ts")
    case True
    obtain a where a: "alarm_timer s1 = Some a" using pl by (auto simp: plain_timing_def)
    obtain s2 where s2: "(if al_pending a then Inr s1 else qemu_rearm_alarm_timer h a s1) = Inr s2" "same_timers s1 s2"
    proof (cases "al_pending a")
      case False
      from rearm_total[OF p(1) pl] obtain s2 where "qemu_rearm_alarm_timer h a s1 = Inr s2" "same_timers s1 s2" by blast
      then show ?thesis using that False by simp
    qed (use that in simp)
    have "warps s2 = {}" "use_icount s2 = 0" using plain_same[OF s2(2)] pl by (auto simp: plain_timing_def)
    then have w2: "clock_warp f h c s2 = Inr s2" for f c by (simp add: clock_warp_def warps_def split: option.split)
    have "mod_timer_ns f h ts e s = Inr s2" for f
      unfolding mod_timer_ns_def s1 rbind_Inr t1 a deref_simps(2) s2(1) using True by (simp add: w2 \<open>use_icount s2 = 0\<close>)
    then show ?thesis using s2(2) by (simp add: qemu_mod_timer_ns_def numeral_2_eq_2)
  next
    case False
    then show ?thesis by (simp add: qemu_mod_timer_ns_def numeral_2_eq_2 mod_timer_ns_def s1 t1)
  qed
  then obtain s' where s': "qemu_mod_timer_ns h ts e s = Inr s'" "same_timers s1 s'" by blast
  have "owned s' = owned s" using own s'(2) by (simp add: same_timers_def owned_def fun_eq_iff)
  moreover have "tm_mem s' = (tm_mem s)(ts \<mapsto> t\<lparr>expire_time := e\<rparr>)" using p(3) s'(2) by (simp add: same_timers_def)
  ultimately show ?thesis using that[OF s'(1)] p(1,2) pl by (simp add: same_wf[OF s'(2)] same_pending[OF s'(2)] plain_same[OF s'(2)])
qed

section \<open>The interface to the devices\<close>

text \<open>
  What a device relies on: a table of pending times with total operations. A device never sees the lists.
\<close>

locale timer_table =
  fixes tab :: "'s \<Rightarrow> 'k \<rightharpoonup> 't"
    and arm :: "'k \<Rightarrow> 't \<Rightarrow> 's \<Rightarrow> 's result"
    and stop :: "'k \<Rightarrow> 's \<Rightarrow> 's result"
    and usable :: "'k \<Rightarrow> 's \<Rightarrow> bool"
  assumes arm_law: "usable k s \<Longrightarrow> \<exists>s'. arm k t s = Inr s' \<and> tab s' = (tab s)(k \<mapsto> t) \<and> (\<forall>j. usable j s \<longrightarrow> usable j s')"
    and stop_law: "usable k s \<Longrightarrow> \<exists>s'. stop k s = Inr s' \<and> tab s' = (tab s)(k := None) \<and> (\<forall>j. usable j s \<longrightarrow> usable j s')"
begin

primrec arm_all :: "('k \<times> 't) list \<Rightarrow> 's \<Rightarrow> 's result" where
  "arm_all [] s = Inr s"
| "arm_all (p # ps) s = rbind (arm (fst p) (snd p) s) (arm_all ps)"

lemma arm_all_law: "\<forall>(k, t) \<in> set ps. usable k s \<Longrightarrow> \<exists>s'. arm_all ps s = Inr s' \<and> tab s' = tab s ++ map_of (rev ps)"
proof (induction ps arbitrary: s)
  case (Cons p ps)
  obtain k t where p: "p = (k, t)" by (cases p)
  with Cons.prems arm_law[of k s t] obtain s1 where s1: "arm k t s = Inr s1" "tab s1 = (tab s)(k \<mapsto> t)" "\<forall>j. usable j s \<longrightarrow> usable j s1"
    by auto
  then have "\<forall>(k, t) \<in> set ps. usable k s1" using Cons.prems by auto
  from Cons.IH[OF this] obtain s' where "arm_all ps s1 = Inr s'" "tab s' = tab s1 ++ map_of (rev ps)" by blast
  then have "arm_all (p # ps) s = Inr s' \<and> tab s' = tab s ++ map_of (rev (p # ps))" using s1 by (simp add: p)
  then show ?case by blast
qed simp

lemma arm_stop: "usable k s \<Longrightarrow> tab s k = None \<Longrightarrow> \<exists>s'. rbind (arm k t s) (stop k) = Inr s' \<and> tab s' = tab s"
  using arm_law[of k s t] stop_law[of k] by (metis fun_upd_triv fun_upd_upd rbind_Inr)

end

definition usable_timer :: "outside \<Rightarrow> timer \<Rightarrow> tm_state \<Rightarrow> bool" where
  "usable_timer h ts s \<longleftrightarrow> wf_timers s \<and> plain_timing h s \<and> tm_mem s ts \<noteq> None"

interpretation tt: timer_table pending_at "qemu_mod_timer_ns h" qemu_del_timer "usable_timer h" for h
proof
  fix ts e s assume u: "usable_timer h ts s"
  then obtain t where t: "wf_timers s" "plain_timing h s" "tm_mem s ts = Some t" by (auto simp: usable_timer_def)
  obtain s' where "qemu_mod_timer_ns h ts e s = Inr s'" "wf_timers s'" "pending_at s' = (pending_at s)(ts \<mapsto> e)" "plain_timing h s'"
      "tm_mem s' = (tm_mem s)(ts \<mapsto> t\<lparr>expire_time := e\<rparr>)"
    using mod_total[OF t, of e] by auto
  then show "\<exists>s'. qemu_mod_timer_ns h ts e s = Inr s' \<and> pending_at s' = (pending_at s)(ts \<mapsto> e) \<and> (\<forall>j. usable_timer h j s \<longrightarrow> usable_timer h j s')"
    by (auto simp: usable_timer_def)
  let ?d = "set_active (tm_clock t) (remove1 ts (active_timers s (tm_clock t))) s"
  have "qemu_del_timer ts s = Inr ?d" using t(3) by (simp add: qemu_del_timer_def tget_def)
  moreover have "plain_timing h ?d" "tm_mem ?d = tm_mem s" using t(2) by (simp_all add: plain_timing_def warps_def set_active_def)
  ultimately show "\<exists>s'. qemu_del_timer ts s = Inr s' \<and> pending_at s' = (pending_at s)(ts := None) \<and> (\<forall>j. usable_timer h j s \<longrightarrow> usable_timer h j s')"
    using wf_del[OF t(1,3) refl] by (auto simp: usable_timer_def)
qed

section \<open>Running the timers\<close>

definition due :: "i64 \<Rightarrow> tm_state \<Rightarrow> clock_type \<Rightarrow> timer set" where
  "due now s c = {ts \<in> set (active_timers s c). expiry s ts \<le> sint now}"

text \<open>A call-back that returns and arms no timer of the clock for a time that has come.\<close>

definition good_cb :: "(timer \<Rightarrow> tm_state \<times> 'w \<Rightarrow> (tm_state \<times> 'w) result) \<Rightarrow> clock_type \<Rightarrow> i64 \<Rightarrow> bool" where
  "good_cb cb c now \<longleftrightarrow>
     (\<forall>ts s w. wf_timers s \<longrightarrow> owned s c ts \<longrightarrow>
        (\<exists>s' w'. cb ts (s, w) = Inr (s', w') \<and> wf_timers s' \<and> due now s' c \<subseteq> due now s c))"

lemma pop_expiry: "expiry (set_active c rest s) = expiry s" "owned (set_active c rest s) = owned s"
  by (simp_all add: expiry_def[abs_def] owned_def[abs_def] set_active_def)

lemma run_loop_step:
  assumes "wf_timers s" "active_timers s c = ts # rest"
  shows "run_timers_loop cb c now (s, w) =
    (if expiry s ts \<le> sint now then
       (case cb ts (set_active c rest s, w) of Inl e \<Rightarrow> Some (Inl e) | Inr w' \<Rightarrow> run_timers_loop cb c now w')
     else Some (Inr (s, w)))"
proof -
  obtain t where "tm_mem s ts = Some t" "expiry s ts = sint (expire_time t)"
    using assms tget_owned[of s c ts] by (fastforce simp: wf_timers_def wf_active_def)
  then show ?thesis using assms(2) by (simp add: run_timers_loop.simps[of cb c now "(s, w)"])
qed

lemma run_loop_serves:
  assumes "good_cb cb c now" "wf_timers s"
  shows "\<exists>s' w'. run_timers_loop cb c now (s, w) = Some (Inr (s', w')) \<and> wf_timers s' \<and> due now s' c = {}"
  using assms(2)
proof (induction "card (due now s c)" arbitrary: s w rule: less_induct)
  case less
  have wfa: "wf_active s c" using less.prems by (simp add: wf_timers_def)
  show ?case
  proof (cases "active_timers s c")
    case Nil
    then show ?thesis using less.prems by (simp add: run_timers_loop.simps[of cb c now "(s, w)"] due_def)
  next
    case (Cons ts rest)
    note step = run_loop_step[OF less.prems Cons, of cb now w]
    show ?thesis
    proof (cases "expiry s ts \<le> sint now")
      case True
      let ?s = "set_active c rest s"
      have wf: "wf_timers ?s" by (rule wf_pop[OF less.prems Cons])
      have "owned ?s c ts" using wfa Cons by (simp add: pop_expiry wf_active_def)
      then obtain s' w' where s': "cb ts (?s, w) = Inr (s', w')" "wf_timers s'" "due now s' c \<subseteq> due now ?s c"
        using assms(1) wf unfolding good_cb_def by blast
      have "due now ?s c = due now s c - {ts}"
        using Cons wfa by (auto simp: due_def pop_expiry wf_active_def) (auto simp: set_active_def)
      moreover have "ts \<in> due now s c" "finite (due now s c)" using Cons True by (simp_all add: due_def)
      ultimately have "card (due now s' c) < card (due now s c)"
        using s'(3) by (intro psubset_card_mono) auto
      from less.hyps[OF this s'(2), of w'] show ?thesis using True s'(1) step by simp
    next
      case False
      have "due now s c = {}"
        using False wfa Cons by (fastforce simp: due_def wf_active_def)
      then show ?thesis using False step less.prems by simp
    qed
  qed
qed

text \<open>Call-backs that leave the timers alone run in the order of expiry, those of one time in the order of arming.\<close>

lemma run_loop_order:
  assumes "\<And>ts s w. cb ts (s, w) = Inr (s, f ts w)" "wf_timers s" "active_timers s c = l"
  shows "run_timers_loop cb c now (s, w) =
    Some (Inr (set_active c (dropWhile (\<lambda>ts. expiry s ts \<le> sint now) l) s, fold f (takeWhile (\<lambda>ts. expiry s ts \<le> sint now) l) w))"
  using assms(2,3)
proof (induction l arbitrary: s w)
  case Nil
  then show ?case by (simp add: run_timers_loop.simps[of cb c now "(s, w)"] set_active_def fun_upd_idem)
next
  case (Cons ts l)
  have "active_timers (set_active c l s) c = l" by (simp add: set_active_def)
  note IH = Cons.IH[OF wf_pop[OF Cons.prems] this]
  show ?case
    using run_loop_step[OF Cons.prems, of cb now w] IH[of "f ts w"] Cons.prems(2)
    by (simp add: assms(1) pop_expiry) (simp add: set_active_def fun_upd_idem)
qed

text \<open>A set of states in which there is always a timer due is never left.\<close>

lemma run_loop_hangs:
  assumes "P w" and "\<And>w. P w \<Longrightarrow> \<exists>ts rest t w'. active_timers (fst w) c = ts # rest \<and> tm_mem (fst w) ts = Some t \<and>
      sint (expire_time t) \<le> sint now \<and> cb ts (set_active c rest (fst w), snd w) = Inr w' \<and> P w'"
  shows "run_timers_loop cb c now w = None"
proof -
  have "cb' = cb \<longrightarrow> c' = c \<longrightarrow> now' = now \<longrightarrow> \<not> P w" if "run_timers_loop cb' c' now' w = Some r" for cb' c' now' w r
    using that
  proof (rule run_timers_loop.raw_induct[rotated], intro impI notI, goal_cases)
    case (1 f cb' c' now' w r)
    from assms(2)[OF 1(7)] obtain ts rest t w' where "active_timers (fst w) c = ts # rest" "tm_mem (fst w) ts = Some t"
        "sint (expire_time t) \<le> sint now" "cb ts (set_active c rest (fst w), snd w) = Inr w'" "P w'" by blast
    then have "f cb c now w' = Some r" "P w'" using 1(2,4-6) by simp_all
    then show False using 1(1)[of cb c now w' r] by simp
  qed
  from this[of cb c now w] show ?thesis using assms(1) by (cases "run_timers_loop cb c now w") auto
qed

section \<open>Properties\<close>

definition sample_outside :: outside where
  "sample_outside = \<lparr>get_clock = 100, get_clock_realtime = 100, cpu_get_real_ticks = 0, timer_gettime = Some 0,
     all_cpu_threads_idle = False, env_icount = None\<rparr>"

text \<open>Two timers of the virtual clock, one armed for 50 and one for 200.\<close>

definition sample_timers :: tm_state where
  "sample_timers = (tm_init sample_outside)
     \<lparr>tm_mem := [0 \<mapsto> \<lparr>tm_clock = QEMU_CLOCK_VIRTUAL, expire_time = 50, tm_scale = 1\<rparr>,
                 1 \<mapsto> \<lparr>tm_clock = QEMU_CLOCK_VIRTUAL, expire_time = 200, tm_scale = 1\<rparr>],
      tm_next := 2, active_timers := (\<lambda>c. [])(QEMU_CLOCK_VIRTUAL := [0, 1]), cpu_ticks_enabled := True,
      alarm_timer := Some \<lparr>al_kind = Dynticks, al_expired = False, al_pending = False\<rparr>\<rparr>"

lemma sample_timers_wf: "wf_timers sample_timers" "plain_timing sample_outside sample_timers"
  by (auto simp: sample_timers_def tm_init_def init_clocks_def qemu_new_clock_def wf_timers_def wf_active_def wf_warp_def
      owned_def expiry_def plain_timing_def warps_def sample_outside_def)


text \<open>A timer armed for 200 and then one for 50, through the calls.\<close>

lemma two_timers_reach:
  "\<exists>s. tm_reach s \<and> pending_at s 0 = Some 200 \<and> pending_at s 1 = Some 50"
proof -
  let ?v = "QEMU_CLOCK_VIRTUAL"
  let ?a = "snd (init_timer_alarm (\<lambda>k. True) (tm_init sample_outside))"
  let ?s = "snd (qemu_new_timer ?v 1 (snd (qemu_new_timer ?v 1 ?a)))"
  have r: "tm_reach ?s" by (intro tm_reach.new tm_reach.alarm tm_reach.start)
  have m: "tm_mem ?s 0 = Some \<lparr>tm_clock = ?v, expire_time = 0, tm_scale = 1\<rparr>" "tm_mem ?s 1 = Some \<lparr>tm_clock = ?v, expire_time = 0, tm_scale = 1\<rparr>"
    "plain_timing sample_outside ?s"
    by (simp_all add: qemu_new_timer_def init_timer_alarm_def tm_init_def init_clocks_def qemu_new_clock_def plain_timing_def warps_def sample_outside_def)
  obtain s1 where s1: "qemu_mod_timer_ns sample_outside 0 200 ?s = Inr s1" "plain_timing sample_outside s1"
      "pending_at s1 = (pending_at ?s)(0 \<mapsto> 200)" "tm_mem s1 = (tm_mem ?s)(0 \<mapsto> \<lparr>tm_clock = ?v, expire_time = 200, tm_scale = 1\<rparr>)"
    using mod_total[OF tm_reach_wf[OF r] m(3,1), of 200] by auto
  have r1: "tm_reach s1" by (rule tm_reach.modify[OF r, of sample_outside 0 200]) (use m(1) s1(1) in \<open>simp add: qemu_mod_timer_def tget_def\<close>)
  have m1: "tm_mem s1 1 = Some \<lparr>tm_clock = ?v, expire_time = 0, tm_scale = 1\<rparr>" using s1(4) m(2) by simp
  obtain s2 where s2: "qemu_mod_timer_ns sample_outside 1 50 s1 = Inr s2" "pending_at s2 = (pending_at s1)(1 \<mapsto> 50)"
    using mod_total[OF tm_reach_wf[OF r1] s1(2) m1, of 50] by auto
  have "tm_reach s2" by (rule tm_reach.modify[OF r1, of sample_outside 1 50]) (use m1 s2(1) in \<open>simp add: qemu_mod_timer_def tget_def\<close>)
  then show ?thesis using s1(3) s2(2) by auto
qed


text \<open>
  C21: The timers implement a table of pending times. Without instruction counting, arming a timer returns and
  enters its scaled time, whether it was pending or not; stopping it removes its entry; asking tells whether there is
  one. Nothing else changes.
\<close>

theorem timers_refine_table:
  assumes "wf_timers s" "plain_timing h s" "tm_mem s ts = Some t"
  shows "(\<exists>s'. qemu_mod_timer h ts e s = Inr s' \<and> wf_timers s' \<and> plain_timing h s' \<and>
            pending_at s' = (pending_at s)(ts \<mapsto> e * scast (tm_scale t))) \<and>
    (\<exists>s'. qemu_del_timer ts s = Inr s' \<and> wf_timers s' \<and> pending_at s' = (pending_at s)(ts := None)) \<and>
    qemu_timer_pending ts s = Inr (pending_at s ts \<noteq> None)"
proof (intro conjI)
  have u: "usable_timer h ts s" using assms by (simp add: usable_timer_def)
  show "\<exists>s'. qemu_mod_timer h ts e s = Inr s' \<and> wf_timers s' \<and> plain_timing h s' \<and>
      pending_at s' = (pending_at s)(ts \<mapsto> e * scast (tm_scale t))"
    using tt.arm_law[OF u, of "e * scast (tm_scale t)"] u assms(3) by (auto simp: qemu_mod_timer_def tget_def usable_timer_def)
  show "\<exists>s'. qemu_del_timer ts s = Inr s' \<and> wf_timers s' \<and> pending_at s' = (pending_at s)(ts := None)"
    using tt.stop_law[OF u] u by (auto simp: usable_timer_def)
  show "qemu_timer_pending ts s = Inr (pending_at s ts \<noteq> None)"
    using assms(3) by (simp add: qemu_timer_pending_def tget_def pending_at_def)
qed

theorem timers_refine_table_witness:
  "(\<exists>s'. qemu_mod_timer sample_outside 1 20 sample_timers = Inr s' \<and> wf_timers s' \<and> plain_timing sample_outside s' \<and>
      pending_at s' = (pending_at sample_timers)(1 \<mapsto> 20)) \<and>
   (\<exists>s'. qemu_del_timer 1 sample_timers = Inr s' \<and> wf_timers s' \<and> pending_at s' = (pending_at sample_timers)(1 := None)) \<and>
   qemu_timer_pending 1 sample_timers = Inr True"
proof -
  have m: "tm_mem sample_timers 1 = Some \<lparr>tm_clock = QEMU_CLOCK_VIRTUAL, expire_time = 200, tm_scale = 1\<rparr>" by (simp add: sample_timers_def)
  have "pending_at sample_timers 1 \<noteq> None" by (simp add: pending_at_def sample_timers_def)
  then show ?thesis using timers_refine_table[OF sample_timers_wf m, of 20] by simp
qed

text \<open>
  C20: Running the timers of a clock ends, if the call-backs do not arm timers for a time that has come, and
  afterwards every timer that is still pending on the clock lies in the future.
\<close>

theorem run_timers_serves_all:
  assumes "wf_timers s" "clk_enabled (clocks s c)" "qemu_get_clock_ns h c s = Inr (now, s1)" "good_cb cb c now"
  shows "\<exists>s' w'. qemu_run_timers h cb c (s, w) = Some (Inr (s', w')) \<and> wf_timers s' \<and>
    (\<forall>ts e. owned s' c ts \<and> pending_at s' ts = Some e \<longrightarrow> sint now < sint e)"
proof -
  from run_loop_serves[OF assms(4) wf_read[OF assms(1,3)], of w]
  obtain s' w' where s': "run_timers_loop cb c now (s1, w) = Some (Inr (s', w'))" "wf_timers s'" "due now s' c = {}" by blast
  have "\<forall>ts e. owned s' c ts \<and> pending_at s' ts = Some e \<longrightarrow> sint now < sint e"
    using s'(3) by (fastforce simp: due_def owned_def pending_at_def expiry_def split: if_splits)
  then show ?thesis using assms(2,3) s'(1,2) by (simp add: qemu_run_timers_def)
qed

theorem run_timers_serves_all_witness:
  "\<exists>s' w'. qemu_run_timers sample_outside (\<lambda>ts (s, w). Inr (s, w @ [ts])) QEMU_CLOCK_VIRTUAL (sample_timers, []) = Some (Inr (s', w')) \<and>
     wf_timers s' \<and> (\<forall>ts e. owned s' QEMU_CLOCK_VIRTUAL ts \<and> pending_at s' ts = Some e \<longrightarrow> sint (100 :: i64) < sint e)"
  by (rule run_timers_serves_all[OF sample_timers_wf(1), where ?s1.0 = sample_timers])
     (auto simp: good_cb_def qemu_get_clock_ns_def cpu_get_clock_def sample_timers_def tm_init_def init_clocks_def
       qemu_new_clock_def sample_outside_def)

text \<open>
  C23: A guest clock that warps can crash the emulator. While a warp is under way, every timer of the virtual clock may
  be stopped; the end of the warp then reads the scale of the first timer of an empty list.
\<close>

theorem warp_empty_crashes:
  assumes "vm_clock_warp_start s \<noteq> - 1" "vm_running s" "use_icount s = 1" "0 \<le> sint (icount_time_shift s)" "sint (icount_time_shift s) < 64"
    and "active_timers s QEMU_CLOCK_VIRTUAL = [ts]" "tm_mem s ts = Some t" "tm_clock t = QEMU_CLOCK_VIRTUAL"
  shows "rbind (qemu_del_timer ts s) (icount_warp_rt h) = Inl Null_Deref"
  using assms
  by (simp add: qemu_del_timer_def tget_def set_active_def icount_warp_rt_def qemu_get_clock_ns_def cpu_get_icount_def shl64_def
      Let_def qemu_timer_expired_def)

theorem warp_empty_crashes_witness:
  "rbind (qemu_del_timer 0 (sample_timers\<lparr>vm_running := True, use_icount := 1, active_timers := (\<lambda>c. [])(QEMU_CLOCK_VIRTUAL := [0])\<rparr>))
     (icount_warp_rt sample_outside) = Inl Null_Deref"
  by (rule warp_empty_crashes[where t="\<lparr>tm_clock = QEMU_CLOCK_VIRTUAL, expire_time = 50, tm_scale = 1\<rparr>"])
     (simp_all add: sample_timers_def tm_init_def init_clocks_def)

text \<open>
  Stopping the machine stops the virtual clock, and starting it again continues it: after a stop the clock shows
  the time of the stop whenever it is read, and after a start it shows that time plus the host's time since the start.
\<close>

theorem vm_clock_stops:
  assumes "use_icount s = 0" "cpu_ticks_enabled s" "cpu_disable_ticks h s = Inr s1"
  shows "qemu_get_clock_ns h1 QEMU_CLOCK_VIRTUAL s1 = Inr (cpu_get_clock h s, s1) \<and>
    qemu_get_clock_ns h3 QEMU_CLOCK_VIRTUAL (cpu_enable_ticks h2 s1) =
      Inr (cpu_get_clock h s + (get_clock h3 - get_clock h2), cpu_enable_ticks h2 s1)"
  using assms
  by (auto simp: cpu_disable_ticks_def cpu_get_ticks_def Let_def qemu_get_clock_ns_def cpu_get_clock_def cpu_enable_ticks_def split: if_splits)

theorem vm_clock_stops_witness:
  "\<exists>s1. qemu_get_clock_ns sample_outside QEMU_CLOCK_VIRTUAL s1 = Inr (100, s1) \<and>
    qemu_get_clock_ns (sample_outside\<lparr>get_clock := 350\<rparr>) QEMU_CLOCK_VIRTUAL (cpu_enable_ticks (sample_outside\<lparr>get_clock := 300\<rparr>) s1) =
      Inr (150, cpu_enable_ticks (sample_outside\<lparr>get_clock := 300\<rparr>) s1)"
proof -
  have c: "cpu_get_clock sample_outside sample_timers = 100" "use_icount sample_timers = 0" "cpu_ticks_enabled sample_timers"
    by (simp_all add: cpu_get_clock_def sample_outside_def sample_timers_def tm_init_def init_clocks_def)
  obtain s1 where "cpu_disable_ticks sample_outside sample_timers = Inr s1"
    using c by (auto simp: cpu_disable_ticks_def cpu_get_ticks_def Let_def)
  from vm_clock_stops[OF c(2,3) this, of sample_outside "sample_outside\<lparr>get_clock := 350\<rparr>" "sample_outside\<lparr>get_clock := 300\<rparr>"]
  show ?thesis using c(1) by auto
qed

end
