(* ===== verification/SysTick_Service.thy ===== *)
theory SysTick_Service
  imports Timer_Service ARMv7M_NVIC Stellaris_Sys
begin

text \<open>
  The system timer on the timers of the emulator: the call-back of \<^verbatim>\<open>hw/armv7m_nvic.c\<close> composed with the run loop
  of \<^verbatim>\<open>qemu-timer.c\<close> and with the clock that the board sets. With a period that is not zero the loop catches up
  with the time; with a period of zero it never returns.
\<close>

section \<open>The call-back\<close>

text \<open>The timer has been taken from the list when the call-back runs; the call-back arms it again unless the reload value is zero.\<close>

definition systick_cb :: "outside \<Rightarrow> i32 \<Rightarrow> timer \<Rightarrow> timer \<Rightarrow> tm_state \<times> nvic_state \<Rightarrow> (tm_state \<times> nvic_state) result" where
  "systick_cb h scale tick_timer ts = (\<lambda>(tm, n).
     if ts = tick_timer then
       rbind (systick_timer_tick scale 0 (n\<lparr>st_timer := None\<rparr>)) (\<lambda>n.
       case st_timer n of
         None \<Rightarrow> Inr (tm, n)
       | Some e \<Rightarrow> rbind (qemu_mod_timer h ts e tm) (\<lambda>tm. Inr (tm, n)))
     else Inr (tm, n))"

definition systick_period :: "i32 \<Rightarrow> nvic_state \<Rightarrow> i64" where
  "systick_period scale n = ucast (st_reload n + 1) * systick_scale scale n"

text \<open>The timer is armed for \<open>e\<close>, and no other timer of the virtual clock is active.\<close>

definition armed :: "outside \<Rightarrow> timer \<Rightarrow> i64 \<Rightarrow> tm_state \<times> nvic_state \<Rightarrow> bool" where
  "armed h ts e = (\<lambda>(tm, n). wf_timers tm \<and> plain_timing h tm \<and> active_timers tm QEMU_CLOCK_VIRTUAL = [ts] \<and>
     tm_mem tm ts = Some \<lparr>tm_clock = QEMU_CLOCK_VIRTUAL, expire_time = e, tm_scale = 1\<rparr> \<and>
     wf_gic nvic_config (nv_gic n) \<and> st_tick n = e)"

lemma single_list: "set xs = {a} \<Longrightarrow> distinct xs \<Longrightarrow> xs = [a]"
  by (cases xs; cases "tl xs") auto

lemma active_from_pending:
  assumes "wf_timers s" "\<And>x. owned s c x \<and> pending_at s x \<noteq> None \<longleftrightarrow> x = ts"
  shows "active_timers s c = [ts]"
proof -
  have w: "wf_active s c" using assms(1) by (simp add: wf_timers_def)
  have "set (active_timers s c) = {ts}"
  proof (rule set_eqI)
    fix x
    have "x \<in> set (active_timers s c) \<longleftrightarrow> owned s c x \<and> pending_at s x \<noteq> None"
      using w by (auto simp: wf_active_def owned_def pending_at_def split: option.splits if_splits)
    then show "x \<in> set (active_timers s c) \<longleftrightarrow> x \<in> {ts}" using assms(2) by simp
  qed
  moreover have "distinct (active_timers s c)" using w by (simp add: wf_active_def)
  ultimately show ?thesis by (rule single_list)
qed

lemma pending_private:
  assumes "wf_gic nvic_config g" "irq < 96"
  obtains g' where "gic_set_pending_private nvic_config 0 irq g = Inr g'" "wf_gic nvic_config g'" "GIC_TEST_PENDING 1 (irq_state g' ! irq)"
proof (cases "GIC_TEST_PENDING 1 (irq_state g ! irq)")
  case True
  then show ?thesis using that[of g] assms test_irq_eq[OF assms(1), of irq] by (simp add: gic_set_pending_private_def)
next
  case False
  let ?i = "(irq_state g ! irq)\<lparr>irq_pending := (irq_pending (irq_state g ! irq) OR 1) AND ALL_CPU_MASK nvic_config\<rparr>"
  let ?g = "g\<lparr>irq_state := (irq_state g)[irq := ?i]\<rparr>"
  have "wf_gic nvic_config ?g" using assms(1) by (simp only: wf_upd_irq)
  then obtain g' where g': "gic_update nvic_config ?g = Inr g'" "same_but_lines ?g g'" "wf_gic nvic_config g'" by (rule gic_update_eq)
  have "irq_state g' ! irq = ?i" using g'(2) assms by (simp add: same_but_lines_def wf_gic_def)
  moreover have "(w OR 1) AND 1 AND 1 \<noteq> 0" for w :: u32 by (simp add: bit_eq_iff bit_simps) (rule exI[of _ 0], simp)
  ultimately have "GIC_TEST_PENDING 1 (irq_state g' ! irq)" by (simp add: GIC_TEST_PENDING_def ALL_CPU_MASK_def)
  moreover have "gic_set_pending_private nvic_config 0 irq g = Inr g'"
    using False g'(1) test_irq_eq[OF assms(1), of irq] with_irq_eq[OF assms(1), of irq] assms(2)
    by (simp add: gic_set_pending_private_def GIC_SET_PENDING_def)
  ultimately show ?thesis using that g'(3) by blast
qed

lemma tick_step:
  assumes "wf_gic nvic_config (nv_gic n)" "st_reload n \<noteq> 0"
  obtains n' where "systick_timer_tick scale now (n\<lparr>st_timer := None\<rparr>) = Inr n'" "wf_gic nvic_config (nv_gic n')"
    "st_tick n' = st_tick n + systick_period scale n" "st_timer n' = Some (st_tick n')" "st_reload n' = st_reload n"
    "st_control n' = set_bit 16 (st_control n)" "systick_period scale n' = systick_period scale n"
    "bit (st_control n) 1 \<longrightarrow> GIC_TEST_PENDING 1 (irq_state (nv_gic n') ! 15)"
proof -
  let ?n = "n\<lparr>st_timer := None, st_control := set_bit 16 (st_control n)\<rparr>"
  obtain g' where g': "gic_set_pending_private nvic_config 0 15 (nv_gic n) = Inr g'" "wf_gic nvic_config g'" "GIC_TEST_PENDING 1 (irq_state g' ! 15)"
    using pending_private[OF assms(1), of 15] by auto
  let ?g = "if bit (st_control n) 1 then g' else nv_gic n"
  have b: "bit (set_bit 16 (st_control n)) (Suc 0) = bit (st_control n) (Suc 0)" "bit (set_bit 16 (st_control n)) 2 = bit (st_control n) 2"
    by (simp_all add: bit_simps)
  have p: "(if bit (st_control ?n) 1 then armv7m_nvic_set_pending 15 ?n else Inr ?n) = Inr (?n\<lparr>nv_gic := ?g\<rparr>)"
    using g'(1) by (simp add: b armv7m_nvic_set_pending_def on_gic_def)
  have "systick_timer_tick scale now (n\<lparr>st_timer := None\<rparr>) = Inr (systick_reload scale now False (?n\<lparr>nv_gic := ?g\<rparr>))"
    using p assms(2) by (simp add: systick_timer_tick_def Let_def)
  then show ?thesis
    by (rule that) (use assms(1) g'(2,3) b in \<open>auto simp: systick_reload_def Let_def systick_period_def systick_scale_def\<close>)
qed

lemma scast_one [simp]: "(scast (1 :: i32) :: i64) = 1"
  by simp

lemma armed_step:
  assumes "armed h ts e (tm, n)" "st_reload n \<noteq> 0"
  obtains tm' n' where "systick_cb h scale ts ts (set_active QEMU_CLOCK_VIRTUAL [] tm, n) = Inr (tm', n')"
    "armed h ts (e + systick_period scale n) (tm', n')" "st_reload n' = st_reload n" "st_control n' = set_bit 16 (st_control n)"
    "systick_period scale n' = systick_period scale n" "bit (st_control n) 1 \<longrightarrow> GIC_TEST_PENDING 1 (irq_state (nv_gic n') ! 15)"
proof -
  let ?tm = "set_active QEMU_CLOCK_VIRTUAL [] tm" and ?e = "e + systick_period scale n"
  let ?t = "\<lparr>tm_clock = QEMU_CLOCK_VIRTUAL, expire_time = e, tm_scale = 1\<rparr>"
  have a: "wf_timers tm" "plain_timing h tm" "active_timers tm QEMU_CLOCK_VIRTUAL = [ts]" "tm_mem tm ts = Some ?t"
    "wf_gic nvic_config (nv_gic n)" "st_tick n = e"
    using assms(1) by (simp_all add: armed_def)
  have wf: "wf_timers ?tm" by (rule wf_pop[OF a(1,3)])
  have pl: "plain_timing h ?tm" using a(2) by (simp add: plain_timing_def warps_def set_active_def)
  have mem: "tm_mem ?tm ts = Some ?t" using a(4) by (simp add: set_active_def)
  obtain n' where n': "systick_timer_tick scale 0 (n\<lparr>st_timer := None\<rparr>) = Inr n'" "wf_gic nvic_config (nv_gic n')"
    "st_tick n' = ?e" "st_timer n' = Some ?e" "st_reload n' = st_reload n" "st_control n' = set_bit 16 (st_control n)"
    "systick_period scale n' = systick_period scale n" "bit (st_control n) 1 \<longrightarrow> GIC_TEST_PENDING 1 (irq_state (nv_gic n') ! 15)"
    using tick_step[OF a(5) assms(2), of scale 0] a(6) by metis
  obtain tm' where tm': "qemu_mod_timer_ns h ts ?e ?tm = Inr tm'" "wf_timers tm'" "pending_at tm' = (pending_at ?tm)(ts \<mapsto> ?e)"
      "plain_timing h tm'" "owned tm' = owned ?tm" "tm_mem tm' = (tm_mem ?tm)(ts \<mapsto> ?t\<lparr>expire_time := ?e\<rparr>)"
    using mod_total[OF wf pl mem, of ?e] by metis
  have none: "pending_at ?tm x = None" if "owned ?tm QEMU_CLOCK_VIRTUAL x" for x
    using that by (auto simp: pending_at_def owned_def set_active_def)
  have "active_timers tm' QEMU_CLOCK_VIRTUAL = [ts]"
  proof (rule active_from_pending[OF tm'(2)])
    show "owned tm' QEMU_CLOCK_VIRTUAL x \<and> pending_at tm' x \<noteq> None \<longleftrightarrow> x = ts" for x
      using none[of x] mem unfolding tm'(3,5) by (cases "x = ts") (auto simp: owned_def)
  qed
  then have "armed h ts ?e (tm', n')" using tm'(2,4,6) n'(2,3) by (simp add: armed_def)
  moreover have "systick_cb h scale ts ts (?tm, n) = Inr (tm', n')"
    using n'(1,4) tm'(1) mem by (simp add: systick_cb_def qemu_mod_timer_def tget_def)
  ultimately show ?thesis using that n'(5-8) by blast
qed

lemma armed_run:
  assumes "armed h ts e (tm, n)" "st_reload n \<noteq> 0"
  shows "run_timers_loop (systick_cb h scale ts) QEMU_CLOCK_VIRTUAL now (tm, n) =
    (if sint e \<le> sint now then
       (case systick_cb h scale ts ts (set_active QEMU_CLOCK_VIRTUAL [] tm, n) of
          Inl f \<Rightarrow> Some (Inl f) | Inr w \<Rightarrow> run_timers_loop (systick_cb h scale ts) QEMU_CLOCK_VIRTUAL now w)
     else Some (Inr (tm, n)))"
proof -
  have a: "wf_timers tm" "active_timers tm QEMU_CLOCK_VIRTUAL = [ts]" and e: "expiry tm ts = sint e"
    using assms(1) by (simp_all add: armed_def expiry_def)
  show ?thesis using run_loop_step[OF a, of "systick_cb h scale ts" now n] unfolding e .
qed

lemma sint_plus: "- (2 ^ 63) \<le> sint a + sint b \<Longrightarrow> sint a + sint b < 2 ^ 63 \<Longrightarrow> sint (a + b :: i64) = sint a + sint b"
  by (simp add: sint_word_ariths signed_take_bit_int_eq_self)

lemma next_multiple:
  fixes d p :: int
  assumes "0 < p" "p \<le> d"
  shows "p + ((d - p) div p + 1) * p = (d div p + 1) * p"
proof -
  have "d div p = (d - p) div p + 1" using div_add_self2[of p "d - p"] assms(1) by simp
  then show ?thesis by (simp add: distrib_right)
qed

section \<open>Catching up\<close>

lemma catches_up:
  assumes "0 < sint (systick_period scale n)" "sint now + sint (systick_period scale n) < 2 ^ 63"
    and "armed h ts e (tm, n)" "st_reload n \<noteq> 0" "sint e \<le> sint now"
  shows "\<exists>tm' n' e'. run_timers_loop (systick_cb h scale ts) QEMU_CLOCK_VIRTUAL now (tm, n) = Some (Inr (tm', n')) \<and> armed h ts e' (tm', n') \<and>
    sint e' = sint e + ((sint now - sint e) div sint (systick_period scale n) + 1) * sint (systick_period scale n) \<and>
    bit (st_control n') 16 \<and> (bit (st_control n) 1 \<longrightarrow> GIC_TEST_PENDING 1 (irq_state (nv_gic n') ! 15))"
  using assms
proof (induction "nat (sint now - sint e)" arbitrary: tm n e rule: less_induct)
  case less
  let ?p = "systick_period scale n"
  obtain tm1 n1 where s: "systick_cb h scale ts ts (set_active QEMU_CLOCK_VIRTUAL [] tm, n) = Inr (tm1, n1)"
      "armed h ts (e + ?p) (tm1, n1)" "st_reload n1 = st_reload n" "st_control n1 = set_bit 16 (st_control n)"
      "systick_period scale n1 = ?p" "bit (st_control n) 1 \<longrightarrow> GIC_TEST_PENDING 1 (irq_state (nv_gic n1) ! 15)"
    by (rule armed_step[OF less.prems(3,4)])
  have b: "bit (st_control n1) 16" "bit (st_control n1) 1 = bit (st_control n) 1" using s(4) by (simp_all add: bit_simps)
  have "- (2 ^ 63) \<le> sint e" using sint_ge[of e] by simp
  then have e1: "sint (e + ?p) = sint e + sint ?p" using less.prems(1,2,5) by (intro sint_plus) simp_all
  have r: "run_timers_loop (systick_cb h scale ts) QEMU_CLOCK_VIRTUAL now (tm, n) =
      run_timers_loop (systick_cb h scale ts) QEMU_CLOCK_VIRTUAL now (tm1, n1)"
    using armed_run[OF less.prems(3,4)] less.prems(5) s(1) by simp
  show ?case
  proof (cases "sint (e + ?p) \<le> sint now")
    case True
    have m: "nat (sint now - sint (e + ?p)) < nat (sint now - sint e)" using less.prems(1) e1 True by simp
    obtain tm' n' e' where t: "run_timers_loop (systick_cb h scale ts) QEMU_CLOCK_VIRTUAL now (tm1, n1) = Some (Inr (tm', n'))" "armed h ts e' (tm', n')"
      "sint e' = sint (e + ?p) + ((sint now - sint (e + ?p)) div sint ?p + 1) * sint ?p" "bit (st_control n') 16"
      "bit (st_control n1) 1 \<longrightarrow> GIC_TEST_PENDING 1 (irq_state (nv_gic n') ! 15)"
      using less.hyps[OF m, of n1 tm1] less.prems(1,2,4) s True by auto
    have "sint e' = sint e + ((sint now - sint e) div sint ?p + 1) * sint ?p"
      using t(3) next_multiple[OF less.prems(1), of "sint now - sint e"] True unfolding e1 by (simp add: algebra_simps)
    then show ?thesis using r t(1,2,4,5) b(2) by auto
  next
    case False
    then have "(sint now - sint e) div sint ?p = 0" using less.prems(5) e1 by (intro div_pos_pos_trivial) simp_all
    then have "sint (e + ?p) = sint e + ((sint now - sint e) div sint ?p + 1) * sint ?p" using e1 by simp
    moreover have "run_timers_loop (systick_cb h scale ts) QEMU_CLOCK_VIRTUAL now (tm1, n1) = Some (Inr (tm1, n1))"
      using armed_run[OF s(2)] less.prems(4) s(3) False by simp
    ultimately show ?thesis using r s(2,6) b(1) by (intro exI[of _ tm1] exI[of _ n1] exI[of _ "e + ?p"]) (simp only: simp_thms)
  qed
qed

lemma armed_read:
  assumes "armed h ts e (tm, n)" "same_timers tm tm1"
  shows "armed h ts e (tm1, n)"
  using assms same_wf[OF assms(2)] plain_same[OF assms(2), of h] by (simp add: armed_def) (simp add: same_timers_def)

section \<open>Properties\<close>

text \<open>A system timer on the core clock, with interrupt, that is armed for 50; the time is 100.\<close>

definition sample_systick :: "tm_state \<times> nvic_state" where
  "sample_systick =
     (sample_timers\<lparr>active_timers := (\<lambda>c. [])(QEMU_CLOCK_VIRTUAL := [0])\<rparr>,
      (armv7m_nvic_init 0)\<lparr>st_control := 7, st_reload := 4, st_tick := 50, st_timer := Some 50\<rparr>)"

lemma sample_systick_armed: "armed sample_outside 0 50 (fst sample_systick, snd sample_systick)"
proof -
  have "wf_gic nvic_config (gic_init nvic_config 1)" by (rule wf_gic_init) (simp add: valid_config_def)
  then show ?thesis
    unfolding armed_def sample_systick_def
    by (auto simp: armv7m_nvic_init_def sample_timers_def tm_init_def init_clocks_def qemu_new_clock_def wf_timers_def wf_active_def
        wf_warp_def owned_def expiry_def plain_timing_def warps_def sample_outside_def)
qed

lemma sample_systick_clock:
  "clk_enabled (clocks (fst sample_systick) QEMU_CLOCK_VIRTUAL)" "qemu_get_clock_ns sample_outside QEMU_CLOCK_VIRTUAL (fst sample_systick) = Inr (100, fst sample_systick)"
  by (simp_all add: sample_systick_def sample_timers_def tm_init_def init_clocks_def qemu_new_clock_def qemu_get_clock_ns_def
      cpu_get_clock_def sample_outside_def)



lemma boot_clock_stopped: "stellaris_boot board mac st = Inr w \<Longrightarrow> system_clock_scale w = 0"
  by (auto simp: stellaris_boot_def stellaris_sys_init_def ssys_reset_def rbind_eq_Inr_iff Let_def)

text \<open>
  C19: a guest can stop the emulator with its system timer. After the start of a Stellaris board the scale of the core
  clock is zero until the clock register is written; a timer on the core clock then has the period zero, and so has,
  on either clock, a timer with the largest reload value, whose successor wraps to zero. When such a timer is due, the
  call-back arms it for the same time again and again, and running the timers never returns.
\<close>

theorem systick_zero_period_hangs:
  assumes "armed h ts e (tm, n)" "clk_enabled (clocks tm QEMU_CLOCK_VIRTUAL)" "qemu_get_clock_ns h QEMU_CLOCK_VIRTUAL tm = Inr (now, tm1)"
    and "sint e \<le> sint now" "st_reload n \<noteq> 0"
    and "stellaris_boot board mac st = Inr w" "st_reload n = 0xffffffff \<or> bit (st_control n) 2"
  shows "qemu_run_timers h (systick_cb h (system_clock_scale w) ts) QEMU_CLOCK_VIRTUAL (tm, n) = None"
proof -
  let ?sc = "system_clock_scale w"
  let ?P = "\<lambda>(tm, n). armed h ts e (tm, n) \<and> st_reload n \<noteq> 0 \<and> systick_period ?sc n = 0"
  have "systick_period ?sc n = 0"
    using assms(7) boot_clock_stopped[OF assms(6)] by (auto simp: systick_period_def systick_scale_def)
  moreover have "same_timers tm tm1" using ensuresD[OF same_get_clock assms(3)] by simp
  ultimately have start: "?P (tm1, n)" using armed_read[OF assms(1)] assms(5) by simp
  have "run_timers_loop (systick_cb h ?sc ts) QEMU_CLOCK_VIRTUAL now (tm1, n) = None"
  proof (rule run_loop_hangs[of ?P], rule start)
    fix x assume "?P x"
    then obtain tm n where x: "x = (tm, n)" "armed h ts e (tm, n)" "st_reload n \<noteq> 0" "systick_period ?sc n = 0" by (cases x) auto
    obtain tm' n' where "systick_cb h ?sc ts ts (set_active QEMU_CLOCK_VIRTUAL [] tm, n) = Inr (tm', n')" "armed h ts e (tm', n')"
        "st_reload n' = st_reload n" "systick_period ?sc n' = 0"
      using armed_step[OF x(2,3), of ?sc] x(4) by (metis add.right_neutral)
    then show "\<exists>ts' rest t w'. active_timers (fst x) QEMU_CLOCK_VIRTUAL = ts' # rest \<and> tm_mem (fst x) ts' = Some t \<and>
        sint (expire_time t) \<le> sint now \<and> systick_cb h ?sc ts ts' (set_active QEMU_CLOCK_VIRTUAL rest (fst x), snd x) = Inr w' \<and> ?P w'"
      using x assms(4) by (simp add: armed_def)
  qed
  then show ?thesis using assms(2,3) by (simp add: qemu_run_timers_def)
qed

theorem systick_zero_period_hangs_witness:
  "\<exists>w. stellaris_boot (stellaris_boards ! 1) sample_mac sample_config = Inr w \<and>
     qemu_run_timers sample_outside (systick_cb sample_outside (system_clock_scale w) 0) QEMU_CLOCK_VIRTUAL sample_systick = None"
proof -
  obtain w where w: "stellaris_boot (stellaris_boards ! 1) sample_mac sample_config = Inr w" using sample_boot by blast
  have "st_reload (snd sample_systick) \<noteq> 0" "bit (st_control (snd sample_systick)) 2" by (simp_all add: sample_systick_def bit_numeral_rec)
  then show ?thesis
    using systick_zero_period_hangs[OF sample_systick_armed sample_systick_clock _ _ w] w by auto
qed

end
