(* ===== verification/Spec2Isabelle.thy ===== *)
theory Spec2Isabelle
  imports Error_Model Stellaris_Sys Stellaris_Timer Stellaris_ADC Stellaris_I2C PL011 PL061 PL022 PL190
    PL031 VPB_SIC ARM_Timer Config_Classes GIC_Savevm NVIC_Invariant SysTick_Service
begin

text \<open>
  Verification of the variability emulator: the QEMU 0.15.1 tree under \<^verbatim>\<open>src/qemu-0.15.1\<close> with an extension
  that counts instruction cycles per class, turns them into energy, and can inject errors into the registers
  of the emulated ARM core. File names below are relative to that directory.

  \<^bold>\<open>The program.\<close> A configuration file (\<^verbatim>\<open>vl.c\<close>, read with the JSON code of \<^verbatim>\<open>json-lexer.c\<close>, \<^verbatim>\<open>json-streamer.c\<close>,
  \<^verbatim>\<open>json-parser.c\<close> into the objects of \<^verbatim>\<open>qdict.c\<close> and \<^verbatim>\<open>qlist.c\<close>) names instruction classes and errors. The translator
  (\<^verbatim>\<open>target-arm/translate.c\<close>) looks every instruction up in the instruction map (\<^verbatim>\<open>target-arm/arm_instruction_map.c\<close>) and
  sums cycles per translation block; the execution loop (\<^verbatim>\<open>cpu-exec.c\<close>) adds a block's sums to the counters of
  \<^verbatim>\<open>qemu-variability.c\<close> when the block runs. A power model (\<^verbatim>\<open>first-power-model.c\<close>) turns counters into energy; a change of
  the clock (the system controller in \<^verbatim>\<open>hw/stellaris.c\<close>) takes a checkpoint. The guest reads the results through
  \<^verbatim>\<open>hw/variability_module.c\<close>. Around this stand the devices of the two boards, which drive interrupt lines
  (\<^verbatim>\<open>hw/arm_gic.c\<close>, \<^verbatim>\<open>hw/armv7m_nvic.c\<close>, \<^verbatim>\<open>hw/pl190.c\<close>) and rely on the clocks and timers of \<^verbatim>\<open>qemu-timer.c\<close>.

  \<^bold>\<open>Conventions.\<close> \<^verbatim>\<open>Vemu_Prelude\<close>: C integers are words, signed ones read with \<open>sint\<close>; a function that can fail returns
  \<open>fault + 'a\<close>, where a fault is a null dereference, an access outside an array, a failed assertion, \<^verbatim>\<open>hw_error\<close>, \<^verbatim>\<open>exit\<close>,
  a loop that does not end, or undefined behaviour; \<open>rbind\<close> sequences, \<open>for_upto\<close> is the counted loop, \<open>ensures\<close> is the
  partial correctness calculus used for invariants. Structures are records, arrays are lists with checked access, interrupt
  lines are booleans, the time and the readings of host clocks are arguments. An uninitialised local record is an arbitrary
  value kept in the state (\<^verbatim>\<open>stale_cycles\<close>, \<^verbatim>\<open>stale_energy\<close>). \<^verbatim>\<open>Vemu_Interfaces\<close> holds the interfaces \<open>dictionary\<close> and
  \<open>fifo\<close>; \<open>power_accounting\<close>, \<open>counter_port\<close>, \<open>countdown\<close> and \<open>timer_table\<close> stand with their providers. Each is interpreted
  on the model: the hash table, the object list, the receive queue of the UART, the power model, both counter devices, the
  count-down timer, the timers of the emulator.

  \<^bold>\<open>The extension.\<close>
  \<^item> \<^verbatim>\<open>Insn_Map\<close>: the table of instructions, its lookup and the cycle tables of the boards. The start-up fills it without fault.
  \<^item> \<^verbatim>\<open>Variability\<close>: \<^verbatim>\<open>qemu-variability.c\<close>, \<^verbatim>\<open>first-power-model.c\<close>, \<^verbatim>\<open>power-model.h\<close>. The reported energy is conserved over every
    interleaving of executed blocks and checkpoints, the accounting never faults with at most \<^verbatim>\<open>MAX_INSN_CLASSES\<close> classes,
    sleep is counted exactly.
  \<^item> \<^verbatim>\<open>Error_Model\<close>: \<^verbatim>\<open>error_model.c\<close> and the hooks in the translator and the execution loop. What the hooks count; why no
    error is ever injected and why a window of errors works once.
  \<^item> \<^verbatim>\<open>Varmod\<close>, \<^verbatim>\<open>Stellaris_Sys\<close>: the device that shows the counters, and the system controller whose clock changes take
    checkpoints, together with the order of the board start. The energy shown, its offset after the start, the classes it loses.
  \<^item> \<^verbatim>\<open>Config_File\<close>, \<^verbatim>\<open>Config_Classes\<close>: the file reader and the settings of \<^verbatim>\<open>vl.c\<close>. A well-formed file gives every instruction
    the class that lists it; a file of one line crashes the emulator.

  \<^bold>\<open>Objects and JSON.\<close>
  \<^item> \<^verbatim>\<open>QObjects\<close>: hash table (\<^verbatim>\<open>qdict.c\<close>, with its hash function), lists, typed accessors. The table is a finite map.
  \<^item> \<^verbatim>\<open>JSON_Lexer\<close>, \<^verbatim>\<open>JSON_Streamer\<close>, \<^verbatim>\<open>JSON_Parser\<close>, \<^verbatim>\<open>QJSON\<close>: tokenizer, message splitter, parser, writer. The tokenizer does not
    depend on how the text is cut into buffers; the reader answers on every text; what it builds is well formed
    (\<^verbatim>\<open>JSON_Types\<close>); what the writer prints is read back (\<^verbatim>\<open>JSON_Strings\<close>, \<^verbatim>\<open>JSON_Printing\<close>, \<^verbatim>\<open>JSON_Roundtrip\<close>). The
    recursion of the parser carries one unit of fuel per token, which is shown to be enough.

  \<^bold>\<open>Time and interrupts.\<close>
  \<^item> \<^verbatim>\<open>Qemu_Timer\<close>: \<^verbatim>\<open>qemu-timer.c\<close> and \<^verbatim>\<open>cpu_get_icount\<close> of \<^verbatim>\<open>cpus.c\<close>: clocks, timers, the run loop, instruction counting with
    its warp timer, the alarms of Linux. \<^verbatim>\<open>qemu_mod_timer_ns\<close> and \<^verbatim>\<open>qemu_clock_warp\<close> call each other; the model unrolls
    them twice, and \<open>mod_timer_depth\<close> shows that a deeper unrolling gives the same result. The run loop may not end and is a
    \<open>partial_function\<close> whose value \<open>None\<close> is divergence.
  \<^item> \<^verbatim>\<open>Timer_Service\<close>: the lists of timers stay sorted, they implement a table of pending times, the run loop serves all due
    timers and ends; a warp over an empty list crashes.
  \<^item> \<^verbatim>\<open>ARM_GIC\<close>, \<^verbatim>\<open>GIC_Nesting\<close>, \<^verbatim>\<open>GIC_Savevm\<close>: \<^verbatim>\<open>hw/arm_gic.c\<close> for each configuration that the tree compiles. The chosen
    interrupt is the right one, acknowledging and completing is a stack, a state is saved and loaded up to the routing,
    which is lost; a guest can make the end of an interrupt loop. That loop is again a \<open>partial_function\<close>.
  \<^item> \<^verbatim>\<open>ARMv7M_NVIC\<close>, \<^verbatim>\<open>NVIC_Invariant\<close>: \<^verbatim>\<open>hw/armv7m_nvic.c\<close> on top of it, with the system timer. An invariant of all reachable
    states, by which priorities above 0xf0 are never delivered and active bits are never seen.
  \<^item> \<^verbatim>\<open>SysTick_Service\<close>: the system timer, the run loop of the timers and the board start put together. The timer catches up
    without drift when its period is positive; when it is zero, as it is on the core clock after the board start, the
    emulator hangs.

  \<^bold>\<open>Devices.\<close>
  \<^item> \<^verbatim>\<open>Stellaris_Timer\<close>, \<^verbatim>\<open>Stellaris_ADC\<close>, \<^verbatim>\<open>Stellaris_I2C\<close> (\<^verbatim>\<open>hw/stellaris.c\<close>), \<^verbatim>\<open>I2C_Bus\<close> (\<^verbatim>\<open>hw/i2c.c\<close>): general purpose timer (an
    invariant, no drift), converter with its queues, I2C master and bus (a transfer reaches exactly the addressed slave).
  \<^item> \<^verbatim>\<open>PL011\<close>, \<^verbatim>\<open>PL022\<close>, \<^verbatim>\<open>PL031\<close>, \<^verbatim>\<open>PL061\<close>, \<^verbatim>\<open>PL190\<close>, \<^verbatim>\<open>VPB_SIC\<close>, \<^verbatim>\<open>Ptimer\<close>, \<^verbatim>\<open>ARM_Timer\<close> (\<^verbatim>\<open>hw/pl011.c\<close>, \<^verbatim>\<open>hw/pl022.c\<close> with
    \<^verbatim>\<open>hw/ssi.c\<close>, \<^verbatim>\<open>hw/pl031.c\<close>, \<^verbatim>\<open>hw/pl061.c\<close>, \<^verbatim>\<open>hw/pl190.c\<close>, \<^verbatim>\<open>hw/versatilepb.c\<close>, \<^verbatim>\<open>hw/ptimer.c\<close>, \<^verbatim>\<open>hw/arm_timer.c\<close>): queues and
    rings refine lists, interrupt lines are what the registers say, alarms and counters have the right time.
  \<^item> \<^verbatim>\<open>Savevm_Words\<close>: the big-endian words of a saved state (\<^verbatim>\<open>savevm.c\<close>).

  \<^bold>\<open>Not modelled.\<close> The ARM decoder, the code generator and the execution of translated code: they emit host code, and only
  the lines that the extension adds to them are translated. The buffering and the sections of \<^verbatim>\<open>savevm.c\<close> and the field tables
  (\<^verbatim>\<open>VMStateDescription\<close>) of the devices, which a generic interpreter reads. Character, network, block and display back ends,
  the monitor, registration of devices and memory regions: input and output of the host, or tables of pointers. Reference
  counts of objects, since values are immutable here. Signals that arrive in the middle of a function, and the other
  CPUs' threads: calls are atomic. The alarm back ends of Windows, the system calls that start a host alarm. The other boards
  and targets, the firmware sources: unchanged code that the extension does not touch. \<^verbatim>\<open>strtod\<close> and the decimal text of
  a double are parameters.
\<close>

end
